(* ===== verification/Prelude.thy ===== *)
theory Prelude
  imports Main "HOL-Library.Word" "HOL-Library.Char_ord" "HOL-Library.List_Lexorder"
begin

text \<open>
  What every component shares: the names of Go's basic types, the collections of
  simplification rules that carry the proofs, and Go maps with string keys.

  A Go \<open>string\<close> is a sequence of bytes, and so is HOL's \<^typ>\<open>string\<close> (a \<open>char\<close> has
  eight bits): \<open>len(s)\<close> is \<^term>\<open>length s\<close>, and a character beyond ASCII is the several
  bytes of its UTF-8 form. An \<open>int64\<close>, \<open>int\<close> or \<open>time.Duration\<close> whose width matters
  is a 64-bit word read through \<^term>\<open>sint\<close>; an \<open>int\<close> that only ever holds small
  numbers (a status code, a step counter) is an \<^typ>\<open>int\<close>.
\<close>

type_synonym int64 = "64 word"

named_theorems go_simps "evaluation rules of the modelled library functions"
named_theorems gomap_simps "lookup and update laws of Go maps"
named_theorems err_simps "classification of error values"

section \<open>Bytes\<close>

abbreviation ord :: "char \<Rightarrow> nat" where
  "ord c \<equiv> of_char c"

abbreviation chr :: "nat \<Rightarrow> char" where
  "chr n \<equiv> char_of n"

lemma ord_less_256: "ord c < 256"
  by (metis of_char_mod_256 mod_less_divisor zero_less_numeral)

lemma ord_chr: "n < 256 \<Longrightarrow> ord (chr n) = n"
  by (simp add: of_char_of)

lemma ord_eq_iff: "ord c = ord d \<longleftrightarrow> c = d"
  by simp

text \<open>Evaluates \<open>chr\<close> at a numeral to a character literal.\<close>

lemmas chr_eval = char_of_def bit_0

section \<open>Results of code that may panic\<close>

text \<open>
  A Go function either returns or panics; the panic carries the text of the runtime error.
\<close>

datatype 'a go_result = Returns 'a | Panics string

fun returned :: "'a go_result \<Rightarrow> bool" where
  "returned (Returns _) = True"
| "returned (Panics _) = False"

section \<open>Lists\<close>

lemma find_in_set: "find P xs = Some x \<Longrightarrow> x \<in> set xs \<and> P x"
  by (induction xs) (auto split: if_splits)

section \<open>Go maps with string keys\<close>

text \<open>
  A Go map is kept as the list of its entries, sorted by key without duplicates: the
  order in which \<open>encoding/json\<close> writes a map. The form is canonical, so two maps are
  equal exactly when they have the same entries.
\<close>

type_synonym 'v gomap = "(string \<times> 'v) list"

definition gm_wf :: "'v gomap \<Rightarrow> bool" where
  "gm_wf m \<longleftrightarrow> sorted (map fst m) \<and> distinct (map fst m)"

definition gm_get :: "'v gomap \<Rightarrow> string \<Rightarrow> 'v option" where
  "gm_get m k = map_of m k"

fun gm_set :: "string \<Rightarrow> 'v \<Rightarrow> 'v gomap \<Rightarrow> 'v gomap" where
  "gm_set k v [] = [(k, v)]"
| "gm_set k v ((k', v') # m) =
     (if k < k' then (k, v) # (k', v') # m
      else if k = k' then (k, v) # m
      else (k', v') # gm_set k v m)"

definition gm_of_list :: "(string \<times> 'v) list \<Rightarrow> 'v gomap" where
  "gm_of_list kvs = fold (\<lambda>(k, v). gm_set k v) kvs []"

lemma gm_wf_Nil [simp]: "gm_wf []"
  by (simp add: gm_wf_def)

lemma gm_wf_Cons:
  "gm_wf ((k, v) # m) \<longleftrightarrow> gm_wf m \<and> (\<forall>k'\<in>set (map fst m). k < k')"
  by (auto simp: gm_wf_def order_less_le)

lemma set_keys_gm_set: "set (map fst (gm_set k v m)) = insert k (set (map fst m))"
  by (induction k v m rule: gm_set.induct) auto

lemma gm_wf_set: "gm_wf m \<Longrightarrow> gm_wf (gm_set k v m)"
proof (induction k v m rule: gm_set.induct)
  case (2 k v k' v' m)
  from "2.prems" have m: "gm_wf m" and k': "\<forall>x\<in>set (map fst m). k' < x"
    by (simp_all add: gm_wf_Cons)
  show ?case
  proof (cases "k < k'")
    case True
    with "2.prems" k' show ?thesis by (auto simp: gm_wf_Cons)
  next
    case False
    show ?thesis
    proof (cases "k = k'")
      case True
      with m k' show ?thesis by (simp add: gm_wf_Cons)
    next
      case neq: False
      with False have "k' < k" by simp
      with m k' neq False "2.IH" [OF False neq m] set_keys_gm_set [of k v m]
      show ?thesis by (auto simp: gm_wf_Cons simp del: set_map)
    qed
  qed
qed (simp add: gm_wf_Cons)

lemma gm_get_Nil [gomap_simps]: "gm_get [] k = None"
  by (simp add: gm_get_def)

lemma gm_get_set [gomap_simps]:
  "gm_wf m \<Longrightarrow> gm_get (gm_set k v m) k' = (if k' = k then Some v else gm_get m k')"
proof (induction k v m rule: gm_set.induct)
  case (2 k v j w m)
  then show ?case by (auto simp: gm_get_def gm_wf_Cons)
qed (simp add: gm_get_def)

lemma gm_get_None_iff: "gm_get m k = None \<longleftrightarrow> k \<notin> set (map fst m)"
  by (simp add: gm_get_def map_of_eq_None_iff)

lemma gm_get_in_set: "gm_wf m \<Longrightarrow> gm_get m k = Some v \<longleftrightarrow> (k, v) \<in> set m"
  by (simp add: gm_get_def gm_wf_def)

lemma gm_ext:
  assumes "gm_wf m" and "gm_wf n" and "\<And>k. gm_get m k = gm_get n k"
  shows "m = n"
proof (rule map_sorted_distinct_set_unique [where f = fst])
  show "inj_on fst (set m \<union> set n)"
    using assms by (auto simp: inj_on_def dest: gm_get_in_set [THEN iffD2, rotated])
      (metis gm_get_in_set option.inject)+
  show "sorted (map fst m)" "distinct (map fst m)" "sorted (map fst n)" "distinct (map fst n)"
    using assms by (simp_all add: gm_wf_def)
  show "set m = set n"
    using assms by (auto simp: gm_get_in_set [symmetric])
qed

lemma gm_wf_fold: "gm_wf m \<Longrightarrow> gm_wf (fold (\<lambda>(k, x). gm_set k (f x)) kvs m)"
  by (induction kvs arbitrary: m) (auto simp: gm_wf_set)

lemma gm_get_fold:
  assumes "gm_wf m" and "distinct (map fst kvs)"
  shows "gm_get (fold (\<lambda>(k, x). gm_set k (f x)) kvs m) k =
    (case map_of kvs k of Some x \<Rightarrow> Some (f x) | None \<Rightarrow> gm_get m k)"
  using assms
proof (induction kvs arbitrary: m)
  case (Cons kv kvs)
  obtain a x where kv: "kv = (a, x)" by (cases kv)
  have "a \<notin> fst ` set kvs" using Cons.prems(2) by (simp add: kv)
  then have "map_of kvs a = None" by (simp add: map_of_eq_None_iff)
  with Cons.IH [OF gm_wf_set [OF Cons.prems(1)], of a "f x"] Cons.prems show ?case
    by (cases "k = a"; cases "map_of kvs k") (simp_all add: kv gm_get_set)
qed simp

lemma gm_wf_of_list: "gm_wf (gm_of_list kvs)"
  using gm_wf_fold [of "[]" "\<lambda>v. v" kvs] by (simp add: gm_of_list_def)

text \<open>Later entries win, as repeated assignments to a Go map do.\<close>

lemma gm_get_of_list: "gm_get (gm_of_list kvs) k = map_of (rev kvs) k"
proof -
  have "gm_wf m \<Longrightarrow>
      gm_get (fold (\<lambda>(k, v). gm_set k v) kvs m) k =
        (case map_of (rev kvs) k of None \<Rightarrow> gm_get m k | Some v \<Rightarrow> Some v)" for m
    by (induction kvs arbitrary: m)
      (auto simp: gm_wf_set gm_get_set map_add_def split: option.splits)
  from this [of "[]"] show ?thesis
    by (simp add: gm_of_list_def gm_get_Nil split: option.splits)
qed

text \<open>The interface the components rely on, discharged once for the model.\<close>

locale string_map =
  fixes get :: "'m \<Rightarrow> string \<Rightarrow> 'v option"
    and put :: "string \<Rightarrow> 'v \<Rightarrow> 'm \<Rightarrow> 'm"
    and empty :: 'm
    and wf :: "'m \<Rightarrow> bool"
  assumes get_empty: "get empty k = None"
    and get_put: "wf m \<Longrightarrow> get (put k v m) k' = (if k' = k then Some v else get m k')"
    and wf_empty: "wf empty"
    and wf_put: "wf m \<Longrightarrow> wf (put k v m)"
    and ext: "wf m \<Longrightarrow> wf n \<Longrightarrow> (\<And>k. get m k = get n k) \<Longrightarrow> m = n"
begin

lemma put_put: "wf m \<Longrightarrow> put k v (put k w m) = put k v m"
  by (rule ext) (simp_all add: wf_put get_put)

lemma put_commute: "wf m \<Longrightarrow> k \<noteq> j \<Longrightarrow> put k v (put j w m) = put j w (put k v m)"
  by (rule ext) (auto simp: wf_put get_put)

lemma put_same: "wf m \<Longrightarrow> get m k = Some v \<Longrightarrow> put k v m = m"
  by (rule ext) (auto simp: wf_put get_put)

end

interpretation gm: string_map gm_get gm_set "[]" gm_wf
  by unfold_locales (auto simp: gm_get_Nil gm_get_set gm_wf_set intro: gm_ext)

end
