(* ===== verification/GoStrings.thy ===== *)
theory GoStrings
  imports Prelude
begin

text \<open>
  The parts of Go's \<open>unicode/utf8\<close>, \<open>strings\<close>, \<open>strconv\<close> and \<open>encoding/hex\<close> that the
  program calls, as functions on byte strings. What is not computed here is the parameter
  record \<open>go_lib\<close>: Go's tables for characters beyond ASCII (lower case, case folding,
  which characters print) and the wording of the errors of \<open>encoding/json\<close> for a target
  type and an input. Every result about ASCII text holds for any such tables, and no
  result depends on that wording.
\<close>

section \<open>UTF-8\<close>

record go_lib =
  uni_lower :: "nat \<Rightarrow> nat"
  uni_fold :: "nat \<Rightarrow> nat"
  uni_print :: "nat \<Rightarrow> bool"
  json_error_text :: "string \<Rightarrow> string \<Rightarrow> string"

text \<open>A table that knows no character beyond ASCII: used to evaluate examples.\<close>

definition ascii_tables :: go_lib where
  "ascii_tables = \<lparr>uni_lower = (\<lambda>r. r), uni_fold = (\<lambda>r. r), uni_print = (\<lambda>_. False),
     json_error_text = (\<lambda>_ _. ''invalid json'')\<rparr>"

definition rune_error :: nat where
  "rune_error = 0xFFFD"

definition cont_byte :: "char \<Rightarrow> bool" where
  "cont_byte c \<longleftrightarrow> 0x80 \<le> ord c \<and> ord c \<le> 0xBF"

text \<open>The range of the second byte depends on the first (no overlong forms, no surrogates).\<close>

definition second_ok :: "nat \<Rightarrow> char \<Rightarrow> bool" where
  "second_ok x c \<longleftrightarrow>
     (if x = 0xE0 then 0xA0 else if x = 0xF0 then 0x90 else 0x80) \<le> ord c \<and>
     ord c \<le> (if x = 0xED then 0x9F else if x = 0xF4 then 0x8F else 0xBF)"

text \<open>\<open>utf8.DecodeRune\<close>: the first character and its width; an invalid byte is
  (U+FFFD, 1).\<close>

fun decode_rune :: "string \<Rightarrow> nat \<times> nat" where
  "decode_rune [] = (rune_error, 0)"
| "decode_rune (b0 # s) =
     (if ord b0 < 0x80 then (ord b0, 1)
      else if ord b0 < 0xC2 \<or> 0xF4 < ord b0 then (rune_error, 1)
      else case s of
        [] \<Rightarrow> (rune_error, 1)
      | b1 # s1 \<Rightarrow>
          if \<not> second_ok (ord b0) b1 then (rune_error, 1)
          else if ord b0 < 0xE0 then ((ord b0 - 0xC0) * 64 + (ord b1 - 0x80), 2)
          else case s1 of
            [] \<Rightarrow> (rune_error, 1)
          | b2 # s2 \<Rightarrow>
              if \<not> cont_byte b2 then (rune_error, 1)
              else if ord b0 < 0xF0
                then ((ord b0 - 0xE0) * 4096 + (ord b1 - 0x80) * 64 + (ord b2 - 0x80), 3)
              else case s2 of
                [] \<Rightarrow> (rune_error, 1)
              | b3 # _ \<Rightarrow>
                  if \<not> cont_byte b3 then (rune_error, 1)
                  else ((ord b0 - 0xF0) * 262144 + (ord b1 - 0x80) * 4096
                        + (ord b2 - 0x80) * 64 + (ord b3 - 0x80), 4))"

text \<open>\<open>utf8.AppendRune\<close>: what is no Unicode scalar value is written as U+FFFD.\<close>

definition scalar :: "nat \<Rightarrow> bool" where
  "scalar r \<longleftrightarrow> r < 0xD800 \<or> 0xDFFF < r \<and> r \<le> 0x10FFFF"

definition encode_scalar :: "nat \<Rightarrow> string" where
  "encode_scalar r =
     (if r < 0x80 then [chr r]
      else if r < 0x800 then [chr (0xC0 + r div 64), chr (0x80 + r mod 64)]
      else if r < 0x10000
        then [chr (0xE0 + r div 4096), chr (0x80 + r div 64 mod 64), chr (0x80 + r mod 64)]
      else [chr (0xF0 + r div 262144), chr (0x80 + r div 4096 mod 64),
            chr (0x80 + r div 64 mod 64), chr (0x80 + r mod 64)])"

definition encode_rune :: "nat \<Rightarrow> string" where
  "encode_rune r = encode_scalar (if scalar r then r else rune_error)"

definition valid_head :: "string \<Rightarrow> bool" where
  "valid_head s \<longleftrightarrow> decode_rune s \<noteq> (rune_error, 1)"

lemma decode_rune_width:
  "s \<noteq> [] \<Longrightarrow> 1 \<le> snd (decode_rune s) \<and> snd (decode_rune s) \<le> length s"
  by (cases s) (auto split: list.splits)

lemma decode_rune_shorter: "s \<noteq> [] \<Longrightarrow> length (drop (snd (decode_rune s)) s) < length s"
  using decode_rune_width [of s] by simp

lemma decode_rune_ascii [go_simps]: "ord c < 0x80 \<Longrightarrow> decode_rune (c # s) = (ord c, 1)"
  by simp

text \<open>A valid character is written back as the bytes it was read from.\<close>

lemma div_mod_64: "y < 64 \<Longrightarrow> (x * 64 + y) div 64 = x \<and> (x * 64 + y) mod 64 = (y::nat)"
  by simp

lemma encode_scalar2:
  assumes "2 \<le> (x::nat)" "x < 32" "y < 64"
  shows "encode_scalar (x * 64 + y) = [chr (0xC0 + x), chr (0x80 + y)]"
    and "scalar (x * 64 + y)"
  using assms by (simp_all add: encode_scalar_def scalar_def)

lemma encode_scalar3:
  assumes "x < 16" "y < 64" "z < 64" and "x = 0 \<Longrightarrow> 32 \<le> (y::nat)" and "x = 13 \<Longrightarrow> y < 32"
  shows "encode_scalar (x * 4096 + y * 64 + z) = [chr (0xE0 + x), chr (0x80 + y), chr (0x80 + z)]"
    and "scalar (x * 4096 + y * 64 + z)"
proof -
  define q where "q = x * 64 + y"
  have r: "x * 4096 + y * 64 + z = q * 64 + z" by (simp add: q_def)
  have q: "32 \<le> q" "q < 1024" using assms by (cases "x = 0"; simp add: q_def)+
  have "(q * 64 + z) div 4096 = q div 64"
    using div_mult2_eq [of "q * 64 + z" 64 64] div_mod_64 [OF assms(3), of q] by simp
  moreover have "q div 64 = x" "q mod 64 = y"
    using div_mod_64 [OF assms(2), of x] by (simp_all add: q_def)
  ultimately show "encode_scalar (x * 4096 + y * 64 + z) = [chr (0xE0 + x), chr (0x80 + y), chr (0x80 + z)]"
    using q assms(3) unfolding r by (simp add: encode_scalar_def)
  show "scalar (x * 4096 + y * 64 + z)"
    using assms by (cases "x < 13"; cases "x = 13"; simp add: scalar_def)
qed

lemma encode_scalar4:
  assumes "x < 5" "y < 64" "z < 64" "w < 64" and "x = 0 \<Longrightarrow> 16 \<le> (y::nat)" and "x = 4 \<Longrightarrow> y < 16"
  shows "encode_scalar (x * 262144 + y * 4096 + z * 64 + w) =
           [chr (0xF0 + x), chr (0x80 + y), chr (0x80 + z), chr (0x80 + w)]"
    and "scalar (x * 262144 + y * 4096 + z * 64 + w)"
proof -
  define p where "p = x * 64 + y"
  define q where "q = p * 64 + z"
  have r: "x * 262144 + y * 4096 + z * 64 + w = q * 64 + w" by (simp add: q_def p_def)
  have p: "16 \<le> p" "p < 272" using assms by (cases "x = 0"; cases "x = 4"; simp add: p_def)+
  then have q: "1024 \<le> q" "q < 17408" using assms(3) by (simp_all add: q_def)
  have dq: "(q * 64 + w) div 64 = q" "q div 64 = p" "p div 64 = x"
    "q mod 64 = z" "p mod 64 = y" "(q * 64 + w) mod 64 = w"
    using div_mod_64 [OF assms(4), of q] div_mod_64 [OF assms(3), of p] div_mod_64 [OF assms(2), of x]
    by (simp_all add: q_def [symmetric] p_def [symmetric])
  have "(q * 64 + w) div 4096 = p" "(q * 64 + w) div 262144 = x"
    using div_mult2_eq [of "q * 64 + w" 64 64] div_mult2_eq [of "q * 64 + w" 64 4096]
      div_mult2_eq [of q 64 64] dq by simp_all
  with q dq show "encode_scalar (x * 262144 + y * 4096 + z * 64 + w) =
      [chr (0xF0 + x), chr (0x80 + y), chr (0x80 + z), chr (0x80 + w)]"
    unfolding r by (simp add: encode_scalar_def)
  from q assms(4) show "scalar (x * 262144 + y * 4096 + z * 64 + w)"
    unfolding r by (simp add: scalar_def)
qed

lemma byte_offset: "k \<le> ord c \<Longrightarrow> chr (k + (ord c - k)) = c"
  by simp

lemma encode_decode_rune:
  assumes "s \<noteq> []" and "valid_head s"
  shows "encode_scalar (fst (decode_rune s)) = take (snd (decode_rune s)) s"
    and "scalar (fst (decode_rune s))"
proof -
  obtain b0 t where s: "s = b0 # t" using assms(1) by (cases s) auto
  consider (a) "ord b0 < 0x80"
    | (b) b1 t1 where "t = b1 # t1" "0xC2 \<le> ord b0" "ord b0 < 0xE0" "second_ok (ord b0) b1"
    | (c) b1 b2 t2 where "t = b1 # b2 # t2" "0xE0 \<le> ord b0" "ord b0 < 0xF0"
        "second_ok (ord b0) b1" "cont_byte b2"
    | (d) b1 b2 b3 t3 where "t = b1 # b2 # b3 # t3" "0xF0 \<le> ord b0" "ord b0 \<le> 0xF4"
        "second_ok (ord b0) b1" "cont_byte b2" "cont_byte b3"
    using assms(2) unfolding s valid_head_def
    by (auto simp: not_less not_le split: list.splits if_splits)
  then have "encode_scalar (fst (decode_rune s)) = take (snd (decode_rune s)) s
      \<and> scalar (fst (decode_rune s))"
  proof cases
    case a
    then show ?thesis by (simp add: s encode_scalar_def scalar_def)
  next
    case b
    then have "0x80 \<le> ord b1" "ord b1 \<le> 0xBF" by (auto simp: second_ok_def split: if_splits)
    with b encode_scalar2 [of "ord b0 - 0xC0" "ord b1 - 0x80"] show ?thesis
      by (simp add: s)
  next
    case c
    then have "0x80 \<le> ord b1" "ord b1 \<le> 0xBF" "0x80 \<le> ord b2" "ord b2 \<le> 0xBF"
      "ord b0 \<noteq> 0xE0 \<or> 0xA0 \<le> ord b1" "ord b0 \<noteq> 0xED \<or> ord b1 \<le> 0x9F"
      by (auto simp: second_ok_def cont_byte_def split: if_splits)
    then have "ord b1 - 0x80 < 64" "ord b2 - 0x80 < 64"
      "ord b0 - 0xE0 = 0 \<Longrightarrow> 32 \<le> ord b1 - 0x80" "ord b0 - 0xE0 = 13 \<Longrightarrow> ord b1 - 0x80 < 32"
      using c(2,3) by arith+
    with c encode_scalar3 [of "ord b0 - 0xE0" "ord b1 - 0x80" "ord b2 - 0x80"]
      \<open>0x80 \<le> ord b1\<close> \<open>0x80 \<le> ord b2\<close> show ?thesis
      by (simp add: s)
  next
    case d
    then have "0x80 \<le> ord b1" "ord b1 \<le> 0xBF" "0x80 \<le> ord b2" "ord b2 \<le> 0xBF"
      "0x80 \<le> ord b3" "ord b3 \<le> 0xBF"
      "ord b0 \<noteq> 0xF0 \<or> 0x90 \<le> ord b1" "ord b0 \<noteq> 0xF4 \<or> ord b1 \<le> 0x8F"
      by (auto simp: second_ok_def cont_byte_def split: if_splits)
    then have "ord b1 - 0x80 < 64" "ord b2 - 0x80 < 64" "ord b3 - 0x80 < 64"
      "ord b0 - 0xF0 = 0 \<Longrightarrow> 16 \<le> ord b1 - 0x80" "ord b0 - 0xF0 = 4 \<Longrightarrow> ord b1 - 0x80 < 16"
      using d(2,3) by arith+
    with d encode_scalar4 [of "ord b0 - 0xF0" "ord b1 - 0x80" "ord b2 - 0x80" "ord b3 - 0x80"]
      \<open>0x80 \<le> ord b1\<close> \<open>0x80 \<le> ord b2\<close> \<open>0x80 \<le> ord b3\<close>
    show ?thesis by (simp add: s)
  qed
  then show "encode_scalar (fst (decode_rune s)) = take (snd (decode_rune s)) s"
    "scalar (fst (decode_rune s))" by simp_all
qed

lemma scalar_less: "scalar r \<Longrightarrow> r < 0x110000"
  by (auto simp: scalar_def)

text \<open>Conversely, a written character is read back, whatever follows it.\<close>

lemma decode_encode_scalar:
  assumes "scalar r"
  shows "decode_rune (encode_scalar r @ t) = (r, length (encode_scalar r))"
proof -
  have r: "r div 64 * 64 + r mod 64 = r" "r div 64 div 64 * 64 + r div 64 mod 64 = r div 64"
    "r div 64 div 64 div 64 * 64 + r div 64 div 64 mod 64 = r div 64 div 64"
    by (simp_all only: div_mult_mod_eq)
  have d: "r div 4096 = r div 64 div 64" "r div 262144 = r div 64 div 64 div 64"
    using div_mult2_eq [of r 64 64] div_mult2_eq [of r 64 4096] div_mult2_eq [of "r div 64" 64 64]
    by simp_all
  define a b c e where "a = r mod 64" and "b = r div 64 mod 64"
    and "c = r div 64 div 64 mod 64" and "e = r div 64 div 64 div 64"
  have lt: "a < 64" "b < 64" "c < 64" by (simp_all add: a_def b_def c_def)
  have r': "r = e * 262144 + c * 4096 + b * 64 + a"
    using r unfolding a_def [symmetric] b_def [symmetric] c_def [symmetric] e_def [symmetric]
    by linarith
  consider "r < 0x80" | "0x80 \<le> r" "r < 0x800" | "0x800 \<le> r" "r < 0x10000" | "0x10000 \<le> r"
    by linarith
  then show ?thesis
  proof cases
    case 1
    then show ?thesis by (simp add: encode_scalar_def)
  next
    case 2
    then have "e = 0" "c = 0" using r' by auto
    then have "r div 64 = b" using r by (simp add: b_def c_def e_def)
    with 2 have "encode_scalar r = [chr (0xC0 + b), chr (0x80 + a)]"
      by (simp add: encode_scalar_def a_def)
    moreover have "r = b * 64 + a" "2 \<le> b" "b < 32"
      using 2 r' lt \<open>e = 0\<close> \<open>c = 0\<close> by auto
    ultimately show ?thesis using lt by (simp add: second_ok_def)
  next
    case 3
    then have "e = 0" using r' by auto
    then have "r div 64 div 64 = c" using r by (simp add: c_def e_def)
    with 3 have "encode_scalar r = [chr (0xE0 + c), chr (0x80 + b), chr (0x80 + a)]"
      by (simp add: encode_scalar_def d a_def b_def)
    moreover have "r = c * 4096 + b * 64 + a" "c < 16" "c = 0 \<longrightarrow> 32 \<le> b" "c = 13 \<longrightarrow> b < 32"
      using 3 \<open>e = 0\<close> r' lt assms by (auto simp: scalar_def)
    ultimately show ?thesis using lt by (auto simp: second_ok_def cont_byte_def)
  next
    case 4
    then have "encode_scalar r = [chr (0xF0 + e), chr (0x80 + c), chr (0x80 + b), chr (0x80 + a)]"
      by (simp add: encode_scalar_def d a_def b_def c_def e_def)
    moreover have "e < 5" "e = 0 \<longrightarrow> 16 \<le> c" "e = 4 \<longrightarrow> c < 16"
      using 4 r' lt scalar_less [OF assms] by auto
    ultimately show ?thesis using lt r' by (auto simp: second_ok_def cont_byte_def)
  qed
qed

lemma valid_head_encode: "scalar r \<Longrightarrow> valid_head (encode_scalar r @ t)"
  unfolding valid_head_def decode_encode_scalar
  by (simp add: encode_scalar_def rune_error_def)

lemma encode_scalar_nonempty [simp]: "encode_scalar r \<noteq> []"
  by (simp add: encode_scalar_def)

lemma encode_rune_ascii [go_simps]: "r < 0x80 \<Longrightarrow> encode_rune r = [chr r]"
  by (simp add: encode_rune_def encode_scalar_def scalar_def)

text \<open>Recursion over the characters of a string, with the induction rule that goes with it.\<close>

lemma rune_induct [case_names Nil rune]:
  assumes "P []" and "\<And>s. s \<noteq> [] \<Longrightarrow> P (drop (snd (decode_rune s)) s) \<Longrightarrow> P s"
  shows "P s"
proof (induction s rule: length_induct)
  case (1 s)
  then show ?case using assms decode_rune_shorter [of s] by (cases "s = []") auto
qed

function utf8_valid :: "string \<Rightarrow> bool" where
  "utf8_valid s =
     (if s = [] then True else valid_head s \<and> utf8_valid (drop (snd (decode_rune s)) s))"
  by pat_completeness auto
termination
  by (relation "measure length", rule wf_measure, unfold in_measure, rule decode_rune_shorter)

text \<open>\<open>strings.Map\<close>: every character through \<open>f\<close>; an invalid byte goes in as U+FFFD.\<close>

function map_runes :: "(nat \<Rightarrow> nat) \<Rightarrow> string \<Rightarrow> string" where
  "map_runes f s =
     (if s = [] then []
      else encode_rune (f (fst (decode_rune s))) @ map_runes f (drop (snd (decode_rune s)) s))"
  by pat_completeness auto
termination
  by (relation "measure (\<lambda>(f, s). length s)", rule wf_measure, unfold in_measure prod.case,
      rule decode_rune_shorter)

declare utf8_valid.simps [simp del] map_runes.simps [simp del]

section \<open>The \<open>strings\<close> package\<close>

definition lower_rune :: "go_lib \<Rightarrow> nat \<Rightarrow> nat" where
  "lower_rune U r = (if r < 0x80 then (if 65 \<le> r \<and> r \<le> 90 then r + 32 else r) else uni_lower U r)"

text \<open>
  \<open>strings.ToLower\<close>. On ASCII it keeps the length; beyond ASCII it need not: an invalid
  byte grows to the three bytes of U+FFFD, and some letters change their width.
\<close>

definition to_lower :: "go_lib \<Rightarrow> string \<Rightarrow> string" where
  "to_lower U s = map_runes (lower_rune U) s"

definition ascii :: "string \<Rightarrow> bool" where
  "ascii s \<longleftrightarrow> (\<forall>c\<in>set s. ord c < 0x80)"

definition lower_char :: "char \<Rightarrow> char" where
  "lower_char c = (if 65 \<le> ord c \<and> ord c \<le> 90 then chr (ord c + 32) else c)"

lemma ascii_Cons [simp]: "ascii (c # s) \<longleftrightarrow> ord c < 0x80 \<and> ascii s"
  by (simp add: ascii_def)

lemma ascii_Nil [simp]: "ascii []"
  by (simp add: ascii_def)

lemma ascii_append [simp]: "ascii (s @ t) \<longleftrightarrow> ascii s \<and> ascii t"
  by (auto simp: ascii_def)

lemma map_runes_Nil [simp]: "map_runes f [] = []"
  by (simp add: map_runes.simps)

lemma map_runes_ascii [go_simps]:
  "ord c < 0x80 \<Longrightarrow> map_runes f (c # s) = encode_rune (f (ord c)) @ map_runes f s"
  by (subst map_runes.simps) simp

lemma to_lower_ascii: "ascii s \<Longrightarrow> to_lower U s = map lower_char s"
  by (induction s) (auto simp: to_lower_def map_runes_ascii lower_rune_def lower_char_def
      encode_rune_ascii)

lemma utf8_valid_Nil [simp]: "utf8_valid []"
  by (simp add: utf8_valid.simps)

lemma utf8_valid_ascii_Cons [simp]: "ord c < 0x80 \<Longrightarrow> utf8_valid (c # s) = utf8_valid s"
  by (subst utf8_valid.simps) (auto simp: valid_head_def rune_error_def)

lemma utf8_valid_ascii: "ascii s \<Longrightarrow> utf8_valid s"
  by (induction s) auto

lemma utf8_valid_encode: "scalar r \<Longrightarrow> utf8_valid (encode_scalar r @ s) = utf8_valid s"
  by (subst utf8_valid.simps) (simp add: valid_head_encode decode_encode_scalar)

text \<open>A valid string is a sequence of encoded characters: induction over it.\<close>

lemma utf8_valid_induct [consumes 1, case_names Nil rune]:
  assumes "utf8_valid s" and "P []"
    and "\<And>r t. scalar r \<Longrightarrow> utf8_valid t \<Longrightarrow> P t \<Longrightarrow> P (encode_scalar r @ t)"
  shows "P s"
  using assms(1)
proof (induction s rule: rune_induct)
  case Nil
  show ?case by (rule assms(2))
next
  case (rune s)
  let ?r = "fst (decode_rune s)" and ?t = "drop (snd (decode_rune s)) s"
  from rune.prems \<open>s \<noteq> []\<close> have v: "valid_head s" "utf8_valid ?t"
    by (simp_all add: utf8_valid.simps [of s])
  have "s = encode_scalar ?r @ ?t" "scalar ?r"
    using encode_decode_rune [OF \<open>s \<noteq> []\<close> v(1)] by simp_all
  then show ?case
    using assms(3) [of ?r ?t] rune.IH v(2) by simp
qed

fun has_prefix :: "string \<Rightarrow> string \<Rightarrow> bool" where
  "has_prefix [] s = True"
| "has_prefix (p # ps) [] = False"
| "has_prefix (p # ps) (c # s) = (p = c \<and> has_prefix ps s)"

lemma has_prefix_iff: "has_prefix p s \<longleftrightarrow> (\<exists>t. s = p @ t)"
  by (induction p s rule: has_prefix.induct) auto

lemma has_prefix_append [simp]: "has_prefix p (p @ t)"
  by (auto simp: has_prefix_iff)

text \<open>\<open>strings.Index\<close>, with \<open>None\<close> for -1.\<close>

fun index_of :: "string \<Rightarrow> string \<Rightarrow> nat option" where
  "index_of [] p = (if p = [] then Some 0 else None)"
| "index_of (c # s) p =
     (if has_prefix p (c # s) then Some 0 else map_option Suc (index_of s p))"

lemma index_of_Some:
  "index_of s p = Some i \<Longrightarrow> i + length p \<le> length s \<and> take (length p) (drop i s) = p"
  by (induction s p arbitrary: i rule: index_of.induct)
    (auto simp: has_prefix_iff split: if_splits dest: arg_cong [where f = length])

lemma index_of_first:
  "index_of s p = Some i \<Longrightarrow> j < i \<Longrightarrow> \<not> has_prefix p (drop j s)"
proof (induction s p arbitrary: i j rule: index_of.induct)
  case (2 c s p)
  then show ?case by (cases j) (auto split: if_splits)
qed (simp split: if_splits)

lemma index_of_None: "index_of s p = None \<longleftrightarrow> (\<forall>a b. s \<noteq> a @ p @ b)"
proof (induction s p rule: index_of.induct)
  case (2 c s p)
  show ?case
  proof (cases "has_prefix p (c # s)")
    case True
    then obtain b where "c # s = [] @ p @ b" by (auto simp: has_prefix_iff)
    with True show ?thesis by (metis index_of.simps(2) option.distinct(1))
  next
    case False
    have "(\<forall>a b. c # s \<noteq> a @ p @ b) \<longleftrightarrow> (\<forall>a b. s \<noteq> a @ p @ b)"
    proof
      assume h: "\<forall>a b. c # s \<noteq> a @ p @ b"
      show "\<forall>a b. s \<noteq> a @ p @ b"
        using h by (metis append_Cons)
    next
      assume h: "\<forall>a b. s \<noteq> a @ p @ b"
      show "\<forall>a b. c # s \<noteq> a @ p @ b"
      proof (intro allI notI)
        fix a b assume "c # s = a @ p @ b"
        with False h show False by (cases a) (auto simp: has_prefix_iff)
      qed
    qed
    with False 2 show ?thesis by simp
  qed
qed auto

definition str_contains :: "string \<Rightarrow> string \<Rightarrow> bool" where
  "str_contains s p \<longleftrightarrow> index_of s p \<noteq> None"

text \<open>\<open>strings.TrimSpace\<close> drops the characters of \<open>unicode.IsSpace\<close> at both ends.\<close>

definition space_runes :: "nat list" where
  "space_runes = [9, 10, 11, 12, 13, 32, 0x85, 0xA0, 0x1680, 0x2000, 0x2001, 0x2002, 0x2003,
     0x2004, 0x2005, 0x2006, 0x2007, 0x2008, 0x2009, 0x200A, 0x2028, 0x2029, 0x202F, 0x205F, 0x3000]"

definition drop_any :: "string list \<Rightarrow> string \<Rightarrow> string" where
  "drop_any ps s = (case find (\<lambda>p. has_prefix p s) ps of None \<Rightarrow> s | Some p \<Rightarrow> drop (length p) s)"

function trim_left :: "string list \<Rightarrow> string \<Rightarrow> string" where
  "trim_left ps s =
     (if length (drop_any ps s) < length s then trim_left ps (drop_any ps s) else s)"
  by pat_completeness auto
termination
  by (relation "measure (\<lambda>(ps, s). length s)") auto

declare trim_left.simps [simp del]

definition trim_space :: "string \<Rightarrow> string" where
  "trim_space s =
     (let es = map encode_scalar space_runes
      in rev (trim_left (map rev es) (rev (trim_left es s))))"

text \<open>\<open>strings.TrimRight(s, "/")\<close> for a one-character cut set, and \<open>strings.Split\<close>
  at a one-character separator.\<close>

definition trim_right_char :: "char \<Rightarrow> string \<Rightarrow> string" where
  "trim_right_char c s = rev (dropWhile (\<lambda>x. x = c) (rev s))"

fun split_char :: "char \<Rightarrow> string \<Rightarrow> string list" where
  "split_char d [] = [[]]"
| "split_char d (c # s) =
     (if c = d then [] # split_char d s
      else case split_char d s of [] \<Rightarrow> [[c]] | p # ps \<Rightarrow> (c # p) # ps)"

fun join_char :: "char \<Rightarrow> string list \<Rightarrow> string" where
  "join_char d [] = []"
| "join_char d [p] = p"
| "join_char d (p # q # ps) = p @ d # join_char d (q # ps)"

lemma split_char_nonempty [simp]: "split_char d s \<noteq> []"
  by (cases s) (auto split: list.splits)

lemma length_split_char: "length (split_char d s) = Suc (count_list s d)"
  by (induction s) (auto split: list.splits)

lemma join_split_char: "join_char d (split_char d s) = s"
proof (induction s)
  case (Cons c s)
  then show ?case
    by (cases "split_char d s"; cases "tl (split_char d s)") auto
qed simp

lemma split_char_pieces: "p \<in> set (split_char d s) \<Longrightarrow> d \<notin> set p"
  by (induction s arbitrary: p) (auto split: if_splits list.splits)

section \<open>The \<open>strconv\<close>, \<open>encoding/hex\<close> and \<open>net/url\<close> packages\<close>

definition digit_char :: "nat \<Rightarrow> char" where
  "digit_char n = ''0123456789'' ! n"

fun show_nat :: "nat \<Rightarrow> string" where
  "show_nat n = (if n < 10 then [digit_char n] else show_nat (n div 10) @ [digit_char (n mod 10)])"

declare show_nat.simps [simp del]

definition itoa :: "int \<Rightarrow> string" where
  "itoa i = (if i < 0 then CHR ''-'' # show_nat (nat (- i)) else show_nat (nat i))"

definition is_digit :: "char \<Rightarrow> bool" where
  "is_digit c \<longleftrightarrow> 48 \<le> ord c \<and> ord c \<le> 57"

definition digits_value :: "string \<Rightarrow> nat" where
  "digits_value ds = foldl (\<lambda>n c. n * 10 + (ord c - 48)) 0 ds"

text \<open>\<open>strconv.ParseInt(s, 10, 64)\<close>: \<open>None\<close> for a syntax or a range error.\<close>

definition parse_int64 :: "string \<Rightarrow> int64 option" where
  "parse_int64 s =
     (let neg = (s \<noteq> [] \<and> hd s = CHR ''-'');
          ds = (if s \<noteq> [] \<and> (hd s = CHR ''-'' \<or> hd s = CHR ''+'') then tl s else s);
          v = (if neg then - int (digits_value ds) else int (digits_value ds))
      in if ds = [] \<or> \<not> list_all is_digit ds then None
         else if v < - (2 ^ 63) \<or> 2 ^ 63 \<le> v then None
         else Some (word_of_int v))"

lemma ord_digit_char:
  assumes "n < 10"
  shows "ord (digit_char n) = 48 + n"
proof -
  have "list_all (\<lambda>n. ord (digit_char n) = 48 + n) [0..<10]"
    by (simp add: digit_char_def upt_rec)
  moreover have "n \<in> set [0..<10]"
    using assms by simp
  ultimately show ?thesis unfolding list_all_iff by blast
qed

lemma is_digit_digit_char: "n < 10 \<Longrightarrow> is_digit (digit_char n)"
  by (simp add: is_digit_def ord_digit_char)

lemma show_nat_digits: "list_all is_digit (show_nat n)"
  by (induction n rule: show_nat.induct)
    (subst show_nat.simps, simp add: is_digit_digit_char)

lemma show_nat_nonempty [simp]: "show_nat n \<noteq> []"
  by (subst show_nat.simps) simp

lemma digits_value_show_nat: "digits_value (show_nat n) = n"
proof (induction n rule: show_nat.induct)
  case (1 n)
  show ?case
  proof (cases "n < 10")
    case True
    then show ?thesis by (subst show_nat.simps) (simp add: digits_value_def ord_digit_char)
  next
    case False
    with 1 show ?thesis
      by (subst show_nat.simps) (simp add: digits_value_def ord_digit_char)
  qed
qed

lemma show_nat_ascii: "ascii (show_nat n)"
  using show_nat_digits [of n] by (auto simp: ascii_def list_all_iff is_digit_def)

lemma itoa_ascii: "ascii (itoa i)"
  by (simp add: itoa_def show_nat_ascii)

lemma hd_show_nat: "is_digit (hd (show_nat n))"
  using show_nat_digits [of n] by (cases "show_nat n") simp_all

lemma parse_int64_itoa:
  assumes "- (2 ^ 63) \<le> i" and "i < 2 ^ 63"
  shows "parse_int64 (itoa i) = Some (word_of_int i)"
proof -
  have "hd (show_nat n) \<noteq> CHR ''-''" "hd (show_nat n) \<noteq> CHR ''+''" for n
    using hd_show_nat [of n] by (auto simp: is_digit_def)
  then show ?thesis
    using assms
    by (auto simp: parse_int64_def itoa_def Let_def show_nat_digits digits_value_show_nat)
qed

lemma parse_int64_itoa_sint: "parse_int64 (itoa (sint (w :: int64))) = Some w"
  using parse_int64_itoa [of "sint w"] sint_range_size [of w] by (simp add: word_size)

definition hex_digit :: "nat \<Rightarrow> char" where
  "hex_digit n = ''0123456789abcdef'' ! n"

definition upper_hex_digit :: "nat \<Rightarrow> char" where
  "upper_hex_digit n = ''0123456789ABCDEF'' ! n"

definition hex_byte :: "char \<Rightarrow> string" where
  "hex_byte c = [hex_digit (ord c div 16), hex_digit (ord c mod 16)]"

text \<open>\<open>hex.EncodeToString\<close>.\<close>

definition hex_encode :: "string \<Rightarrow> string" where
  "hex_encode s = concat (map hex_byte s)"

lemma ord_hex_digit:
  assumes "n < 16"
  shows "ord (hex_digit n) = (if n < 10 then 48 + n else 87 + n)"
    and "ord (upper_hex_digit n) = (if n < 10 then 48 + n else 55 + n)"
proof -
  let ?ns = "[0..<16]"
  have "list_all (\<lambda>n. ord (hex_digit n) = (if n < 10 then 48 + n else 87 + n)) ?ns"
    "list_all (\<lambda>n. ord (upper_hex_digit n) = (if n < 10 then 48 + n else 55 + n)) ?ns"
    by (simp_all add: hex_digit_def upper_hex_digit_def upt_rec)
  moreover have "n \<in> set ?ns"
    using assms by simp
  ultimately show "ord (hex_digit n) = (if n < 10 then 48 + n else 87 + n)"
    "ord (upper_hex_digit n) = (if n < 10 then 48 + n else 55 + n)"
    unfolding list_all_iff by blast+
qed

lemma hex_digit_inj:
  assumes "m < 16" and "n < 16"
  shows "hex_digit m = hex_digit n \<longleftrightarrow> m = n"
proof
  assume "hex_digit m = hex_digit n"
  then have "ord (hex_digit m) = ord (hex_digit n)" by simp
  with assms show "m = n" by (simp add: ord_hex_digit split: if_splits)
qed simp

lemma hex_byte_inj: "hex_byte c = hex_byte d \<longleftrightarrow> c = d"
proof
  assume "hex_byte c = hex_byte d"
  then have "ord c div 16 = ord d div 16" "ord c mod 16 = ord d mod 16"
    by (simp_all add: hex_byte_def hex_digit_inj ord_less_256 less_mult_imp_div_less)
  then have "ord c = ord d" by (metis div_mult_mod_eq)
  then show "c = d" by simp
qed simp

lemma length_hex_encode: "length (hex_encode s) = 2 * length s"
  by (induction s) (simp_all add: hex_encode_def hex_byte_def)

lemma hex_encode_inj: "hex_encode s = hex_encode t \<Longrightarrow> s = t"
proof (induction s arbitrary: t)
  case Nil
  then have "length (hex_encode t) = 0" by (simp add: hex_encode_def)
  then show ?case by (simp add: length_hex_encode)
next
  case (Cons c s)
  then obtain d u where t: "t = d # u"
    using length_hex_encode [of "c # s"] length_hex_encode [of t] by (cases t) auto
  have "hex_byte c @ hex_encode s = hex_byte d @ hex_encode u"
    using Cons.prems by (simp add: t hex_encode_def)
  then have "hex_byte c = hex_byte d \<and> hex_encode s = hex_encode u"
    by (subst (asm) append_eq_append_conv) (simp_all add: hex_byte_def)
  with Cons.IH show ?case by (simp add: t hex_byte_inj)
qed

text \<open>\<open>strconv.Quote\<close>, the \<open>%q\<close> of \<open>fmt\<close>.\<close>

definition hex_fixed :: "nat \<Rightarrow> nat \<Rightarrow> string" where
  "hex_fixed k n = map (\<lambda>i. hex_digit (n div 16 ^ i mod 16)) (rev [0..<k])"

definition rune_prints :: "go_lib \<Rightarrow> nat \<Rightarrow> bool" where
  "rune_prints U r = (if r < 0x80 then 32 \<le> r \<and> r < 0x7F else uni_print U r)"

definition quote_rune :: "go_lib \<Rightarrow> nat \<Rightarrow> string" where
  "quote_rune U r =
     (if r = 34 \<or> r = 92 then [chr 92, chr r]
      else if rune_prints U r then encode_scalar r
      else if r = 7 then [chr 92, CHR ''a'']
      else if r = 8 then [chr 92, CHR ''b'']
      else if r = 12 then [chr 92, CHR ''f'']
      else if r = 10 then [chr 92, CHR ''n'']
      else if r = 13 then [chr 92, CHR ''r'']
      else if r = 9 then [chr 92, CHR ''t'']
      else if r = 11 then [chr 92, CHR ''v'']
      else if r < 32 \<or> r = 0x7F then [chr 92, CHR ''x''] @ hex_fixed 2 r
      else if r < 0x10000 then [chr 92, CHR ''u''] @ hex_fixed 4 r
      else [chr 92, CHR ''U''] @ hex_fixed 8 r)"

function quote_body :: "go_lib \<Rightarrow> string \<Rightarrow> string" where
  "quote_body U s =
     (if s = [] then []
      else (if valid_head s then quote_rune U (fst (decode_rune s))
            else [chr 92, CHR ''x''] @ hex_fixed 2 (ord (hd s)))
           @ quote_body U (drop (snd (decode_rune s)) s))"
  by pat_completeness auto
termination
  by (relation "measure (\<lambda>(U, s). length s)", rule wf_measure, unfold in_measure prod.case,
      rule decode_rune_shorter)

declare quote_body.simps [simp del]

definition go_quote :: "go_lib \<Rightarrow> string \<Rightarrow> string" where
  "go_quote U s = chr 34 # quote_body U s @ [chr 34]"

text \<open>\<open>url.QueryEscape\<close> and the decoding an HTTP server applies to a query component.\<close>

definition query_safe :: "char \<Rightarrow> bool" where
  "query_safe c \<longleftrightarrow>
     is_digit c \<or> 65 \<le> ord c \<and> ord c \<le> 90 \<or> 97 \<le> ord c \<and> ord c \<le> 122 \<or>
     c \<in> set ''-_.~''"

definition query_escape_char :: "char \<Rightarrow> string" where
  "query_escape_char c =
     (if query_safe c then [c]
      else if c = CHR '' '' then ''+''
      else [CHR ''%'', upper_hex_digit (ord c div 16), upper_hex_digit (ord c mod 16)])"

definition query_escape :: "string \<Rightarrow> string" where
  "query_escape s = concat (map query_escape_char s)"

definition unhex :: "char \<Rightarrow> nat option" where
  "unhex c =
     (if is_digit c then Some (ord c - 48)
      else if 97 \<le> ord c \<and> ord c \<le> 102 then Some (ord c - 87)
      else if 65 \<le> ord c \<and> ord c \<le> 70 then Some (ord c - 55)
      else None)"

fun query_unescape :: "string \<Rightarrow> string option" where
  "query_unescape [] = Some []"
| "query_unescape (c # s) =
     (if c = CHR ''%'' then
        (case s of
          a # b # t \<Rightarrow>
            (case (unhex a, unhex b) of
              (Some x, Some y) \<Rightarrow> map_option ((#) (chr (16 * x + y))) (query_unescape t)
            | _ \<Rightarrow> None)
        | _ \<Rightarrow> None)
      else map_option ((#) (if c = CHR ''+'' then CHR '' '' else c)) (query_unescape s))"

lemma unhex_upper_hex_digit: "n < 16 \<Longrightarrow> unhex (upper_hex_digit n) = Some n"
  by (auto simp: unhex_def ord_hex_digit(2) is_digit_def)

lemma query_unescape_escape_char:
  "query_unescape (query_escape_char c @ s) = map_option ((#) c) (query_unescape s)"
proof -
  have "ord c div 16 < 16" using ord_less_256 [of c] by (simp add: less_mult_imp_div_less)
  moreover have "16 * (ord c div 16) + ord c mod 16 = ord c" by simp
  moreover have "query_safe c \<Longrightarrow> c \<noteq> CHR ''%'' \<and> c \<noteq> CHR ''+''"
    by (auto simp: query_safe_def is_digit_def)
  ultimately show ?thesis
    by (auto simp: query_escape_char_def unhex_upper_hex_digit)
qed

lemma query_unescape_escape: "query_unescape (query_escape s) = Some s"
  by (induction s) (simp_all add: query_escape_def query_unescape_escape_char)

lemma query_escape_no_separator:
  "CHR ''&'' \<notin> set (query_escape s)" "CHR ''='' \<notin> set (query_escape s)"
proof -
  have "upper_hex_digit n \<noteq> CHR ''&'' \<and> upper_hex_digit n \<noteq> CHR ''=''" if "n < 16" for n
  proof -
    have "ord (upper_hex_digit n) = (if n < 10 then 48 + n else 55 + n)"
      by (rule ord_hex_digit(2) [OF that])
    then show ?thesis using that by (auto split: if_splits)
  qed
  moreover have "ord c div 16 < 16" for c
    using ord_less_256 [of c] by (simp add: less_mult_imp_div_less)
  ultimately have "CHR ''&'' \<notin> set (query_escape_char c) \<and> CHR ''='' \<notin> set (query_escape_char c)" for c
    by (auto simp: query_escape_char_def query_safe_def is_digit_def dest: sym)
  then show "CHR ''&'' \<notin> set (query_escape s)" "CHR ''='' \<notin> set (query_escape s)"
    by (auto simp: query_escape_def)
qed

end
