(* ===== verification/GoCrypto.thy ===== *)
theory GoCrypto
  imports GoStrings
begin

unbundle bit_operations_syntax

text \<open>
  The parts of \<open>crypto/sha256\<close>, \<open>crypto/hmac\<close> and \<open>crypto/subtle\<close> the webhook
  authentication uses, executable: SHA-256 after FIPS 180-4 on 32-bit words, HMAC after
  RFC 2104, and the constant-time comparison.
\<close>

type_synonym w32 = "32 word"

section \<open>SHA-256\<close>

text \<open>
  The standard does not choose its constants: they are the first 32 bits of the fractional
  parts of the square roots of the first 8 primes (the initial state) and of the cube roots
  of the first 64 primes (one per round). They are computed here from that definition:
  \<open>int_root k n b\<close> is the integer \<open>k\<close>-th root of \<open>n\<close>, found bit by bit from bit \<open>b - 1\<close>
  down, and scaling the prime by \<open>2 ^ (32 * k)\<close> keeps 32 bits after the point.
\<close>

definition primes_below :: "int \<Rightarrow> int list" where
  "primes_below n = filter (\<lambda>p. list_all (\<lambda>d. p mod d \<noteq> 0) [2..p - 1]) [2..n - 1]"

fun int_root :: "nat \<Rightarrow> int \<Rightarrow> nat \<Rightarrow> int \<Rightarrow> int" where
  "int_root k n 0 r = r"
| "int_root k n (Suc b) r = int_root k n b (if (r + 2 ^ b) ^ k \<le> n then r + 2 ^ b else r)"

definition root_fraction :: "nat \<Rightarrow> int \<Rightarrow> w32" where
  "root_fraction k p = of_int (int_root k (p * 2 ^ (32 * k)) 35 0)"

definition sha_init :: "w32 list" where
  "sha_init = map (root_fraction 2) (primes_below 20)"

definition sha_k :: "w32 list" where
  "sha_k = map (root_fraction 3) (primes_below 312)"

lemma length_sha_init: "length sha_init = 8"
  unfolding sha_init_def length_map by (simp add: primes_below_def upto_rec1)

text \<open>The search keeps the largest root below the bound: it is the integer root.\<close>

lemma int_root_below:
  "r ^ k \<le> n \<Longrightarrow> int_root k n b r ^ k \<le> n"
  by (induction k n b r rule: int_root.induct) auto

lemma int_root_above:
  "n < (r + 2 ^ b) ^ k \<Longrightarrow> n < (int_root k n b r + 1) ^ k"
proof (induction k n b r rule: int_root.induct)
  case (2 k n b r)
  have "r + 2 ^ Suc b = (r + 2 ^ b) + 2 ^ b" by simp
  with 2 show ?case by (cases "(r + 2 ^ b) ^ k \<le> n") (simp_all del: power_Suc)
qed simp

definition rotr :: "nat \<Rightarrow> w32 \<Rightarrow> w32" where
  "rotr n x = (drop_bit n x) OR (push_bit (32 - n) x)"

definition small_sigma0 :: "w32 \<Rightarrow> w32" where
  "small_sigma0 x = rotr 7 x XOR rotr 18 x XOR drop_bit 3 x"

definition small_sigma1 :: "w32 \<Rightarrow> w32" where
  "small_sigma1 x = rotr 17 x XOR rotr 19 x XOR drop_bit 10 x"

definition big_sigma0 :: "w32 \<Rightarrow> w32" where
  "big_sigma0 x = rotr 2 x XOR rotr 13 x XOR rotr 22 x"

definition big_sigma1 :: "w32 \<Rightarrow> w32" where
  "big_sigma1 x = rotr 6 x XOR rotr 11 x XOR rotr 25 x"

text \<open>Bytes and big-endian words.\<close>

definition be_word :: "char \<Rightarrow> char \<Rightarrow> char \<Rightarrow> char \<Rightarrow> w32" where
  "be_word a b c d = of_nat (((ord a * 256 + ord b) * 256 + ord c) * 256 + ord d)"

fun be_words :: "string \<Rightarrow> w32 list" where
  "be_words (a # b # c # d # s) = be_word a b c d # be_words s"
| "be_words _ = []"

definition be_bytes :: "nat \<Rightarrow> nat \<Rightarrow> string" where
  "be_bytes n v = map (\<lambda>i. chr (v div 256 ^ (n - 1 - i) mod 256)) [0..<n]"

text \<open>The message schedule: 48 further words.\<close>

fun schedule :: "nat \<Rightarrow> w32 list \<Rightarrow> w32 list" where
  "schedule 0 ws = ws"
| "schedule (Suc k) ws =
     (let n = length ws
      in schedule k (ws @ [small_sigma1 (ws ! (n - 2)) + ws ! (n - 7) +
                           small_sigma0 (ws ! (n - 15)) + ws ! (n - 16)]))"

fun sha_round :: "w32 \<times> w32 \<Rightarrow> w32 list \<Rightarrow> w32 list" where
  "sha_round (k, w) [a, b, c, d, e, f, g, h] =
     (let t1 = h + big_sigma1 e + ((e AND f) XOR (NOT e AND g)) + k + w;
          t2 = big_sigma0 a + ((a AND b) XOR (a AND c) XOR (b AND c))
      in [t1 + t2, a, b, c, d + t1, e, f, g])"
| "sha_round _ st = st"

definition sha_block :: "w32 list \<Rightarrow> w32 list \<Rightarrow> w32 list" where
  "sha_block st ws = map2 (+) st (fold sha_round (zip sha_k (schedule 48 ws)) st)"

fun sha_blocks :: "nat \<Rightarrow> w32 list \<Rightarrow> w32 list \<Rightarrow> w32 list" where
  "sha_blocks 0 st ws = st"
| "sha_blocks (Suc n) st ws = sha_blocks n (sha_block st (take 16 ws)) (drop 16 ws)"

definition sha_pad :: "string \<Rightarrow> string" where
  "sha_pad m =
     m @ chr 0x80 # replicate ((119 - length m mod 64) mod 64) (chr 0) @ be_bytes 8 (8 * length m)"

definition sha256 :: "string \<Rightarrow> string" where
  "sha256 m =
     (let p = sha_pad m
      in concat (map (\<lambda>w. be_bytes 4 (unat w)) (sha_blocks (length p div 64) sha_init (be_words p))))"

section \<open>HMAC\<close>

definition hmac_key :: "string \<Rightarrow> string" where
  "hmac_key key =
     (let k = (if 64 < length key then sha256 key else key)
      in k @ replicate (64 - length k) (chr 0))"

definition xor_byte :: "nat \<Rightarrow> char \<Rightarrow> char" where
  "xor_byte n c = chr (n XOR ord c)"

definition hmac_sha256 :: "string \<Rightarrow> string \<Rightarrow> string" where
  "hmac_sha256 key msg =
     sha256 (map (xor_byte 0x5c) (hmac_key key) @ sha256 (map (xor_byte 0x36) (hmac_key key) @ msg))"

lemma length_be_bytes [simp]: "length (be_bytes n v) = n"
  by (simp add: be_bytes_def)

lemma length_sha_round: "length (sha_round kw st) = length st"
  by (induction kw st rule: sha_round.induct) (simp_all add: Let_def)

lemma length_sha_block: "length (sha_block st ws) = length st"
proof -
  have "length (fold sha_round kws st) = length st" for kws st
    by (induction kws arbitrary: st) (simp_all add: length_sha_round)
  then show ?thesis by (simp add: sha_block_def)
qed

lemma length_sha_blocks: "length (sha_blocks n st ws) = length st"
  by (induction n st ws rule: sha_blocks.induct) (simp_all add: length_sha_block)

lemma length_sha256: "length (sha256 m) = 32"
  by (simp add: sha256_def Let_def length_concat comp_def length_sha_blocks sum_list_triv length_sha_init)

lemma length_hmac_sha256: "length (hmac_sha256 key msg) = 32"
  by (simp add: hmac_sha256_def length_sha256)

section \<open>Constant-time comparison\<close>

text \<open>\<open>subtle.ConstantTimeCompare\<close>: \<open>0\<close> at once for different lengths, otherwise the
  differences of all bytes are collected before the answer is formed.\<close>

definition ConstantTimeCompare :: "string \<Rightarrow> string \<Rightarrow> int" where
  "ConstantTimeCompare x y =
     (if length x \<noteq> length y then 0
      else if fold (\<lambda>(a, b) v. v OR (ord a XOR ord b)) (zip x y) 0 = 0 then 1 else 0)"

lemma or_eq_0_nat: "(a :: nat) OR b = 0 \<longleftrightarrow> a = 0 \<and> b = 0"
  by (rule or_eq_0_iff)

lemma xor_eq_0_nat: "(a :: nat) XOR b = 0 \<longleftrightarrow> a = b"
proof
  have "a = (a XOR b) XOR b" by (simp add: xor.assoc)
  also assume "a XOR b = 0"
  finally show "a = b" by simp
qed simp

lemma ConstantTimeCompare_iff: "ConstantTimeCompare x y = 1 \<longleftrightarrow> x = y"
proof -
  have z: "fold (\<lambda>(a, b) v. v OR (ord a XOR ord b)) ps (v :: nat) = 0 \<longleftrightarrow>
      v = 0 \<and> (\<forall>(a, b)\<in>set ps. a = b)" for ps v
    by (induction ps arbitrary: v) (auto simp: or_eq_0_nat xor_eq_0_nat)
  have "length x = length y \<Longrightarrow> (\<forall>(a, b)\<in>set (zip x y). a = b) \<longleftrightarrow> x = y"
    by (induction x y rule: list_induct2) auto
  then show ?thesis by (auto simp: ConstantTimeCompare_def z)
qed

lemma ConstantTimeCompare_01: "ConstantTimeCompare x y \<in> {0, 1}"
  by (simp add: ConstantTimeCompare_def)

end
