(* ===== verification/VcdErrors.thy ===== *)
theory VcdErrors
  imports GoStrings
begin

text \<open>
  \<open>internal/clients/vcd/errors.go\<close>: the error a VCD call returns for a non-2xx answer,
  the summary of the response body its message carries, and its classification. The
  byte slices of \<open>extractTag\<close> are taken in the original text at offsets found in its
  lower-case copy; a slice out of range is the panic the Go runtime raises.
\<close>

record api_error =
  ae_status :: int
  ae_body :: string
  ae_method :: string
  ae_path :: string

definition maxBodyLen :: nat where
  "maxBodyLen = 200"

definition slice_from :: "string \<Rightarrow> nat \<Rightarrow> string go_result" where
  "slice_from s i =
     (if i \<le> length s then Returns (drop i s)
      else Panics (''runtime error: slice bounds out of range ['' @ itoa (int i) @ '':'' @
                   itoa (int (length s)) @ '']''))"

definition slice_len :: "string \<Rightarrow> nat \<Rightarrow> nat \<Rightarrow> string go_result" where
  "slice_len s i n =
     (if i + n \<le> length s then Returns (take n (drop i s))
      else Panics (''runtime error: slice bounds out of range [:'' @ itoa (int (i + n)) @
                   ''] with length '' @ itoa (int (length s))))"

definition extractTag :: "go_lib \<Rightarrow> string \<Rightarrow> string \<Rightarrow> string go_result" where
  "extractTag U html tag =
     (let open_tag = ''<'' @ tag @ ''>'';
          close_tag = ''</'' @ tag @ ''>''
      in case index_of (to_lower U html) (to_lower U open_tag) of
           None \<Rightarrow> Returns []
         | Some i \<Rightarrow>
             (let start = i + length open_tag
              in case slice_from html start of
                   Panics m \<Rightarrow> Panics m
                 | Returns rest \<Rightarrow>
                     (case index_of (to_lower U rest) (to_lower U close_tag) of
                        None \<Rightarrow> Returns []
                      | Some j \<Rightarrow>
                          (case slice_len html start j of
                             Panics m \<Rightarrow> Panics m
                           | Returns t \<Rightarrow> Returns (trim_space t)))))"

definition summarizeBody :: "go_lib \<Rightarrow> string \<Rightarrow> string go_result" where
  "summarizeBody U body =
     (if str_contains body ''<html'' \<or> str_contains body ''<HTML'' then
        (case extractTag U body ''title'' of
           Panics m \<Rightarrow> Panics m
         | Returns t \<Rightarrow>
             if t \<noteq> [] then Returns t
             else (case extractTag U body ''h3'' of
                     Panics m \<Rightarrow> Panics m
                   | Returns t' \<Rightarrow> if t' \<noteq> [] then Returns t' else Returns ''(HTML error page)''))
      else if maxBodyLen < length body then Returns (take maxBodyLen body @ ''...'')
      else Returns body)"

text \<open>\<open>(*APIError).Error\<close>, \<open>IsRetryable\<close> and \<open>IsNotFound\<close>.\<close>

definition api_error_text :: "go_lib \<Rightarrow> api_error \<Rightarrow> string go_result" where
  "api_error_text U e =
     (case summarizeBody U (ae_body e) of
        Panics m \<Rightarrow> Panics m
      | Returns b \<Rightarrow> Returns (''vcd: '' @ ae_method e @ '' '' @ ae_path e @ '' returned '' @
                            itoa (ae_status e) @ '': '' @ b))"

definition api_retryable :: "api_error \<Rightarrow> bool" where
  "api_retryable e \<longleftrightarrow> ae_status e \<in> {429, 502, 503, 504}"

definition api_not_found :: "api_error \<Rightarrow> bool" where
  "api_not_found e \<longleftrightarrow> ae_status e = 404"

section \<open>ASCII bodies\<close>

lemma lower_char_idem_tag [simp]:
  "map lower_char ''<title>'' = ''<title>''" "map lower_char ''</title>'' = ''</title>''"
  "map lower_char ''<h3>'' = ''<h3>''" "map lower_char ''</h3>'' = ''</h3>''"
  by (simp_all add: lower_char_def)

lemma slice_from_Returns: "i \<le> length s \<Longrightarrow> slice_from s i = Returns (drop i s)"
  by (simp add: slice_from_def)

lemma slice_len_Returns: "i + n \<le> length s \<Longrightarrow> slice_len s i n = Returns (take n (drop i s))"
  by (simp add: slice_len_def)

text \<open>
  On an ASCII body the offsets agree, so \<open>extractTag\<close> returns the trimmed text between
  the first opening tag and the first closing tag after it, in any letter case.
\<close>

lemma extractTag_ascii:
  assumes html: "ascii html" and tag: "ascii tag"
  shows "extractTag U html tag =
    (case index_of (map lower_char html) (map lower_char (''<'' @ tag @ ''>'')) of
       None \<Rightarrow> Returns []
     | Some i \<Rightarrow>
         (case index_of (map lower_char (drop (i + length tag + 2) html))
                 (map lower_char (''</'' @ tag @ ''>'')) of
            None \<Rightarrow> Returns []
          | Some j \<Rightarrow> Returns (trim_space (take j (drop (i + length tag + 2) html)))))"
proof -
  have drop_ascii: "ascii (drop n html)" for n
    using html by (auto simp: ascii_def dest: in_set_dropD)
  have lower: "to_lower U (''<'' @ tag @ ''>'') = map lower_char (''<'' @ tag @ ''>'')"
    by (rule to_lower_ascii) (use tag in simp)
  have lower': "to_lower U (''</'' @ tag @ ''>'') = map lower_char (''</'' @ tag @ ''>'')"
    by (rule to_lower_ascii) (use tag in simp)
  note lower = lower lower'
  show ?thesis
  proof (cases "index_of (map lower_char html) (map lower_char (''<'' @ tag @ ''>''))")
    case None
    then show ?thesis
      using html by (simp add: extractTag_def Let_def to_lower_ascii lower [simplified])
  next
    case (Some i)
    then have i: "i + length tag + 2 \<le> length html"
      using index_of_Some [OF Some] by simp
    show ?thesis
    proof (cases "index_of (map lower_char (drop (i + length tag + 2) html))
        (map lower_char (''</'' @ tag @ ''>''))")
      case None
      with Some i html drop_ascii show ?thesis
        by (simp add: extractTag_def Let_def to_lower_ascii lower [simplified] slice_from_Returns)
    next
      case j: (Some j)
      then have "i + length tag + 2 + j \<le> length html"
        using index_of_Some [OF j, THEN conjunct1] i by simp
      with Some i j html drop_ascii show ?thesis
        by (simp add: extractTag_def Let_def to_lower_ascii lower [simplified]
            slice_from_Returns slice_len_Returns)
    qed
  qed
qed

lemma extractTag_ascii_returns:
  "ascii html \<Longrightarrow> ascii tag \<Longrightarrow> \<exists>t. extractTag U html tag = Returns t"
  by (auto simp: extractTag_ascii split: option.splits)

lemma summarizeBody_ascii_returns:
  assumes "ascii body"
  shows "\<exists>t. summarizeBody U body = Returns t"
proof -
  have "ascii ''title''" "ascii ''h3''" by simp_all
  then obtain t t' where "extractTag U body ''title'' = Returns t" "extractTag U body ''h3'' = Returns t'"
    using extractTag_ascii_returns assms by blast
  then show ?thesis by (simp add: summarizeBody_def)
qed

lemma api_error_text_ascii_returns:
  "ascii (ae_body e) \<Longrightarrow> \<exists>t. api_error_text U e = Returns t"
  using summarizeBody_ascii_returns [of "ae_body e" U] by (auto simp: api_error_text_def)

section \<open>Trimming\<close>

definition space_char :: "char \<Rightarrow> bool" where
  "space_char c \<longleftrightarrow> 9 \<le> ord c \<and> ord c \<le> 13 \<or> ord c = 32"

lemma drop_any_none: "(\<And>p. p \<in> set ps \<Longrightarrow> \<not> has_prefix p s) \<Longrightarrow> drop_any ps s = s"
  by (simp add: drop_any_def find_None_iff [THEN iffD2] split: option.split)

lemma trim_left_none: "(\<And>p. p \<in> set ps \<Longrightarrow> \<not> has_prefix p s) \<Longrightarrow> trim_left ps s = s"
  by (subst trim_left.simps) (simp add: drop_any_none)

lemma space_prefix_head:
  "p \<in> set (map encode_scalar space_runes) \<union> set (map rev (map encode_scalar space_runes)) \<Longrightarrow>
    p \<noteq> [] \<and> (0x80 \<le> ord (hd p) \<or> space_char (hd p))"
proof -
  let ?P = "\<lambda>p. p \<noteq> [] \<and> (0x80 \<le> ord (hd p) \<or> space_char (hd p))"
  have "list_all ?P (map encode_scalar space_runes)"
    by (simp add: space_runes_def encode_scalar_def space_char_def)
  moreover have "list_all ?P (map rev (map encode_scalar space_runes))"
    by (simp add: space_runes_def encode_scalar_def space_char_def)
  ultimately show "p \<in> set (map encode_scalar space_runes) \<union> set (map rev (map encode_scalar space_runes)) \<Longrightarrow> ?P p"
    by (auto simp: list_all_iff)
qed

lemma no_space_prefix:
  assumes "ord c < 0x80" "\<not> space_char c"
    and "p \<in> set (map encode_scalar space_runes) \<union> set (map rev (map encode_scalar space_runes))"
  shows "\<not> has_prefix p (c # s)"
  using space_prefix_head [OF assms(3)] assms(1,2) by (cases p) auto

lemma trim_space_id:
  assumes "s \<noteq> []" "ord (hd s) < 0x80" "\<not> space_char (hd s)" "ord (last s) < 0x80" "\<not> space_char (last s)"
  shows "trim_space s = s"
proof -
  have "trim_left (map encode_scalar space_runes) (hd s # tl s) = hd s # tl s"
    using assms no_space_prefix by (intro trim_left_none) blast
  moreover have "trim_left (map rev (map encode_scalar space_runes)) (rev s) = rev s"
  proof -
    have "rev s = last s # rev (butlast s)"
      using assms(1) by (cases s rule: rev_cases) simp_all
    moreover have "trim_left (map rev (map encode_scalar space_runes)) (last s # rev (butlast s))
        = last s # rev (butlast s)"
      using assms no_space_prefix by (intro trim_left_none) blast
    ultimately show ?thesis by (simp only:)
  qed
  ultimately show ?thesis using assms(1) by (simp add: trim_space_def)
qed

section \<open>Bodies that are not UTF-8\<close>

text \<open>
  Each byte that is no UTF-8 is three bytes of U+FFFD in the lower-case copy, so what
  follows \<open>n\<close> of them is found \<open>2 * n\<close> bytes too far to the right.
\<close>

lemma decode_rune_bad: "s = [] \<or> ord (hd s) < 0x80 \<or> hd s = chr 0xE9 \<Longrightarrow>
    decode_rune (chr 0xE9 # s) = (rune_error, 1)"
  by (cases s) (auto simp: second_ok_def)

lemma to_lower_bad_bytes:
  assumes "uni_lower U rune_error = rune_error" "s \<noteq> []" "ord (hd s) < 0x80"
  shows "to_lower U (replicate n (chr 0xE9) @ s) =
    concat (replicate n (encode_scalar rune_error)) @ to_lower U s"
proof (induction n)
  case (Suc n)
  have "replicate n (chr 0xE9) @ s = [] \<or> ord (hd (replicate n (chr 0xE9) @ s)) < 0x80 \<or>
      hd (replicate n (chr 0xE9) @ s) = chr 0xE9"
    using assms by (cases n) auto
  note d = decode_rune_bad [OF this]
  have "map_runes f (chr 0xE9 # replicate n (chr 0xE9) @ s) =
      encode_rune (f rune_error) @ map_runes f (replicate n (chr 0xE9) @ s)" for f
    by (subst map_runes.simps) (simp add: d del: decode_rune.simps)
  with Suc assms(1) show ?case
    by (simp add: to_lower_def lower_rune_def encode_rune_def scalar_def rune_error_def)
qed (simp add: to_lower_def)

lemma index_of_skip: "p \<noteq> [] \<Longrightarrow> c \<noteq> hd p \<Longrightarrow> index_of (c # s) p = map_option Suc (index_of s p)"
  by (cases p) auto

lemma index_of_skip_bad:
  "index_of (concat (replicate n (encode_scalar rune_error)) @ s) (CHR ''<'' # p) =
    map_option ((+) (3 * n)) (index_of s (CHR ''<'' # p))"
proof (induction n)
  case (Suc n)
  have e: "encode_scalar rune_error = [chr 0xEF, chr 0xBF, chr 0xBD]"
    by (simp add: encode_scalar_def rune_error_def)
  have "chr 0xEF \<noteq> CHR ''<''" "chr 0xBF \<noteq> CHR ''<''" "chr 0xBD \<noteq> CHR ''<''"
    by (simp_all flip: of_char_eq_iff [where ?'a = nat])
  with Suc show ?case
    by (simp add: e option.map_comp) (auto simp: map_option_case split: option.splits)
qed (simp add: option.map_ident)

definition bad_title_page :: "nat \<Rightarrow> string \<Rightarrow> string" where
  "bad_title_page n t = ''<html>'' @ replicate n (chr 0xE9) @ ''<title>'' @ t @ ''</title>''"

lemma index_of_bad_title_page:
  assumes "uni_lower U rune_error = rune_error" "ascii t"
  shows "index_of (to_lower U (bad_title_page n t)) (to_lower U ''<title>'') = Some (6 + 3 * n)"
proof -
  let ?s = "''<title>'' @ t @ ''</title>''"
  have l: "to_lower U ''<title>'' = ''<title>''"
    by (simp add: to_lower_ascii lower_char_def)
  have "ascii ?s" using assms(2) by simp
  then have "to_lower U ?s = ''<title>'' @ map lower_char (t @ ''</title>'')"
    by (simp only: to_lower_ascii map_append lower_char_idem_tag)
  then have i: "index_of (to_lower U ?s) ''<title>'' = Some 0" by simp
  have "to_lower U (bad_title_page n t) = ''<html>'' @ to_lower U (replicate n (chr 0xE9) @ ?s)"
    by (simp add: bad_title_page_def to_lower_def map_runes_ascii lower_rune_def encode_rune_ascii chr_eval)
  also have "\<dots> = ''<html>'' @ concat (replicate n (encode_scalar rune_error)) @ to_lower U ?s"
    by (subst to_lower_bad_bytes [OF assms(1)]) simp_all
  finally show ?thesis
    using i by (simp add: l index_of_skip_bad)
qed

lemma bad_title_page_html: "str_contains (bad_title_page n t) ''<html''"
  by (simp add: str_contains_def bad_title_page_def)

section \<open>Properties\<close>

text \<open>C39: the message of an API error panics on an HTML body that is not UTF-8. When the
  bytes before the title that are no UTF-8 (an error page in Latin-1, say) are numerous
  enough against the length of the title, the offset \<open>extractTag\<close> found in the lower-case
  copy lies beyond the end of the page, and \<open>Error()\<close> ends in the runtime's slice error
  instead of returning a message. The only fact used of the Unicode tables is that U+FFFD
  has no lower-case form.\<close>

theorem api_error_text_panics_on_latin1:
  assumes fffd: "uni_lower U rune_error = rune_error" and t: "ascii t" and n: "length t + 8 < 2 * n"
    and body: "ae_body e = bad_title_page n t"
  shows "api_error_text U e =
    Panics (''runtime error: slice bounds out of range ['' @ itoa (13 + 3 * int n) @ '':'' @
            itoa (21 + int n + int (length t)) @ '']'')"
proof -
  have len: "length (bad_title_page n t) = 21 + n + length t"
    by (simp add: bad_title_page_def)
  have "\<not> 13 + 3 * n \<le> length (bad_title_page n t)"
    using n unfolding len by arith
  then have "slice_from (bad_title_page n t) (6 + 3 * n + 7) =
      Panics (''runtime error: slice bounds out of range ['' @ itoa (13 + 3 * int n) @ '':'' @
            itoa (21 + int n + int (length t)) @ '']'')"
    by (simp add: slice_from_def len add.assoc)
  then show ?thesis
    using index_of_bad_title_page [OF fffd t, of n]
    by (simp add: api_error_text_def body summarizeBody_def bad_title_page_html extractTag_def)
qed

lemma api_error_text_panics_on_latin1_witness:
  "api_error_text ascii_tables \<lparr>ae_status = 502, ae_body = bad_title_page 5 ''x'',
      ae_method = ''GET'', ae_path = ''/p''\<rparr> =
    Panics ''runtime error: slice bounds out of range [28:27]''"
  using api_error_text_panics_on_latin1 [of ascii_tables "''x''" 5
    "\<lparr>ae_status = 502, ae_body = bad_title_page 5 ''x'', ae_method = ''GET'', ae_path = ''/p''\<rparr>"]
  by (simp add: ascii_tables_def itoa_def show_nat.simps digit_char_def)

text \<open>What \<open>extractTag\<close> finds on an ASCII page, where the Unicode tables play no role.\<close>

definition tag_text :: "string \<Rightarrow> string \<Rightarrow> string" where
  "tag_text body tag = (case extractTag ascii_tables body tag of Returns t \<Rightarrow> t | Panics _ \<Rightarrow> [])"

text \<open>\<open>summarizeBody\<close> on every body that is ASCII: it returns (no slice is out of
  range), and what it returns is the body itself when that is short, its first 200 bytes
  and an ellipsis when it is long, and for an HTML page the trimmed title, else the
  trimmed first heading, else a fixed text, each as found by the reference reading of
  \<open>extractTag\<close> (first opening tag in any letter case, first closing tag after it).\<close>

theorem summarizeBody_ascii:
  assumes "ascii body"
  shows "summarizeBody U body = Returns
    (if \<not> str_contains body ''<html'' \<and> \<not> str_contains body ''<HTML'' then
       (if length body \<le> 200 then body else take 200 body @ ''...'')
     else if tag_text body ''title'' \<noteq> [] then tag_text body ''title''
     else if tag_text body ''h3'' \<noteq> [] then tag_text body ''h3''
     else ''(HTML error page)'')"
proof -
  have "ascii ''title''" "ascii ''h3''" by simp_all
  then have same: "extractTag U body ''title'' = extractTag ascii_tables body ''title''"
    "extractTag U body ''h3'' = extractTag ascii_tables body ''h3''"
    using assms(1) by (simp_all only: extractTag_ascii)
  obtain t t' where "extractTag ascii_tables body ''title'' = Returns t"
    "extractTag ascii_tables body ''h3'' = Returns t'"
    using extractTag_ascii_returns [OF assms(1)] \<open>ascii ''title''\<close> \<open>ascii ''h3''\<close> by blast
  then show ?thesis
    by (simp add: summarizeBody_def same tag_text_def maxBodyLen_def not_less)
qed

lemma summarizeBody_ascii_witness:
  "ascii ''<html><H3>Bad Gateway</h3>'' \<and>
   summarizeBody ascii_tables ''<html><H3>Bad Gateway</h3>'' = Returns ''Bad Gateway''"
proof -
  have a: "ascii ''<html><H3>Bad Gateway</h3>''" by simp
  have t: "tag_text ''<html><H3>Bad Gateway</h3>'' ''title'' = []"
    by (simp add: tag_text_def extractTag_ascii lower_char_def)
  have h: "tag_text ''<html><H3>Bad Gateway</h3>'' ''h3'' = ''Bad Gateway''"
    by (simp add: tag_text_def extractTag_ascii lower_char_def trim_space_id space_char_def) (simp add: chr_eval)
  show ?thesis
    using summarizeBody_ascii [OF a, of ascii_tables] a by (simp add: t h str_contains_def)
qed

text \<open>The limit of 200 characters does not apply to HTML pages: a title of any length
  is copied whole into the message.\<close>

theorem summarizeBody_title_unbounded:
  "summarizeBody U (''<html><title>'' @ replicate (Suc n) CHR ''a'' @ ''</title>'') =
    Returns (replicate (Suc n) CHR ''a'')"
proof -
  let ?a = "replicate (Suc n) CHR ''a''"
  let ?body = "''<html><title>'' @ ?a @ ''</title>''"
  have asc: "ascii ?a" by (simp add: ascii_def)
  have low: "map lower_char ?a = ?a" by (simp add: lower_char_def)
  have skip: "index_of (replicate m CHR ''a'' @ s) (CHR ''<'' # p) = map_option ((+) m) (index_of s (CHR ''<'' # p))" for m s p
    by (induction m) (auto simp: option.map_ident option.map_comp o_def map_option_case split: option.splits)
  have i: "index_of (map lower_char ?body) (map lower_char (''<'' @ ''title'' @ ''>'')) = Some 6"
    by (simp add: lower_char_def)
  have d: "drop (6 + length ''title'' + 2) ?body = ?a @ ''</title>''"
    by simp
  have "map lower_char (?a @ ''</title>'') = ?a @ ''</title>''"
    by (simp only: map_append low lower_char_idem_tag)
  then have j: "index_of (map lower_char (?a @ ''</title>'')) (map lower_char (''</'' @ ''title'' @ ''>'')) = Some (Suc n)"
    using skip [of "Suc n" "''</title>''" "''/title>''"] by (simp add: lower_char_def)
  have "trim_space ?a = ?a"
    by (rule trim_space_id) (simp_all add: space_char_def)
  then have "extractTag U ?body ''title'' = Returns ?a"
    using asc by (subst extractTag_ascii) (simp_all only: ascii_append i d j option.case, simp_all)
  moreover have "str_contains ?body ''<html''" by (simp add: str_contains_def)
  ultimately show ?thesis by (simp add: summarizeBody_def)
qed

end
