(* ===== verification/GoErrors.thy ===== *)
theory GoErrors
  imports VcdErrors
begin

text \<open>
  Error values: the trees \<open>errors.Is\<close> and \<open>errors.As\<close> walk, with one constructor for
  each kind of error the program makes. \<open>fmt.Errorf\<close> with \<open>%w\<close> computes its text when it
  is called and keeps the wrapped errors; \<open>*PermanentError\<close> (\<open>workflow/step.go\<close>) and
  \<open>*APIError\<close> (\<open>clients/vcd/errors.go\<close>) compute their text when \<open>Error()\<close> is called.
  The classifications built on them are here too: \<open>IsPermanent\<close>, \<open>IsRetryable\<close> and
  \<open>IsNotFound\<close>.
\<close>

text \<open>
  Sentinels are compared by identity: \<open>workflow.ErrNotFound\<close>, \<open>pgx.ErrNoRows\<close> and the two
  errors of \<open>context\<close>. \<open>ErrForeign\<close> is a typed error of a package that is not part of
  the program (River's \<open>JobCancelError\<close>, for one): its type, its text, what it wraps.
\<close>

datatype sentinel = NotFound | NoRows | Canceled | DeadlineExceeded

datatype go_error =
    ErrNew string
  | ErrSentinel sentinel
  | ErrForeign string string "go_error list"
  | ErrWrap string "go_error list"
  | ErrPermanent "go_error option"
  | ErrAPI api_error

fun sentinel_text :: "sentinel \<Rightarrow> string" where
  "sentinel_text NotFound = ''workflow state not found''"
| "sentinel_text NoRows = ''no rows in result set''"
| "sentinel_text Canceled = ''context canceled''"
| "sentinel_text DeadlineExceeded = ''context deadline exceeded''"

text \<open>\<open>Error()\<close>: a \<open>PermanentError\<close> without a cause dereferences nil.\<close>

fun err_text :: "go_lib \<Rightarrow> go_error \<Rightarrow> string go_result" where
  "err_text U (ErrNew t) = Returns t"
| "err_text U (ErrSentinel s) = Returns (sentinel_text s)"
| "err_text U (ErrForeign _ t _) = Returns t"
| "err_text U (ErrWrap t _) = Returns t"
| "err_text U (ErrPermanent None) =
     Panics ''runtime error: invalid memory address or nil pointer dereference''"
| "err_text U (ErrPermanent (Some e)) =
     (case err_text U e of Panics m \<Rightarrow> Panics m | Returns t \<Rightarrow> Returns (''permanent: '' @ t))"
| "err_text U (ErrAPI a) = api_error_text U a"

text \<open>The text \<open>fmt\<close> prints for an error operand; it recovers from a panic of \<open>Error()\<close>.\<close>

definition fmt_error :: "go_lib \<Rightarrow> go_error \<Rightarrow> string" where
  "fmt_error U e =
     (case err_text U e of
        Returns t \<Rightarrow> t
      | Panics m \<Rightarrow> ''%!v(PANIC=Error method: '' @ m @ '')'')"

text \<open>\<open>fmt.Errorf("pre%w", e)\<close>.\<close>

definition errorf_w :: "go_lib \<Rightarrow> string \<Rightarrow> go_error \<Rightarrow> go_error" where
  "errorf_w U pre e = ErrWrap (pre @ fmt_error U e) [e]"

text \<open>\<open>errors.Is\<close> against a sentinel, \<open>errors.As\<close> against the two error types of the
  program and against a foreign type: the first match in depth-first order.\<close>

fun errors_is :: "sentinel \<Rightarrow> go_error \<Rightarrow> bool" where
  "errors_is t (ErrNew _) = False"
| "errors_is t (ErrSentinel s) = (s = t)"
| "errors_is t (ErrForeign _ _ es) = list_ex (errors_is t) es"
| "errors_is t (ErrWrap _ es) = list_ex (errors_is t) es"
| "errors_is t (ErrPermanent c) = (case c of None \<Rightarrow> False | Some e \<Rightarrow> errors_is t e)"
| "errors_is t (ErrAPI _) = False"

fun has_permanent :: "go_error \<Rightarrow> bool" where
  "has_permanent (ErrNew _) = False"
| "has_permanent (ErrSentinel _) = False"
| "has_permanent (ErrForeign _ _ es) = list_ex has_permanent es"
| "has_permanent (ErrWrap _ es) = list_ex has_permanent es"
| "has_permanent (ErrPermanent _) = True"
| "has_permanent (ErrAPI _) = False"

fun has_foreign :: "string \<Rightarrow> go_error \<Rightarrow> bool" where
  "has_foreign ty (ErrNew _) = False"
| "has_foreign ty (ErrSentinel _) = False"
| "has_foreign ty (ErrForeign ty' _ es) = (ty' = ty \<or> list_ex (has_foreign ty) es)"
| "has_foreign ty (ErrWrap _ es) = list_ex (has_foreign ty) es"
| "has_foreign ty (ErrPermanent c) = (case c of None \<Rightarrow> False | Some e \<Rightarrow> has_foreign ty e)"
| "has_foreign ty (ErrAPI _) = False"

text \<open>The first success of a list of optional results.\<close>

fun first_some :: "'a option list \<Rightarrow> 'a option" where
  "first_some [] = None"
| "first_some (None # xs) = first_some xs"
| "first_some (Some x # xs) = Some x"

fun as_api :: "go_error \<Rightarrow> api_error option" where
  "as_api (ErrNew _) = None"
| "as_api (ErrSentinel _) = None"
| "as_api (ErrForeign _ _ es) = first_some (map as_api es)"
| "as_api (ErrWrap _ es) = first_some (map as_api es)"
| "as_api (ErrPermanent c) = (case c of None \<Rightarrow> None | Some e \<Rightarrow> as_api e)"
| "as_api (ErrAPI a) = Some a"

text \<open>\<open>workflow.IsPermanent\<close>; the error may be nil.\<close>

definition IsPermanent :: "go_error option \<Rightarrow> bool" where
  "IsPermanent err = (case err of None \<Rightarrow> False | Some e \<Rightarrow> has_permanent e)"

text \<open>\<open>vcd.IsRetryable\<close> and \<open>vcd.IsNotFound\<close>.\<close>

definition vcd_IsRetryable :: "go_error option \<Rightarrow> bool" where
  "vcd_IsRetryable err =
     (case Option.bind err as_api of Some a \<Rightarrow> api_retryable a | None \<Rightarrow> True)"

definition vcd_IsNotFound :: "go_error option \<Rightarrow> bool" where
  "vcd_IsNotFound err =
     (case Option.bind err as_api of Some a \<Rightarrow> api_not_found a | None \<Rightarrow> False)"

section \<open>Wrapping\<close>

lemma first_some_None: "first_some xs = None \<longleftrightarrow> (\<forall>x\<in>set xs. x = None)"
  by (induction xs rule: first_some.induct) auto

lemma err_text_errorf [err_simps]: "err_text U (errorf_w U' pre e) = Returns (pre @ fmt_error U' e)"
  by (simp add: errorf_w_def)

lemma errors_is_errorf [err_simps]: "errors_is t (errorf_w U pre e) = errors_is t e"
  by (simp add: errorf_w_def)

lemma has_permanent_errorf [err_simps]: "has_permanent (errorf_w U pre e) = has_permanent e"
  by (simp add: errorf_w_def)

lemma has_foreign_errorf [err_simps]: "has_foreign ty (errorf_w U pre e) = has_foreign ty e"
  by (simp add: errorf_w_def)

lemma as_api_errorf [err_simps]: "as_api (errorf_w U pre e) = as_api e"
  by (cases "as_api e") (simp_all add: errorf_w_def)

lemma err_text_returns_fmt: "err_text U e = Returns t \<Longrightarrow> fmt_error U e = t"
  by (simp add: fmt_error_def)

text \<open>
  A transparent context is one that wraps an error without hiding it from \<open>errors.Is\<close> and
  \<open>errors.As\<close>; \<open>fmt.Errorf\<close> with \<open>%w\<close> is one, and so is any chain of them.
\<close>

locale transparent_wrapper =
  fixes wrap :: "go_error \<Rightarrow> go_error"
  assumes is_wrap: "errors_is t (wrap e) = errors_is t e"
    and permanent_wrap: "has_permanent (wrap e) = has_permanent e"
    and api_wrap: "as_api (wrap e) = as_api e"
begin

lemma is_wraps: "errors_is t ((wrap ^^ n) e) = errors_is t e"
  by (induction n) (simp_all add: is_wrap)

lemma permanent_wraps: "has_permanent ((wrap ^^ n) e) = has_permanent e"
  by (induction n) (simp_all add: permanent_wrap)

lemma api_wraps: "as_api ((wrap ^^ n) e) = as_api e"
  by (induction n) (simp_all add: api_wrap)

lemma classification_wraps:
  "IsPermanent (Some ((wrap ^^ n) e)) = IsPermanent (Some e)"
  "vcd_IsRetryable (Some ((wrap ^^ n) e)) = vcd_IsRetryable (Some e)"
  "vcd_IsNotFound (Some ((wrap ^^ n) e)) = vcd_IsNotFound (Some e)"
  by (simp_all add: IsPermanent_def vcd_IsRetryable_def vcd_IsNotFound_def
      permanent_wraps api_wraps)

end

interpretation errorf: transparent_wrapper "errorf_w U pre" for U pre
  by unfold_locales (simp_all add: err_simps)

section \<open>The tree of an error\<close>

text \<open>
  The reference: the errors of a tree in the order \<open>errors.As\<close> documents, the error itself and
  then, for each error it wraps, the tree of that one. An error of VCD and a sentinel wrap nothing.
\<close>

fun preorder :: "go_error \<Rightarrow> go_error list" where
  "preorder (ErrNew t) = [ErrNew t]"
| "preorder (ErrSentinel s) = [ErrSentinel s]"
| "preorder (ErrForeign ty t es) = ErrForeign ty t es # concat (map preorder es)"
| "preorder (ErrWrap t es) = ErrWrap t es # concat (map preorder es)"
| "preorder (ErrPermanent c) = ErrPermanent c # (case c of None \<Rightarrow> [] | Some e \<Rightarrow> preorder e)"
| "preorder (ErrAPI a) = [ErrAPI a]"

fun api_statuses :: "go_error list \<Rightarrow> int list" where
  "api_statuses [] = []"
| "api_statuses (ErrAPI a # es) = ae_status a # api_statuses es"
| "api_statuses (_ # es) = api_statuses es"

lemma api_statuses_append: "api_statuses (xs @ ys) = api_statuses xs @ api_statuses ys"
  by (induction xs rule: api_statuses.induct) simp_all

text \<open>The statuses of the errors of VCD in a tree, in that order.\<close>

definition vcd_statuses :: "go_error \<Rightarrow> int list" where
  "vcd_statuses e = api_statuses (preorder e)"

definition first_status :: "int list \<Rightarrow> int option" where
  "first_status xs = (case xs of [] \<Rightarrow> None | x # _ \<Rightarrow> Some x)"

lemma first_status_append:
  "first_status (xs @ ys) = (case first_status xs of None \<Rightarrow> first_status ys | Some x \<Rightarrow> Some x)"
  by (simp add: first_status_def split: list.splits)

lemma first_status_children:
  assumes "\<And>e. e \<in> set es \<Longrightarrow> first_status (api_statuses (preorder e)) = map_option ae_status (as_api e)"
  shows "first_status (api_statuses (concat (map preorder es))) = map_option ae_status (first_some (map as_api es))"
  using assms
proof (induction es)
  case (Cons e es)
  then show ?case by (cases "as_api e") (simp_all add: api_statuses_append first_status_append)
qed (simp add: first_status_def)

text \<open>The recursion of \<open>errors.As\<close> finds the first match of the tree.\<close>

lemma as_api_preorder: "map_option ae_status (as_api e) = first_status (vcd_statuses e)"
proof -
  have "first_status (api_statuses (preorder e)) = map_option ae_status (as_api e)"
  proof (induction e rule: as_api.induct)
    case (3 ty t es)
    then show ?case using first_status_children [of es] by simp
  next
    case (4 t es)
    then show ?case using first_status_children [of es] by simp
  qed (auto simp: first_status_def split: option.splits)
  then show ?thesis by (simp add: vcd_statuses_def)
qed

lemma has_permanent_preorder: "has_permanent e \<longleftrightarrow> (\<exists>c. ErrPermanent c \<in> set (preorder e))"
  by (induction e rule: has_permanent.induct) (auto simp: list_ex_iff split: option.splits)

section \<open>Properties\<close>

text \<open>Wrapping with \<open>fmt.Errorf("...: %w", err)\<close>, however often and with whatever text,
  changes none of the three classifications: a permanent error stays permanent, a VCD
  error keeps its retryability and its not-found status.\<close>

lemma classification_survives_wrapping:
  "IsPermanent (Some ((errorf_w U pre ^^ n) e)) = IsPermanent (Some e)"
  "vcd_IsRetryable (Some ((errorf_w U pre ^^ n) e)) = vcd_IsRetryable (Some e)"
  "vcd_IsNotFound (Some ((errorf_w U pre ^^ n) e)) = vcd_IsNotFound (Some e)"
  by (simp_all only: errorf.classification_wraps)

text \<open>C40: what the three classifications decide on, over every tree of errors. The first error of
  VCD in the tree, in the order of \<open>errors.As\<close>, decides the two of \<open>vcd\<close>: retryable means that
  there is none (a network error, and nil too) or that its status is 429, 502, 503 or 504; not
  found means that there is one with status 404; a later one plays no role. \<open>IsPermanent\<close> holds
  exactly when a \<open>PermanentError\<close> is anywhere in the tree, even one without a cause. Wrapping with
  \<open>%w\<close>, any number of times, changes none of them, and hiding the error behind a new
  one makes it retryable, not permanent and not a 404.\<close>

theorem error_classification:
  "(vcd_IsRetryable (Some e) \<longleftrightarrow>
      (case vcd_statuses e of [] \<Rightarrow> True | st # _ \<Rightarrow> st = 429 \<or> st = 502 \<or> st = 503 \<or> st = 504)) \<and>
   (vcd_IsNotFound (Some e) \<longleftrightarrow> (case vcd_statuses e of [] \<Rightarrow> False | st # _ \<Rightarrow> st = 404)) \<and>
   (IsPermanent (Some e) \<longleftrightarrow> (\<exists>c. ErrPermanent c \<in> set (preorder e))) \<and>
   vcd_IsRetryable None \<and> \<not> vcd_IsNotFound None \<and> \<not> IsPermanent None \<and>
   vcd_IsRetryable (Some ((errorf_w U pre ^^ n) e)) = vcd_IsRetryable (Some e) \<and>
   vcd_IsNotFound (Some ((errorf_w U pre ^^ n) e)) = vcd_IsNotFound (Some e) \<and>
   IsPermanent (Some ((errorf_w U pre ^^ n) e)) = IsPermanent (Some e) \<and>
   vcd_IsRetryable (Some (ErrNew t)) \<and> \<not> vcd_IsNotFound (Some (ErrNew t)) \<and> \<not> IsPermanent (Some (ErrNew t))"
proof -
  note a = as_api_preorder [of e]
  have "vcd_IsRetryable (Some e) \<longleftrightarrow>
      (case vcd_statuses e of [] \<Rightarrow> True | st # _ \<Rightarrow> st = 429 \<or> st = 502 \<or> st = 503 \<or> st = 504)"
    using a by (auto simp: vcd_IsRetryable_def api_retryable_def first_status_def split: option.splits list.splits)
  moreover have "vcd_IsNotFound (Some e) \<longleftrightarrow> (case vcd_statuses e of [] \<Rightarrow> False | st # _ \<Rightarrow> st = 404)"
    using a by (auto simp: vcd_IsNotFound_def api_not_found_def first_status_def split: option.splits list.splits)
  moreover have "vcd_IsRetryable None" "\<not> vcd_IsNotFound None" "\<not> IsPermanent None"
    "vcd_IsRetryable (Some (ErrNew t))" "\<not> vcd_IsNotFound (Some (ErrNew t))" "\<not> IsPermanent (Some (ErrNew t))"
    by (simp_all add: vcd_IsRetryable_def vcd_IsNotFound_def IsPermanent_def)
  moreover have "IsPermanent (Some e) \<longleftrightarrow> (\<exists>c. ErrPermanent c \<in> set (preorder e))"
    by (simp add: IsPermanent_def has_permanent_preorder)
  ultimately show ?thesis by (simp only: classification_survives_wrapping simp_thms)
qed

text \<open>\<open>IsRetryable\<close> and \<open>IsNotFound\<close> decide on the first VCD error of the chain: an
  error that carries none (a network error) is retryable and not a 404; one that does is
  retryable exactly for the statuses 429, 502, 503 and 504 and not found exactly for 404,
  so it is never both.\<close>

theorem vcd_classification:
  "vcd_IsRetryable (Some e) =
     (case as_api e of None \<Rightarrow> True | Some a \<Rightarrow> ae_status a \<in> {429, 502, 503, 504}) \<and>
   vcd_IsNotFound (Some e) = (case as_api e of None \<Rightarrow> False | Some a \<Rightarrow> ae_status a = 404) \<and>
   \<not> (vcd_IsRetryable (Some e) \<and> vcd_IsNotFound (Some e))"
  by (auto simp: vcd_IsRetryable_def vcd_IsNotFound_def api_retryable_def api_not_found_def
      split: option.splits)

end
