(* ===== verification/GoJson.thy ===== *)
theory GoJson
  imports GoErrors
begin

text \<open>
  The parts of \<open>encoding/json\<close> the program uses, on text: the grammar the decoder accepts
  (\<open>checkValid\<close> and \<open>Decoder.Decode\<close>), the reading of string literals with their escapes,
  decoding into struct fields, strings, integers and maps of raw messages, and the
  encoding of strings, integers and structs. A number keeps its literal, as the decoder
  reads it at the width of the field it goes to.
\<close>

datatype json =
    JNull
  | JBool bool
  | JNum string
  | JStr string
  | JArr "json list"
  | JObj "(string \<times> json) list"

section \<open>Literals\<close>

definition json_ws :: "char \<Rightarrow> bool" where
  "json_ws c \<longleftrightarrow> c = chr 32 \<or> c = chr 9 \<or> c = chr 10 \<or> c = chr 13"

definition skip_ws :: "string \<Rightarrow> string" where
  "skip_ws s = dropWhile json_ws s"

text \<open>Four hexadecimal digits (\<open>getu4\<close>).\<close>

definition hex4 :: "string \<Rightarrow> (nat \<times> string) option" where
  "hex4 s =
     (case s of
        a # b # c # d # t \<Rightarrow>
          (case (unhex a, unhex b, unhex c, unhex d) of
             (Some w, Some x, Some y, Some z) \<Rightarrow> Some (((w * 16 + x) * 16 + y) * 16 + z, t)
           | _ \<Rightarrow> None)
      | _ \<Rightarrow> None)"

text \<open>
  An escape after the backslash: the character it stands for and the rest. A surrogate
  takes its partner with it when the partner follows, and is U+FFFD otherwise.
\<close>

definition lex_escape :: "string \<Rightarrow> (nat \<times> string) option" where
  "lex_escape s =
     (case s of
        [] \<Rightarrow> None
      | e # t \<Rightarrow>
          if e = CHR ''u'' then
            (case hex4 t of
               None \<Rightarrow> None
             | Some (r, t') \<Rightarrow>
                 if 0xD800 \<le> r \<and> r \<le> 0xDFFF then
                   (case t' of
                      b # u # t2 \<Rightarrow>
                        (case hex4 t2 of
                           Some (r2, t3) \<Rightarrow>
                             if b = chr 92 \<and> u = CHR ''u'' \<and> r \<le> 0xDBFF \<and> 0xDC00 \<le> r2 \<and> r2 \<le> 0xDFFF
                             then Some ((r - 0xD800) * 1024 + (r2 - 0xDC00) + 0x10000, t3)
                             else Some (rune_error, t')
                         | None \<Rightarrow> Some (rune_error, t'))
                    | _ \<Rightarrow> Some (rune_error, t'))
                 else Some (r, t'))
          else if e = chr 34 \<or> e = chr 92 \<or> e = CHR ''/'' then Some (ord e, t)
          else if e = CHR ''b'' then Some (8, t)
          else if e = CHR ''f'' then Some (12, t)
          else if e = CHR ''n'' then Some (10, t)
          else if e = CHR ''r'' then Some (13, t)
          else if e = CHR ''t'' then Some (9, t)
          else None)"

lemma hex4_shorter: "hex4 s = Some (r, t) \<Longrightarrow> length t < length s"
  by (auto simp: hex4_def split: list.splits option.splits)

lemma lex_escape_shorter: "lex_escape s = Some (r, t) \<Longrightarrow> length t < length s"
  by (fastforce simp: lex_escape_def split: list.splits option.splits if_splits prod.splits
      dest: hex4_shorter)

text \<open>A string literal after its opening quote: its value and what follows the closing quote.\<close>

function lex_string :: "string \<Rightarrow> (string \<times> string) option" where
  "lex_string s =
     (case s of
        [] \<Rightarrow> None
      | c # t \<Rightarrow>
          if c = chr 34 then Some ([], t)
          else if c = chr 92 then
            (case lex_escape t of
               None \<Rightarrow> None
             | Some (r, t') \<Rightarrow>
                 map_option (\<lambda>(v, u). (encode_rune r @ v, u)) (lex_string t'))
          else if ord c < 0x20 then None
          else map_option (\<lambda>(v, u). (encode_rune (fst (decode_rune s)) @ v, u))
                 (lex_string (drop (snd (decode_rune s)) s)))"
  by pat_completeness auto
termination
proof (relation "measure length")
  fix s t :: string and c x r t'
  assume "s = c # t" "lex_escape t = Some x" "(r, t') = x"
  then show "(t', s) \<in> measure length" using lex_escape_shorter [of t r t'] by auto
next
  fix s t :: string and c
  assume "s = c # t"
  then show "(drop (snd (decode_rune s)) s, s) \<in> measure length"
    using decode_rune_shorter [of s] by (simp del: decode_rune.simps)
qed simp

declare lex_string.simps [simp del]

lemma lex_string_shorter: "lex_string s = Some (v, t) \<Longrightarrow> length t < length s"
proof (induction s arbitrary: v rule: lex_string.induct)
  case (1 s)
  show ?case
  proof (cases s)
    case Nil
    with "1.prems" show ?thesis by (subst (asm) lex_string.simps) simp
  next
    case (Cons c u)
    consider "c = chr 34" | "c = chr 92" "c \<noteq> chr 34" | "c \<noteq> chr 34" "c \<noteq> chr 92" by blast
    then show ?thesis
    proof cases
      case 1
      with "1.prems" Cons show ?thesis by (subst (asm) lex_string.simps) simp
    next
      case 2
      obtain r t' w where e: "lex_escape u = Some (r, t')" and w: "lex_string t' = Some (w, t)"
        using "1.prems" 2 unfolding lex_string.simps [of s] unfolding Cons
        by (auto split: option.splits)
      show ?thesis
        using "1.IH"(1) [OF Cons 2(2,1) e refl w] lex_escape_shorter [OF e] Cons by simp
    next
      case 3
      obtain w where w: "lex_string (drop (snd (decode_rune s)) s) = Some (w, t)"
        and c: "\<not> ord c < 0x20"
        using "1.prems" 3 unfolding lex_string.simps [of s] unfolding Cons
        by (auto split: if_splits simp del: decode_rune.simps)
      show ?thesis
        using "1.IH"(2) [OF Cons 3(1,2) c w] decode_rune_shorter [of s] Cons
        by (simp del: decode_rune.simps)
    qed
  qed
qed

text \<open>
  A number literal, read as the scanner's automaton does: once a fraction or an exponent
  has begun, its digits must follow.
\<close>

definition lex_digits :: "string \<Rightarrow> (string \<times> string) option" where
  "lex_digits s =
     (let ds = takeWhile is_digit s
      in if ds = [] then None else Some (ds, dropWhile is_digit s))"

definition lex_int :: "string \<Rightarrow> (string \<times> string) option" where
  "lex_int s =
     (case s of
        [] \<Rightarrow> None
      | c # t \<Rightarrow> if c = CHR ''0'' then Some ([c], t) else lex_digits s)"

definition lex_frac :: "string \<Rightarrow> (string \<times> string) option" where
  "lex_frac s =
     (case s of
        c # t \<Rightarrow>
          if c = CHR ''.'' then map_option (\<lambda>(ds, r). (c # ds, r)) (lex_digits t) else Some ([], s)
      | [] \<Rightarrow> Some ([], s))"

definition lex_exp :: "string \<Rightarrow> (string \<times> string) option" where
  "lex_exp s =
     (case s of
        c # t \<Rightarrow>
          if c = CHR ''e'' \<or> c = CHR ''E'' then
            (case t of
               g # u \<Rightarrow>
                 if g = CHR ''+'' \<or> g = CHR ''-''
                 then map_option (\<lambda>(ds, r). (c # g # ds, r)) (lex_digits u)
                 else map_option (\<lambda>(ds, r). (c # ds, r)) (lex_digits t)
             | [] \<Rightarrow> None)
          else Some ([], s)
      | [] \<Rightarrow> Some ([], s))"

definition lex_unsigned :: "string \<Rightarrow> (string \<times> string) option" where
  "lex_unsigned s =
     (case lex_int s of
        None \<Rightarrow> None
      | Some (i, s1) \<Rightarrow>
          (case lex_frac s1 of
             None \<Rightarrow> None
           | Some (f, s2) \<Rightarrow>
               (case lex_exp s2 of
                  None \<Rightarrow> None
                | Some (e, s3) \<Rightarrow> Some (i @ f @ e, s3))))"

definition lex_number :: "string \<Rightarrow> (string \<times> string) option" where
  "lex_number s =
     (case s of
        c # t \<Rightarrow>
          if c = CHR ''-'' then map_option (\<lambda>(v, r). (c # v, r)) (lex_unsigned t)
          else lex_unsigned s
      | [] \<Rightarrow> None)"

lemma lex_digits_shorter: "lex_digits s = Some (v, r) \<Longrightarrow> length r < length s"
proof -
  assume "lex_digits s = Some (v, r)"
  then have "takeWhile is_digit s \<noteq> []" "r = dropWhile is_digit s"
    by (auto simp: lex_digits_def Let_def split: if_splits)
  moreover have "length (takeWhile is_digit s) + length (dropWhile is_digit s) = length s"
    by (metis length_append takeWhile_dropWhile_id)
  ultimately show ?thesis by (cases "takeWhile is_digit s") auto
qed

lemma lex_int_shorter: "lex_int s = Some (v, r) \<Longrightarrow> length r < length s"
  by (auto simp: lex_int_def split: list.splits if_splits dest: lex_digits_shorter)

lemma lex_frac_le: "lex_frac s = Some (v, r) \<Longrightarrow> length r \<le> length s"
  by (auto simp: lex_frac_def split: list.splits if_splits dest: lex_digits_shorter)

lemma lex_exp_le: "lex_exp s = Some (v, r) \<Longrightarrow> length r \<le> length s"
  by (auto simp: lex_exp_def split: list.splits if_splits dest: lex_digits_shorter)

lemma lex_number_shorter: "lex_number s = Some (v, r) \<Longrightarrow> length r < length s"
  by (fastforce simp: lex_number_def lex_unsigned_def split: list.splits if_splits option.splits
      dest: lex_int_shorter lex_frac_le lex_exp_le)

lemma skip_ws_le: "length (skip_ws s) \<le> length s"
  by (simp add: skip_ws_def length_dropWhile_le)

section \<open>Values\<close>

text \<open>
  The value at the front of a text and what follows it. The first argument is fuel: every
  call spends one unit and every second one consumes a character, so twice the length of
  the text and one is enough (\<open>p_value_fuel\<close> below). The second is the nesting depth, limited as in the scanner.
\<close>

definition max_depth :: nat where
  "max_depth = 10000"

fun p_value :: "nat \<Rightarrow> nat \<Rightarrow> string \<Rightarrow> (json \<times> string) option"
  and p_elems :: "nat \<Rightarrow> nat \<Rightarrow> string \<Rightarrow> (json list \<times> string) option"
  and p_members :: "nat \<Rightarrow> nat \<Rightarrow> string \<Rightarrow> ((string \<times> json) list \<times> string) option" where
  "p_value 0 d s = None"
| "p_value (Suc n) d s =
     (case skip_ws s of
        [] \<Rightarrow> None
      | c # t \<Rightarrow>
          if c = chr 34 then map_option (\<lambda>(v, r). (JStr v, r)) (lex_string t)
          else if c = CHR ''{'' then
            (if max_depth \<le> d then None
             else if has_prefix ''}'' (skip_ws t) then Some (JObj [], tl (skip_ws t))
             else map_option (\<lambda>(ms, r). (JObj ms, r)) (p_members n (Suc d) t))
          else if c = CHR ''['' then
            (if max_depth \<le> d then None
             else if has_prefix '']'' (skip_ws t) then Some (JArr [], tl (skip_ws t))
             else map_option (\<lambda>(vs, r). (JArr vs, r)) (p_elems n (Suc d) t))
          else if c = CHR ''t'' then
            (if has_prefix ''rue'' t then Some (JBool True, drop 3 t) else None)
          else if c = CHR ''f'' then
            (if has_prefix ''alse'' t then Some (JBool False, drop 4 t) else None)
          else if c = CHR ''n'' then
            (if has_prefix ''ull'' t then Some (JNull, drop 3 t) else None)
          else map_option (\<lambda>(l, r). (JNum l, r)) (lex_number (c # t)))"
| "p_elems 0 d s = None"
| "p_elems (Suc n) d s =
     (case p_value n d s of
        None \<Rightarrow> None
      | Some (v, r) \<Rightarrow>
          (case skip_ws r of
             [] \<Rightarrow> None
           | c # r' \<Rightarrow>
               if c = CHR '']'' then Some ([v], r')
               else if c = CHR '','' then map_option (\<lambda>(vs, u). (v # vs, u)) (p_elems n d r')
               else None))"
| "p_members 0 d s = None"
| "p_members (Suc n) d s =
     (case skip_ws s of
        [] \<Rightarrow> None
      | q # t \<Rightarrow>
          if q \<noteq> chr 34 then None
          else (case lex_string t of
             None \<Rightarrow> None
           | Some (k, r) \<Rightarrow>
               (case skip_ws r of
                  [] \<Rightarrow> None
                | c # r1 \<Rightarrow>
                    if c \<noteq> CHR '':'' then None
                    else (case p_value n d r1 of
                       None \<Rightarrow> None
                     | Some (v, r2) \<Rightarrow>
                         (case skip_ws r2 of
                            [] \<Rightarrow> None
                          | e # r3 \<Rightarrow>
                              if e = CHR ''}'' then Some ([(k, v)], r3)
                              else if e = CHR '','' then
                                map_option (\<lambda>(ms, u). ((k, v) # ms, u)) (p_members n d r3)
                              else None)))))"

lemma skip_ws_Cons_le: "skip_ws s = c # t \<Longrightarrow> length t < length s"
  using skip_ws_le [of s] by simp

lemma tl_skip_ws_le: "length (tl (skip_ws t)) \<le> length t"
  using skip_ws_le [of t] by simp

lemma p_shorter_all:
  "(\<forall>d s v r. p_value n d s = Some (v, r) \<longrightarrow> length r < length s) \<and>
   (\<forall>d s vs r. p_elems n d s = Some (vs, r) \<longrightarrow> length r < length s) \<and>
   (\<forall>d s ms r. p_members n d s = Some (ms, r) \<longrightarrow> length r < length s)"
proof (induction n)
  case (Suc n)
  then have v: "\<And>d s v r. p_value n d s = Some (v, r) \<Longrightarrow> length r < length s"
    and e: "\<And>d s vs r. p_elems n d s = Some (vs, r) \<Longrightarrow> length r < length s"
    and m: "\<And>d s ms r. p_members n d s = Some (ms, r) \<Longrightarrow> length r < length s"
    by blast+
  have "length r < length s" if p: "p_value (Suc n) d s = Some (v, r)" for d s v r
  proof -
    obtain c t where ct: "skip_ws s = c # t" using p by (cases "skip_ws s") auto
    have "length r \<le> length t"
      using p ct tl_skip_ws_le [of t]
      by (auto split: if_splits dest!: e m lex_string_shorter lex_number_shorter)
    with skip_ws_Cons_le [OF ct] show ?thesis by simp
  qed
  moreover have "length r < length s" if "p_elems (Suc n) d s = Some (vs, r)" for d s vs r
    using that by (fastforce split: option.splits list.splits if_splits dest: skip_ws_Cons_le v e)
  moreover have "length r < length s" if "p_members (Suc n) d s = Some (ms, r)" for d s ms r
    using that by (fastforce split: option.splits list.splits if_splits
        dest: skip_ws_Cons_le lex_string_shorter v m)
  ultimately show ?case by blast
qed simp

lemma p_value_shorter: "p_value n d s = Some (v, r) \<Longrightarrow> length r < length s"
  using p_shorter_all by blast

text \<open>Fuel beyond twice the length of the text changes nothing.\<close>

lemma p_fuel_all:
  "(\<forall>d s k. 2 * length s < n \<longrightarrow> p_value (n + k) d s = p_value n d s) \<and>
   (\<forall>d s k. 2 * length s + 1 < n \<longrightarrow> p_elems (n + k) d s = p_elems n d s) \<and>
   (\<forall>d s k. 2 * length s + 1 < n \<longrightarrow> p_members (n + k) d s = p_members n d s)"
proof (induction n)
  case (Suc n)
  then have v: "\<And>d s k. 2 * length s < n \<Longrightarrow> p_value (n + k) d s = p_value n d s"
    and e: "\<And>d s k. 2 * length s + 1 < n \<Longrightarrow> p_elems (n + k) d s = p_elems n d s"
    and m: "\<And>d s k. 2 * length s + 1 < n \<Longrightarrow> p_members (n + k) d s = p_members n d s"
    by blast+
  have "p_value (Suc n + k) d s = p_value (Suc n) d s" if "2 * length s < Suc n" for d s k
  proof (cases "skip_ws s")
    case (Cons c t)
    then have "2 * length t + 1 < n" using skip_ws_Cons_le [of s c t] that by simp
    then show ?thesis using Cons by (simp add: e m)
  qed simp
  moreover have "p_elems (Suc n + k) d s = p_elems (Suc n) d s"
    if s: "2 * length s + 1 < Suc n" for d s k
  proof -
    have rest: "p_elems (n + k) d r' = p_elems n d r'"
      if "p_value n d s = Some (w, r)" "skip_ws r = c # r'" for w r c r'
      using p_value_shorter [OF that(1)] skip_ws_Cons_le [OF that(2)] s by (intro e) simp
    show ?thesis
      using v [of s k d] s rest by (auto split: option.splits list.splits)
  qed
  moreover have "p_members (Suc n + k) d s = p_members (Suc n) d s"
    if s: "2 * length s + 1 < Suc n" for d s k
  proof (cases "skip_ws s")
    case (Cons q t)
    note lt = skip_ws_Cons_le [OF Cons]
    show ?thesis
    proof (cases "lex_string t")
      case (Some x)
      obtain key r where x: "x = (key, r)" by (cases x)
      have r: "length r < length s" using lex_string_shorter Some x lt by fastforce
      show ?thesis
      proof (cases "skip_ws r")
        case r1: (Cons c r1)
        have l1: "length r1 < length s" using skip_ws_Cons_le [OF r1] r by simp
        have pv: "p_value (n + k) d r1 = p_value n d r1" using l1 s by (intro v) simp
        have rest: "p_members (n + k) d r3 = p_members n d r3"
          if "p_value n d r1 = Some (w, r2)" "skip_ws r2 = e # r3" for w r2 e r3
          using p_value_shorter [OF that(1)] skip_ws_Cons_le [OF that(2)] l1 s by (intro m) simp
        show ?thesis
          using Cons Some x r1 pv rest by (auto split: option.splits list.splits)
      qed (use Cons Some x in simp)
    qed (use Cons in simp)
  qed simp
  ultimately show ?case by blast
qed simp

lemma p_value_fuel:
  assumes "2 * length s < n" "2 * length s < m"
  shows "p_value n d s = p_value m d s"
proof -
  have "p_value (2 * length s + 1 + k) d s = p_value (2 * length s + 1) d s" for k
    using p_fuel_all [of "2 * length s + 1"] by simp
  from this [of "n - (2 * length s + 1)"] this [of "m - (2 * length s + 1)"] assms
  show ?thesis by simp
qed

definition json_value :: "string \<Rightarrow> (json \<times> string) option" where
  "json_value s = p_value (2 * length s + 1) 0 s"

text \<open>\<open>json.Unmarshal\<close> wants the whole text to be one value, \<open>Decoder.Decode\<close> reads the
  first value and leaves the rest.\<close>

definition json_parse :: "string \<Rightarrow> json option" where
  "json_parse s =
     (case json_value s of
        None \<Rightarrow> None
      | Some (v, r) \<Rightarrow> if skip_ws r = [] then Some v else None)"

definition json_decode :: "string \<Rightarrow> json option" where
  "json_decode s = map_option fst (json_value s)"

lemma json_value_fuel: "2 * length s < n \<Longrightarrow> p_value n 0 s = json_value s"
  unfolding json_value_def by (rule p_value_fuel) simp_all

lemma json_parse_decode: "json_parse s = Some v \<Longrightarrow> json_decode s = Some v"
  by (auto simp: json_parse_def json_decode_def split: option.splits if_splits)

section \<open>Encoding\<close>

text \<open>\<open>appendString\<close> with HTML escaping, as \<open>json.Marshal\<close> calls it.\<close>

definition enc_ascii :: "char \<Rightarrow> string" where
  "enc_ascii c =
     (if c = chr 92 \<or> c = chr 34 then [chr 92, c]
      else if ord c = 8 then [chr 92, CHR ''b'']
      else if ord c = 12 then [chr 92, CHR ''f'']
      else if ord c = 10 then [chr 92, CHR ''n'']
      else if ord c = 13 then [chr 92, CHR ''r'']
      else if ord c = 9 then [chr 92, CHR ''t'']
      else if ord c < 0x20 \<or> c = CHR ''<'' \<or> c = CHR ''>'' \<or> c = CHR ''&''
        then [chr 92, CHR ''u''] @ hex_fixed 4 (ord c)
      else [c])"

definition enc_rune :: "string \<Rightarrow> string" where
  "enc_rune s =
     (let r = fst (decode_rune s)
      in if ord (hd s) < 0x80 then enc_ascii (hd s)
         else if \<not> valid_head s then [chr 92, CHR ''u''] @ hex_fixed 4 rune_error
         else if r = 0x2028 \<or> r = 0x2029 then [chr 92, CHR ''u''] @ hex_fixed 4 r
         else encode_scalar r)"

function enc_body :: "string \<Rightarrow> string" where
  "enc_body s = (if s = [] then [] else enc_rune s @ enc_body (drop (snd (decode_rune s)) s))"
  by pat_completeness auto
termination
  by (relation "measure length", rule wf_measure, unfold in_measure, rule decode_rune_shorter)

declare enc_body.simps [simp del]

definition enc_string :: "string \<Rightarrow> string" where
  "enc_string s = chr 34 # enc_body s @ [chr 34]"

text \<open>What an invalid string becomes: each byte that is no UTF-8 is U+FFFD.\<close>

definition to_valid :: "string \<Rightarrow> string" where
  "to_valid s = map_runes (\<lambda>r. r) s"

lemma to_valid_id: "utf8_valid s \<Longrightarrow> to_valid s = s"
  by (induction s rule: utf8_valid_induct)
    (simp_all add: to_valid_def map_runes.simps [of "f" "encode_scalar r @ t" for f r t]
      decode_encode_scalar encode_rune_def)

lemma hex4_hex_fixed: "n < 0x10000 \<Longrightarrow> hex4 (hex_fixed 4 n @ s) = Some (n, s)"
proof -
  assume n: "n < 0x10000"
  have u: "unhex (hex_digit k) = Some k" if "k < 16" for k
    using that by (auto simp: unhex_def ord_hex_digit(1) is_digit_def)
  have f: "hex_fixed 4 n = [hex_digit (n div 4096 mod 16), hex_digit (n div 256 mod 16),
      hex_digit (n div 16 mod 16), hex_digit (n mod 16)]"
    by (simp add: hex_fixed_def upt_rec)
  have "n div 4096 mod 16 = n div 4096" "n div 4096 < 16" using n by simp_all
  moreover have "n div 4096 * 16 + n div 256 mod 16 = n div 256"
    using div_mult_mod_eq [of "n div 256" 16] div_mult2_eq [of n 256 16] by simp
  moreover have "n div 256 * 16 + n div 16 mod 16 = n div 16"
    using div_mult_mod_eq [of "n div 16" 16] div_mult2_eq [of n 16 16] by simp
  moreover have "n div 16 * 16 + n mod 16 = n" by simp
  ultimately show ?thesis by (simp add: f hex4_def u)
qed

lemma lex_string_quote: "lex_string (chr 34 # s) = Some ([], s)"
  by (subst lex_string.simps) simp

lemma lex_string_escape:
  "lex_escape s = Some (r, t) \<Longrightarrow>
    lex_string (chr 92 # s) = map_option (\<lambda>(v, u). (encode_rune r @ v, u)) (lex_string t)"
proof -
  have "(chr 92 :: char) \<noteq> chr 34" by (simp add: chr_eval)
  then show "lex_escape s = Some (r, t) \<Longrightarrow>
    lex_string (chr 92 # s) = map_option (\<lambda>(v, u). (encode_rune r @ v, u)) (lex_string t)"
    by (subst lex_string.simps) simp
qed

lemma lex_string_u:
  "n < 0x10000 \<Longrightarrow> \<not> (0xD800 \<le> n \<and> n \<le> 0xDFFF) \<Longrightarrow>
    lex_string (chr 92 # CHR ''u'' # hex_fixed 4 n @ s) =
      map_option (\<lambda>(v, u). (encode_scalar n @ v, u)) (lex_string s)"
  by (subst lex_string_escape [of _ n s])
    (auto simp: lex_escape_def hex4_hex_fixed encode_rune_def scalar_def)

lemma lex_string_plain:
  assumes "s \<noteq> []" "0x20 \<le> ord (hd s)" "hd s \<noteq> chr 34" "hd s \<noteq> chr 92"
  shows "lex_string s = map_option (\<lambda>(v, u). (encode_rune (fst (decode_rune s)) @ v, u))
    (lex_string (drop (snd (decode_rune s)) s))"
proof -
  obtain c t where "s = c # t" using assms(1) by (cases s) auto
  then show ?thesis
    using assms unfolding lex_string.simps [of s] by (simp del: decode_rune.simps)
qed

lemma hex_fixed_2: "hex_fixed 2 n = [hex_digit (n div 16 mod 16), hex_digit (n mod 16)]"
  by (simp add: hex_fixed_def upt_rec)

lemma lex_string_enc_ascii:
  assumes "ord c < 0x80"
  shows "lex_string (enc_ascii c @ u) =
    map_option (\<lambda>(v, w). (encode_rune (ord c) @ v, w)) (lex_string u)"
proof -
  let ?R = "\<lambda>r. map_option (\<lambda>(v, w). (encode_rune r @ v, w)) (lex_string u)"
  have ne: "chr 34 \<noteq> CHR ''u''" "chr 92 \<noteq> CHR ''u''"
    by (simp_all add: chr_eval)
  have q: "lex_string (chr 92 # c # u) = ?R (ord c)" if "c = chr 92 \<or> c = chr 34"
    using that ne by (intro lex_string_escape) (auto simp: lex_escape_def)
  have b: "lex_string (chr 92 # CHR ''b'' # u) = ?R 8" "lex_string (chr 92 # CHR ''f'' # u) = ?R 12"
    "lex_string (chr 92 # CHR ''n'' # u) = ?R 10" "lex_string (chr 92 # CHR ''r'' # u) = ?R 13"
    "lex_string (chr 92 # CHR ''t'' # u) = ?R 9"
    by (rule lex_string_escape; simp add: lex_escape_def chr_eval)+
  have x: "lex_string (chr 92 # CHR ''u'' # hex_fixed 4 (ord c) @ u) = ?R (ord c)"
    using assms by (subst lex_string_u) (auto simp: encode_rune_def scalar_def)
  have p: "lex_string (c # u) = ?R (ord c)" if "0x20 \<le> ord c" "c \<noteq> chr 34" "c \<noteq> chr 92"
    using that assms by (subst lex_string_plain) auto
  show ?thesis
    using q b x p by (simp add: enc_ascii_def not_less split del: if_split) (simp split: if_split)
qed

lemma lex_string_enc_rune:
  assumes "s \<noteq> []"
  shows "lex_string (enc_rune s @ u) =
    map_option (\<lambda>(v, w). (encode_rune (fst (decode_rune s)) @ v, w)) (lex_string u)"
proof -
  obtain c t where s: "s = c # t" using assms by (cases s) auto
  show ?thesis
  proof (cases "ord c < 0x80")
    case True
    then have d: "decode_rune s = (ord c, 1)" "enc_rune s = enc_ascii c"
      by (simp_all add: s enc_rune_def Let_def)
    show ?thesis by (simp only: d fst_conv lex_string_enc_ascii [OF True])
  next
    case False
    show ?thesis
    proof (cases "valid_head s")
      case v: True
      define r where "r = fst (decode_rune s)"
      note r = encode_decode_rune [OF assms v, folded r_def]
      have "encode_scalar r \<noteq> [] \<and> hd (encode_scalar r) = c"
        using r(1) decode_rune_width [OF assms] by (auto simp: s simp del: decode_rune.simps)
      then have hd: "hd (encode_scalar r @ u) = c" by simp
      have ne: "c \<noteq> chr 34" "c \<noteq> chr 92" using False by auto
      have er: "encode_rune r = encode_scalar r" using r(2) by (simp add: encode_rune_def)
      show ?thesis
      proof (cases "r = 0x2028 \<or> r = 0x2029")
        case True
        then have "r < 0x10000" "\<not> (0xD800 \<le> r \<and> r \<le> 0xDFFF)" by auto
        from lex_string_u [OF this, of u] True False v show ?thesis
          by (auto simp: enc_rune_def Let_def s [symmetric] r_def [symmetric] er simp del: decode_rune.simps)
            (simp_all add: s)
      next
        case plain: False
        have "enc_rune s = encode_scalar r"
          using False v plain by (simp add: enc_rune_def Let_def r_def s del: decode_rune.simps)
        moreover have "lex_string (encode_scalar r @ u) =
            map_option (\<lambda>(v, w). (encode_rune r @ v, w)) (lex_string u)"
          using False ne hd decode_encode_scalar [OF r(2), of u]
          by (subst lex_string_plain) simp_all
        ultimately show ?thesis by (simp add: r_def)
      qed
    next
      case bad: False
      have "fst (decode_rune s) = rune_error" using bad by (simp add: valid_head_def)
      moreover have "enc_rune s = [chr 92, CHR ''u''] @ hex_fixed 4 rune_error"
        using False bad by (simp add: enc_rune_def Let_def s del: decode_rune.simps)
      moreover have "encode_rune rune_error = encode_scalar rune_error"
        by (simp add: encode_rune_def)
      ultimately show ?thesis
        using lex_string_u [of rune_error u] by (simp add: rune_error_def)
    qed
  qed
qed

text \<open>A written string is read back, up to the bytes that were no UTF-8.\<close>

lemma lex_string_enc_body: "lex_string (enc_body s @ chr 34 # rest) = Some (to_valid s, rest)"
proof (induction s rule: rune_induct)
  case Nil
  then show ?case by (simp add: enc_body.simps [of "[]"] lex_string_quote to_valid_def)
next
  case (rune s)
  then show ?case
    by (subst enc_body.simps) (simp add: lex_string_enc_rune to_valid_def map_runes.simps [of _ s]
        del: decode_rune.simps)
qed

end
