(* ===== verification/GoJsonCodec.thy ===== *)
theory GoJsonCodec
  imports GoJson
begin

text \<open>
  Marshalling and unmarshalling with \<open>encoding/json\<close>, on top of the grammar of \<open>GoJson\<close>:
  objects with their members in a given order, maps of raw messages (a value's own text),
  and the decoding into the fields of a struct, with its rules for unknown, repeated and
  differently cased keys, for \<open>null\<close> and for values of the wrong type.
\<close>

section \<open>Writing objects\<close>

fun enc_members :: "(string \<times> string) list \<Rightarrow> string" where
  "enc_members [] = []"
| "enc_members [(k, t)] = enc_string k @ CHR '':'' # t"
| "enc_members ((k, t) # kt # kts) = enc_string k @ CHR '':'' # t @ CHR '','' # enc_members (kt # kts)"

definition enc_object :: "(string \<times> string) list \<Rightarrow> string" where
  "enc_object kts = CHR ''{'' # enc_members kts @ ''}''"

definition enc_bool :: "bool \<Rightarrow> string" where
  "enc_bool b = (if b then ''true'' else ''false'')"

section \<open>Texts of scalar values\<close>

text \<open>
  A text that the decoder reads as one value whatever follows it, provided the next
  character does not continue a number.
\<close>

definition delimited :: "string \<Rightarrow> bool" where
  "delimited rest \<longleftrightarrow>
     rest = [] \<or> (\<not> is_digit (hd rest) \<and> hd rest \<notin> {CHR ''.'', CHR ''e'', CHR ''E''})"

definition scalar_text :: "string \<Rightarrow> json \<Rightarrow> bool" where
  "scalar_text t v \<longleftrightarrow>
     t \<noteq> [] \<and> \<not> json_ws (hd t) \<and>
     (\<forall>n d rest. delimited rest \<longrightarrow> p_value (Suc n) d (t @ rest) = Some (v, rest))"

lemma skip_ws_id: "s = [] \<or> \<not> json_ws (hd s) \<Longrightarrow> skip_ws s = s"
  by (cases s) (simp_all add: skip_ws_def)

lemma json_ws_quote [simp]: "\<not> json_ws (chr 34)"
  by (simp add: json_ws_def chr_eval)

lemma json_ws_digit: "is_digit c \<Longrightarrow> \<not> json_ws c"
  by (auto simp: json_ws_def is_digit_def)

lemma json_ws_punct [simp]:
  "\<not> json_ws CHR '':''" "\<not> json_ws CHR '',''" "\<not> json_ws CHR ''}''" "\<not> json_ws CHR ''{''"
  "\<not> json_ws CHR ''-''" "\<not> json_ws CHR ''n''" "\<not> json_ws CHR ''t''" "\<not> json_ws CHR ''f''"
  by (simp_all add: json_ws_def chr_eval)

lemma delimited_punct [simp]: "delimited (CHR '','' # s)" "delimited (CHR ''}'' # s)" "delimited []"
  by (simp_all add: delimited_def is_digit_def)

lemma scalar_text_string: "scalar_text (enc_string s) (JStr (to_valid s))"
  by (simp add: scalar_text_def enc_string_def skip_ws_def lex_string_enc_body)

lemma scalar_text_bool: "scalar_text (enc_bool b) (JBool b)"
  by (simp add: scalar_text_def enc_bool_def skip_ws_def) (simp add: chr_eval)

lemma scalar_text_null: "scalar_text ''null'' JNull"
  by (simp add: scalar_text_def skip_ws_def) (simp add: chr_eval)

lemma hd_show_nat_0: "hd (show_nat n) = CHR ''0'' \<Longrightarrow> n = 0"
proof (induction n rule: show_nat.induct)
  case (1 n)
  show ?case
  proof (cases "n < 10")
    case True
    then have "ord (digit_char n) = 48"
      using "1.prems" by (subst (asm) show_nat.simps) simp
    then show ?thesis using ord_digit_char [OF True] by simp
  next
    case False
    then have "hd (show_nat (n div 10)) = CHR ''0''"
      using "1.prems" by (subst (asm) show_nat.simps) simp
    then show ?thesis using "1.IH" False by simp
  qed
qed

lemma show_nat_0 [simp]: "show_nat 0 = ''0''"
  by (subst show_nat.simps) (simp add: digit_char_def)

lemma lex_digits_append:
  assumes "ds \<noteq> []" "list_all is_digit ds" "rest = [] \<or> \<not> is_digit (hd rest)"
  shows "lex_digits (ds @ rest) = Some (ds, rest)"
proof -
  have "takeWhile is_digit rest = []" "dropWhile is_digit rest = rest"
    using assms(3) by (cases rest; simp)+
  moreover have "\<forall>x\<in>set ds. is_digit x" using assms(2) by (simp add: list_all_iff)
  ultimately show ?thesis
    using assms(1) by (simp add: lex_digits_def takeWhile_append2 dropWhile_append2)
qed

lemma lex_int_show_nat:
  assumes "rest = [] \<or> \<not> is_digit (hd rest)"
  shows "lex_int (show_nat n @ rest) = Some (show_nat n, rest)"
proof (cases "n = 0")
  case True
  then show ?thesis by (simp add: lex_int_def)
next
  case False
  obtain c t where ct: "show_nat n = c # t" by (cases "show_nat n") auto
  then have "c \<noteq> CHR ''0''" using False hd_show_nat_0 [of n] by auto
  then have "lex_int (show_nat n @ rest) = lex_digits (show_nat n @ rest)"
    by (simp add: lex_int_def ct)
  then show ?thesis
    using lex_digits_append [OF show_nat_nonempty show_nat_digits assms] by simp
qed

lemma lex_unsigned_show_nat:
  assumes "delimited rest"
  shows "lex_unsigned (show_nat n @ rest) = Some (show_nat n, rest)"
proof -
  have "lex_frac rest = Some ([], rest)" "lex_exp rest = Some ([], rest)"
    using assms by (cases rest; simp add: lex_frac_def lex_exp_def delimited_def)+
  moreover have "rest = [] \<or> \<not> is_digit (hd rest)" using assms by (auto simp: delimited_def)
  ultimately show ?thesis by (simp add: lex_unsigned_def lex_int_show_nat)
qed

lemma lex_number_itoa:
  assumes "delimited rest"
  shows "lex_number (itoa i @ rest) = Some (itoa i, rest)"
proof -
  have "lex_number (show_nat n @ rest) = Some (show_nat n, rest)" for n
  proof -
    obtain c t where ct: "show_nat n = c # t" by (cases "show_nat n") auto
    then have "c \<noteq> CHR ''-''" using hd_show_nat [of n] by (auto simp: is_digit_def)
    then show ?thesis
      using lex_unsigned_show_nat [OF assms, of n] by (simp add: lex_number_def ct)
  qed
  then show ?thesis
    using lex_unsigned_show_nat [OF assms] by (simp add: itoa_def) (simp add: lex_number_def)
qed

lemma hd_itoa: "is_digit (hd (itoa i)) \<or> hd (itoa i) = CHR ''-''"
  using hd_show_nat by (simp add: itoa_def)

lemma itoa_nonempty [simp]: "itoa i \<noteq> []"
  by (simp add: itoa_def)

lemma scalar_text_itoa: "scalar_text (itoa i) (JNum (itoa i))"
proof -
  obtain c t where ct: "itoa i = c # t" by (cases "itoa i") auto
  have c: "is_digit c \<or> c = CHR ''-''" using hd_itoa [of i] ct by simp
  then have ws: "\<not> json_ws c" using json_ws_digit by auto
  have "p_value (Suc n) d (itoa i @ rest) = Some (JNum (itoa i), rest)" if "delimited rest" for n d rest
  proof -
    have "c \<noteq> chr 34" "c \<noteq> CHR ''{''" "c \<noteq> CHR ''[''" "c \<noteq> CHR ''t''" "c \<noteq> CHR ''f''" "c \<noteq> CHR ''n''"
      using c by (auto simp: is_digit_def chr_eval)
    then show ?thesis
      using lex_number_itoa [OF that, of i] by (simp add: ct skip_ws_def ws)
  qed
  with ws show ?thesis by (simp add: scalar_text_def ct)
qed

section \<open>Reading objects that were written\<close>

definition scalar_members :: "(string \<times> string \<times> json) list \<Rightarrow> bool" where
  "scalar_members kvs \<longleftrightarrow> list_all (\<lambda>(k, t, v). scalar_text t v) kvs"

abbreviation member_texts :: "(string \<times> string \<times> json) list \<Rightarrow> (string \<times> string) list" where
  "member_texts kvs \<equiv> map (\<lambda>(k, t, v). (k, t)) kvs"

lemma scalar_textD:
  "scalar_text t v \<Longrightarrow> delimited rest \<Longrightarrow> p_value (Suc n) d (t @ rest) = Some (v, rest)"
  "scalar_text t v \<Longrightarrow> skip_ws (t @ rest) = t @ rest"
  by (auto simp: scalar_text_def intro!: skip_ws_id)

lemma enc_members_shape: "enc_members ((k, t) # kts) = chr 34 # enc_body k @ chr 34 # CHR '':'' # t @
    (if kts = [] then [] else CHR '','' # enc_members kts)"
  by (cases kts) (simp_all add: enc_string_def)

lemma p_members_enc:
  "scalar_members kvs \<Longrightarrow> kvs \<noteq> [] \<Longrightarrow> length kvs < n \<Longrightarrow>
    p_members n d (enc_members (member_texts kvs) @ CHR ''}'' # rest) =
      Some (map (\<lambda>(k, t, v). (to_valid k, v)) kvs, rest)"
proof (induction kvs arbitrary: n)
  case (Cons x kvs)
  obtain k t v where x: "x = (k, t, v)" by (cases x)
  obtain m where n: "n = Suc (Suc m)" using Cons.prems(3) by (cases n; cases "n - 1") auto
  have t: "scalar_text t v" using Cons.prems(1) by (simp add: scalar_members_def x)
  show ?case
  proof (cases "kvs = []")
    case True
    then show ?thesis
      using scalar_textD(1) [OF t, of "CHR ''}'' # rest"]
      by (simp add: x n skip_ws_def lex_string_enc_body enc_members_shape)
  next
    case False
    then have "p_members (Suc m) d (enc_members (member_texts kvs) @ CHR ''}'' # rest) =
        Some (map (\<lambda>(k, t, v). (to_valid k, v)) kvs, rest)"
      using Cons.prems by (intro Cons.IH) (simp_all add: scalar_members_def n)
    then show ?thesis
      using False scalar_textD(1) [OF t, of "CHR '','' # enc_members (member_texts kvs) @ CHR ''}'' # rest"]
      by (simp add: x n skip_ws_def lex_string_enc_body enc_members_shape)
  qed
qed simp

lemma length_enc_members: "2 * length kts \<le> length (enc_members kts)"
  by (induction kts rule: enc_members.induct) (simp_all add: enc_string_def)

lemma enc_members_head: "kts \<noteq> [] \<Longrightarrow> enc_members kts @ r = chr 34 # tl (enc_members kts @ r)"
  by (cases kts; cases "hd kts") (simp_all add: enc_members_shape)

lemma json_value_enc_object:
  assumes "scalar_members kvs"
  shows "json_value (enc_object (member_texts kvs) @ rest) =
    Some (JObj (map (\<lambda>(k, t, v). (to_valid k, v)) kvs), rest)"
proof (cases "kvs = []")
  case True
  then show ?thesis
    by (simp add: json_value_def enc_object_def skip_ws_def max_depth_def) (simp add: chr_eval)
next
  case False
  let ?body = "enc_members (member_texts kvs)"
  obtain r where r: "?body @ CHR ''}'' # rest = chr 34 # r"
    using False enc_members_head [of "member_texts kvs" "CHR ''}'' # rest"] by auto
  have ne: "\<not> has_prefix ''}'' (skip_ws (?body @ CHR ''}'' # rest))"
    unfolding r by (simp add: skip_ws_def) (simp add: chr_eval)
  have "length kvs < 2 * length (enc_object (member_texts kvs) @ rest)"
    using length_enc_members [of "member_texts kvs"] by (simp add: enc_object_def)
  from p_members_enc [OF assms False this, of "Suc 0" rest] ne show ?thesis
    by (simp add: json_value_def enc_object_def skip_ws_def max_depth_def) (simp add: chr_eval)
qed

lemma json_parse_enc_object:
  "scalar_members kvs \<Longrightarrow>
    json_parse (enc_object (member_texts kvs)) = Some (JObj (map (\<lambda>(k, t, v). (to_valid k, v)) kvs))"
  using json_value_enc_object [of kvs "[]"] by (simp add: json_parse_def skip_ws_def)

lemma json_decode_enc_object:
  "scalar_members kvs \<Longrightarrow>
    json_decode (enc_object (member_texts kvs) @ rest) =
      Some (JObj (map (\<lambda>(k, t, v). (to_valid k, v)) kvs))"
  by (simp add: json_decode_def json_value_enc_object)

section \<open>Maps of raw messages\<close>

text \<open>
  The members of an object with the text of each value (\<open>json.RawMessage\<close>): what lies
  between the white space before the value and the end of the value.
\<close>

fun p_raw :: "nat \<Rightarrow> nat \<Rightarrow> string \<Rightarrow> ((string \<times> string) list \<times> string) option" where
  "p_raw 0 d s = None"
| "p_raw (Suc n) d s =
     (case skip_ws s of
        [] \<Rightarrow> None
      | q # t \<Rightarrow>
          if q \<noteq> chr 34 then None
          else (case lex_string t of
             None \<Rightarrow> None
           | Some (k, r) \<Rightarrow>
               (case skip_ws r of
                  [] \<Rightarrow> None
                | c # r1 \<Rightarrow>
                    if c \<noteq> CHR '':'' then None
                    else (case p_value n d r1 of
                       None \<Rightarrow> None
                     | Some (v, r2) \<Rightarrow>
                         (let raw = take (length (skip_ws r1) - length r2) (skip_ws r1)
                          in case skip_ws r2 of
                               [] \<Rightarrow> None
                             | e # r3 \<Rightarrow>
                                 if e = CHR ''}'' then Some ([(k, raw)], r3)
                                 else if e = CHR '','' then
                                   map_option (\<lambda>(ms, u). ((k, raw) # ms, u)) (p_raw n d r3)
                                 else None)))))"

definition raw_members :: "string \<Rightarrow> (string \<times> string) list" where
  "raw_members s =
     (let t = tl (skip_ws s)
      in if has_prefix ''}'' (skip_ws t) then []
         else case p_raw (2 * length s) 1 t of Some (ms, _) \<Rightarrow> ms | None \<Rightarrow> [])"

definition json_syntax_error :: "go_lib \<Rightarrow> string \<Rightarrow> string \<Rightarrow> go_error" where
  "json_syntax_error U ty s = ErrForeign ''*json.SyntaxError'' (json_error_text U ty s) []"

definition json_type_error :: "go_lib \<Rightarrow> string \<Rightarrow> string \<Rightarrow> go_error" where
  "json_type_error U ty s = ErrForeign ''*json.UnmarshalTypeError'' (json_error_text U ty s) []"

text \<open>\<open>json.Unmarshal\<close> into a nil \<open>map[string]json.RawMessage\<close>; \<open>None\<close> is the nil map.\<close>

definition unmarshal_raw_map :: "go_lib \<Rightarrow> string \<Rightarrow> go_error + string gomap option" where
  "unmarshal_raw_map U s =
     (case json_parse s of
        None \<Rightarrow> Inl (json_syntax_error U ''map[string]json.RawMessage'' s)
      | Some JNull \<Rightarrow> Inr None
      | Some (JObj _) \<Rightarrow> Inr (Some (gm_of_list (raw_members s)))
      | Some _ \<Rightarrow> Inl (json_type_error U ''map[string]json.RawMessage'' s))"

text \<open>\<open>appendCompact\<close> with HTML escaping, on a valid text; the flag says whether the scan is
  inside a string literal.\<close>

fun compact_text :: "bool \<Rightarrow> string \<Rightarrow> string" where
  "compact_text q [] = []"
| "compact_text False (c # s) =
     (if json_ws c then compact_text False s else c # compact_text (c = chr 34) s)"
| "compact_text True (c # s) =
     (if c = chr 92 then
        (case s of [] \<Rightarrow> [c] | e # t \<Rightarrow> c # e # compact_text True t)
      else if c = chr 34 then c # compact_text False s
      else if c = CHR ''<'' \<or> c = CHR ''>'' \<or> c = CHR ''&''
        then [chr 92, CHR ''u''] @ hex_fixed 4 (ord c) @ compact_text True s
      else if c = chr 0xE2 \<and> take 2 s = [chr 0x80, chr 0xA8]
        then [chr 92, CHR ''u''] @ hex_fixed 4 0x2028 @ compact_text True (drop 2 s)
      else if c = chr 0xE2 \<and> take 2 s = [chr 0x80, chr 0xA9]
        then [chr 92, CHR ''u''] @ hex_fixed 4 0x2029 @ compact_text True (drop 2 s)
      else c # compact_text True s)"

definition marshal_raw :: "go_lib \<Rightarrow> string \<Rightarrow> go_error + string" where
  "marshal_raw U raw =
     (if json_parse raw = None
      then Inl (ErrForeign ''*json.MarshalerError'' (json_error_text U ''json.RawMessage'' raw) [])
      else Inr (compact_text False raw))"

fun marshal_raws :: "go_lib \<Rightarrow> (string \<times> string) list \<Rightarrow> go_error + (string \<times> string) list" where
  "marshal_raws U [] = Inr []"
| "marshal_raws U ((k, raw) # m) =
     (case marshal_raw U raw of
        Inl e \<Rightarrow> Inl e
      | Inr t \<Rightarrow> (case marshal_raws U m of Inl e \<Rightarrow> Inl e | Inr ts \<Rightarrow> Inr ((k, t) # ts)))"

definition marshal_raw_map :: "go_lib \<Rightarrow> string gomap option \<Rightarrow> go_error + string" where
  "marshal_raw_map U m =
     (case m of
        None \<Rightarrow> Inr ''null''
      | Some kvs \<Rightarrow> (case marshal_raws U kvs of Inl e \<Rightarrow> Inl e | Inr ts \<Rightarrow> Inr (enc_object ts)))"

section \<open>Scalar values\<close>

text \<open>The values a step may store: a channel or a function is what \<open>json.Marshal\<close> refuses.\<close>

datatype go_value = GStr string | GInt int64 | GBool bool | GNil | GUnsupported string

fun marshal :: "go_value \<Rightarrow> go_error + string" where
  "marshal (GStr s) = Inr (enc_string s)"
| "marshal (GInt i) = Inr (itoa (sint i))"
| "marshal (GBool b) = Inr (enc_bool b)"
| "marshal GNil = Inr ''null''"
| "marshal (GUnsupported ty) =
     Inl (ErrForeign ''*json.UnsupportedTypeError'' (''json: unsupported type: '' @ ty) [])"

fun json_of :: "go_value \<Rightarrow> json" where
  "json_of (GStr s) = JStr (to_valid s)"
| "json_of (GInt i) = JNum (itoa (sint i))"
| "json_of (GBool b) = JBool b"
| "json_of _ = JNull"

lemma marshal_scalar_text: "marshal v = Inr t \<Longrightarrow> scalar_text t (json_of v)"
  using scalar_text_string scalar_text_itoa scalar_text_bool scalar_text_null
  by (cases v) auto

text \<open>
  Decoding a value into a variable: the new contents, and whether a type error was
  recorded. \<open>null\<close> leaves a variable that is no pointer, map or slice as it is.
\<close>

type_synonym 'a decoder = "json \<Rightarrow> 'a \<Rightarrow> 'a \<times> bool"

fun dec_string :: "string decoder" where
  "dec_string (JStr s) v = (s, False)"
| "dec_string JNull v = (v, False)"
| "dec_string _ v = (v, True)"

fun dec_int :: "int64 decoder" where
  "dec_int (JNum l) v = (case parse_int64 l of Some i \<Rightarrow> (i, False) | None \<Rightarrow> (v, True))"
| "dec_int JNull v = (v, False)"
| "dec_int _ v = (v, True)"

fun dec_bool :: "bool decoder" where
  "dec_bool (JBool b) v = (b, False)"
| "dec_bool JNull v = (v, False)"
| "dec_bool _ v = (v, True)"

definition json_unmarshal :: "go_lib \<Rightarrow> string \<Rightarrow> 'a decoder \<Rightarrow> string \<Rightarrow> 'a \<Rightarrow> go_error option \<times> 'a" where
  "json_unmarshal U ty dec s v =
     (case json_parse s of
        None \<Rightarrow> (Some (json_syntax_error U ty s), v)
      | Some j \<Rightarrow>
          (case dec j v of
             (v', bad) \<Rightarrow> (if bad then Some (json_type_error U ty s) else None, v')))"

section \<open>Round trip of a map of scalars\<close>

lemma p_raw_enc:
  "scalar_members kvs \<Longrightarrow> kvs \<noteq> [] \<Longrightarrow> length kvs < n \<Longrightarrow>
    p_raw n d (enc_members (member_texts kvs) @ CHR ''}'' # rest) =
      Some (map (\<lambda>(k, t, v). (to_valid k, t)) kvs, rest)"
proof (induction kvs arbitrary: n)
  case (Cons x kvs)
  obtain k t v where x: "x = (k, t, v)" by (cases x)
  obtain m where n: "n = Suc (Suc m)" using Cons.prems(3) by (cases n; cases "n - 1") auto
  have t: "scalar_text t v" using Cons.prems(1) by (simp add: scalar_members_def x)
  have ws: "skip_ws (t @ u) = t @ u" for u by (rule scalar_textD(2) [OF t])
  show ?case
  proof (cases "kvs = []")
    case True
    then show ?thesis
      using scalar_textD(1) [OF t, of "CHR ''}'' # rest"] ws [of "CHR ''}'' # rest"]
      by (simp add: x n lex_string_enc_body enc_members_shape skip_ws_id [of "_ # _"])
  next
    case False
    let ?u = "CHR '','' # enc_members (member_texts kvs) @ CHR ''}'' # rest"
    have "p_raw (Suc m) d (enc_members (member_texts kvs) @ CHR ''}'' # rest) =
        Some (map (\<lambda>(k, t, v). (to_valid k, t)) kvs, rest)"
      using Cons.prems False by (intro Cons.IH) (simp_all add: scalar_members_def n)
    then show ?thesis
      using False scalar_textD(1) [OF t, of ?u] ws [of ?u]
      by (simp add: x n lex_string_enc_body enc_members_shape skip_ws_id [of "_ # _"])
  qed
qed simp

lemma raw_members_enc_object:
  assumes "scalar_members kvs"
  shows "raw_members (enc_object (member_texts kvs)) = map (\<lambda>(k, t, v). (to_valid k, t)) kvs"
proof (cases "kvs = []")
  case True
  then show ?thesis by (simp add: raw_members_def enc_object_def skip_ws_id)
next
  case False
  let ?body = "enc_members (member_texts kvs)"
  obtain r where r: "?body @ ''}'' = chr 34 # r"
    using False enc_members_head [of "member_texts kvs" "''}''"] by auto
  have ne: "\<not> has_prefix ''}'' (skip_ws (?body @ ''}''))"
    unfolding r by (simp add: skip_ws_def) (simp add: chr_eval)
  have "length kvs < 2 * length (enc_object (member_texts kvs))"
    using length_enc_members [of "member_texts kvs"] by (simp add: enc_object_def)
  from p_raw_enc [OF assms False this, of 1 "[]"] ne show ?thesis
    by (simp add: raw_members_def skip_ws_id enc_object_def)
qed

lemma unmarshal_enc_object:
  assumes "scalar_members kvs" and "\<And>k t v. (k, t, v) \<in> set kvs \<Longrightarrow> utf8_valid k"
  shows "unmarshal_raw_map U (enc_object (member_texts kvs)) = Inr (Some (gm_of_list (member_texts kvs)))"
proof -
  have "map (\<lambda>(k, t, v). (to_valid k, t)) kvs = member_texts kvs"
    using assms(2) by (auto simp: to_valid_id)
  then show ?thesis
    using assms(1)
    by (simp only: unmarshal_raw_map_def json_parse_enc_object raw_members_enc_object
        option.case json.case)
qed

text \<open>What a scalar writes is already compact.\<close>

lemma compact_plain:
  assumes "\<And>c. c \<in> set s \<Longrightarrow> \<not> json_ws c \<and> c \<noteq> chr 34"
  shows "compact_text False s = s"
  using assms
proof (induction s)
  case (Cons c s)
  then have "\<not> json_ws c" "c \<noteq> chr 34" by simp_all
  with Cons show ?case by simp
qed simp

lemma compact_hex:
  "compact_text True (chr 92 # CHR ''u'' # hex_fixed 4 n @ s) =
    chr 92 # CHR ''u'' # hex_fixed 4 n @ compact_text True s"
proof -
  have f: "hex_fixed 4 n = [hex_digit (n div 4096 mod 16), hex_digit (n div 256 mod 16),
      hex_digit (n div 16 mod 16), hex_digit (n mod 16)]"
    by (simp add: hex_fixed_def upt_rec)
  have "compact_text True (hex_digit k # u) = hex_digit k # compact_text True u" if "k < 16" for k u
  proof -
    have "ord (hex_digit k) \<in> {48..57} \<union> {97..102}"
      using ord_hex_digit [of k] that by (cases "k < 10") auto
    moreover have "hex_digit k \<noteq> chr 92 \<and> hex_digit k \<noteq> chr 34 \<and> hex_digit k \<noteq> CHR ''<'' \<and>
        hex_digit k \<noteq> CHR ''>'' \<and> hex_digit k \<noteq> CHR ''&'' \<and> hex_digit k \<noteq> chr 0xE2"
      using calculation by (auto simp: ord_chr)
    ultimately show ?thesis by simp
  qed
  then show ?thesis by (simp add: f)
qed

lemma compact_copy:
  assumes "c \<noteq> chr 92" "c \<noteq> chr 34" "c \<noteq> CHR ''<''" "c \<noteq> CHR ''>''" "c \<noteq> CHR ''&''"
    and "c = chr 0xE2 \<Longrightarrow> take 2 s \<noteq> [chr 0x80, chr 0xA8] \<and> take 2 s \<noteq> [chr 0x80, chr 0xA9]"
  shows "compact_text True (c # s) = c # compact_text True s"
  using assms by auto

lemma byte_eq_iff: "m < 256 \<Longrightarrow> n < 256 \<Longrightarrow> chr m = chr n \<longleftrightarrow> m = n"
  by (metis ord_chr)

lemma compact_copy_high:
  assumes "0x80 \<le> k" "k < 256"
    and "k = 0xE2 \<Longrightarrow> take 2 s \<noteq> [chr 0x80, chr 0xA8] \<and> take 2 s \<noteq> [chr 0x80, chr 0xA9]"
  shows "compact_text True (chr k # s) = chr k # compact_text True s"
proof (rule compact_copy)
  have k: "ord (chr k) = k" using assms by (simp add: ord_chr)
  have ne: "chr k \<noteq> c" if "ord c < 0x80" for c
    using k assms(1) that by (metis not_less)
  show "chr k \<noteq> chr 92" "chr k \<noteq> chr 34" "chr k \<noteq> CHR ''<''" "chr k \<noteq> CHR ''>''" "chr k \<noteq> CHR ''&''"
    by (rule ne, simp)+
  assume "chr k = chr 0xE2"
  then have "k = 0xE2" using byte_eq_iff [OF assms(2)] by simp
  then show "take 2 s \<noteq> [chr 0x80, chr 0xA8] \<and> take 2 s \<noteq> [chr 0x80, chr 0xA9]" by (rule assms(3))
qed

lemma compact_encode_scalar:
  assumes "scalar r" "0x80 \<le> r" "r \<noteq> 0x2028" "r \<noteq> 0x2029"
  shows "compact_text True (encode_scalar r @ s) = encode_scalar r @ compact_text True s"
proof -
  have r: "r < 0x110000" using scalar_less [OF assms(1)] .
  have cont: "compact_text True (chr (0x80 + k mod 64) # u) = chr (0x80 + k mod 64) # compact_text True u" for k u
  proof -
    have "k mod 64 < 64" by simp
    then have "0x80 + k mod 64 < 256" "0x80 + k mod 64 \<noteq> 0xE2" by linarith+
    then show ?thesis by (intro compact_copy_high) simp_all
  qed
  consider "r < 0x800" | "0x800 \<le> r" "r < 0x10000" | "0x10000 \<le> r" by linarith
  then show ?thesis
  proof cases
    case 1
    have "compact_text True (chr (0xC0 + r div 64) # u) = chr (0xC0 + r div 64) # compact_text True u" for u
      by (rule compact_copy_high) (use 1 in simp_all)
    with 1 assms(2) show ?thesis by (simp add: encode_scalar_def cont del: compact_text.simps)
  next
    case 2
    have "compact_text True (chr (0xE0 + r div 4096) # chr (0x80 + r div 64 mod 64) # chr (0x80 + r mod 64) # s) =
      chr (0xE0 + r div 4096) # compact_text True (chr (0x80 + r div 64 mod 64) # chr (0x80 + r mod 64) # s)"
    proof (rule compact_copy_high)
      show "0xE0 + r div 4096 < 256" using 2 by simp
      assume e: "0xE0 + r div 4096 = 0xE2"
      have "r div 4096 = r div 64 div 64" by (simp add: div_mult2_eq [symmetric])
      then have "r = 4096 * (r div 4096) + 64 * (r div 64 mod 64) + r mod 64"
        using mult_div_mod_eq [of 64 r] mult_div_mod_eq [of 64 "r div 64"] by linarith
      with e assms have "\<not> (r div 64 mod 64 = 0 \<and> (r mod 64 = 0x28 \<or> r mod 64 = 0x29))" by auto
      moreover have "r div 64 mod 64 < 64" "r mod 64 < 64" by simp_all
      ultimately show "take 2 (chr (0x80 + r div 64 mod 64) # chr (0x80 + r mod 64) # s) \<noteq> [chr 0x80, chr 0xA8] \<and>
          take 2 (chr (0x80 + r div 64 mod 64) # chr (0x80 + r mod 64) # s) \<noteq> [chr 0x80, chr 0xA9]"
        by (auto simp: numeral_2_eq_2 byte_eq_iff)
    qed simp
    with 2 show ?thesis by (simp add: encode_scalar_def cont del: compact_text.simps)
  next
    case 3
    have "compact_text True (chr (0xF0 + r div 262144) # u) = chr (0xF0 + r div 262144) # compact_text True u" for u
      by (rule compact_copy_high) (use 3 r in simp_all)
    with 3 show ?thesis by (simp add: encode_scalar_def cont del: compact_text.simps)
  qed
qed

lemma compact_enc_ascii:
  assumes "ord c < 0x80"
  shows "compact_text True (enc_ascii c @ s) = enc_ascii c @ compact_text True s"
proof -
  have "c \<noteq> chr 0xE2" using assms by (auto simp: ord_chr)
  moreover have "c \<noteq> chr 92 \<Longrightarrow> c \<noteq> chr 34 \<Longrightarrow> c \<noteq> CHR ''<'' \<Longrightarrow> c \<noteq> CHR ''>'' \<Longrightarrow> c \<noteq> CHR ''&'' \<Longrightarrow>
      compact_text True (c # s) = c # compact_text True s"
    using calculation by (intro compact_copy) simp_all
  ultimately show ?thesis
    by (simp add: enc_ascii_def compact_hex del: compact_text.simps) (auto simp: compact_text.simps)
qed

lemma compact_enc_rune:
  assumes "s \<noteq> []"
  shows "compact_text True (enc_rune s @ u) = enc_rune s @ compact_text True u"
proof (cases "ord (hd s) < 0x80")
  case True
  then show ?thesis by (simp add: enc_rune_def Let_def compact_enc_ascii del: decode_rune.simps)
next
  case False
  show ?thesis
  proof (cases "valid_head s \<and> fst (decode_rune s) \<noteq> 0x2028 \<and> fst (decode_rune s) \<noteq> 0x2029")
    case True
    note r = encode_decode_rune [OF assms conjunct1 [OF True]]
    have hd: "hd (encode_scalar (fst (decode_rune s))) = hd s"
      using r(1) decode_rune_width [OF assms] by (cases s) (auto simp del: decode_rune.simps)
    have "0x80 \<le> fst (decode_rune s)"
    proof (rule ccontr)
      assume "\<not> 0x80 \<le> fst (decode_rune s)"
      then have "encode_scalar (fst (decode_rune s)) = [chr (fst (decode_rune s))]" and "fst (decode_rune s) < 256"
        by (simp_all add: encode_scalar_def del: decode_rune.simps)
      with hd have "hd s = chr (fst (decode_rune s))" by simp
      then have "ord (hd s) = fst (decode_rune s)"
        using ord_chr [OF \<open>fst (decode_rune s) < 256\<close>] by simp
      with False \<open>\<not> 0x80 \<le> fst (decode_rune s)\<close> show False by simp
    qed
    with True False r(2) show ?thesis
      by (simp add: enc_rune_def Let_def compact_encode_scalar del: decode_rune.simps)
  next
    case esc: False
    then have "\<exists>n. enc_rune s = [chr 92, CHR ''u''] @ hex_fixed 4 n"
      using False by (auto simp: enc_rune_def Let_def simp del: decode_rune.simps)
    then show ?thesis by (auto simp: compact_hex simp del: compact_text.simps)
  qed
qed

lemma compact_enc_body: "compact_text True (enc_body s @ u) = enc_body s @ compact_text True u"
proof (induction s rule: rune_induct)
  case Nil
  then show ?case by (simp add: enc_body.simps [of "[]"])
next
  case (rune s)
  then show ?case
    by (simp add: enc_body.simps [of s] compact_enc_rune del: decode_rune.simps)
qed

lemma compact_enc_string: "compact_text False (enc_string s @ u) = enc_string s @ compact_text False u"
proof -
  have "compact_text True (chr 34 # u) = chr 34 # compact_text False u" by (simp add: chr_eval)
  then show ?thesis
    by (simp add: enc_string_def compact_enc_body del: compact_text.simps(3))
qed

lemma compact_itoa: "compact_text False (itoa i) = itoa i"
proof (rule compact_plain)
  fix c assume "c \<in> set (itoa i)"
  then have "is_digit c \<or> c = CHR ''-''"
    using show_nat_digits by (auto simp: itoa_def list_all_iff split: if_splits)
  then show "\<not> json_ws c \<and> c \<noteq> chr 34" by (auto simp: json_ws_digit is_digit_def) (simp add: chr_eval)
qed

lemma marshal_compact: "marshal v = Inr t \<Longrightarrow> compact_text False t = t"
  using compact_enc_string [of _ "[]"] compact_itoa
  by (cases v) (auto simp: enc_bool_def chr_eval json_ws_def split: if_splits)

text \<open>A map of scalars, as every step of the program keeps it.\<close>

definition scalar_map :: "string gomap \<Rightarrow> bool" where
  "scalar_map m \<longleftrightarrow> gm_wf m \<and>
     list_all (\<lambda>(k, t). utf8_valid k \<and> (\<exists>v. marshal v = Inr t)) m"

lemma scalar_text_parse: "scalar_text t v \<Longrightarrow> json_parse t = Some v"
  using scalar_textD(1) [of t v "[]" "2 * length t" 0]
  by (simp add: json_parse_def json_value_def skip_ws_def)

lemma gm_of_list_id: "gm_wf m \<Longrightarrow> gm_of_list m = m"
proof (rule gm_ext [OF gm_wf_of_list])
  fix k
  assume m: "gm_wf m"
  then have "map_of (rev m) = map_of m"
    by (subst map_of_inject_set) (simp_all add: gm_wf_def rev_map [symmetric])
  then show "gm_get (gm_of_list m) k = gm_get m k"
    by (simp only: gm_get_of_list) (simp add: gm_get_def)
qed

lemma marshal_raw_scalar: "marshal v = Inr t \<Longrightarrow> marshal_raw U t = Inr t"
  using scalar_text_parse [OF marshal_scalar_text] by (simp add: marshal_raw_def marshal_compact)

lemma marshal_raws_scalars:
  "list_all (\<lambda>(k, t). \<exists>v. marshal v = Inr t) m \<Longrightarrow> marshal_raws U m = Inr m"
  by (induction m) (auto simp: marshal_raw_scalar)

lemma scalar_map_members:
  assumes "scalar_map m"
  obtains kvs where "m = member_texts kvs" and "scalar_members kvs"
    and "\<And>k t v. (k, t, v) \<in> set kvs \<Longrightarrow> utf8_valid k"
proof -
  have "\<exists>kvs. m = member_texts kvs \<and> scalar_members kvs \<and> (\<forall>(k, t, v)\<in>set kvs. utf8_valid k)"
    if "list_all (\<lambda>(k, t). utf8_valid k \<and> (\<exists>v. marshal v = Inr t)) m"
    using that
  proof (induction m)
    case (Cons x m)
    then obtain kvs where kvs: "m = member_texts kvs" "scalar_members kvs"
      "\<forall>(k, t, v)\<in>set kvs. utf8_valid k" by auto
    obtain k t where x: "x = (k, t)" by (cases x)
    with Cons.prems obtain v where "marshal v = Inr t" "utf8_valid k" by auto
    with kvs x show ?case
      by (intro exI [of _ "(k, t, json_of v) # kvs"]) (auto simp: scalar_members_def marshal_scalar_text)
  qed (simp add: scalar_members_def)
  with assms that show thesis unfolding scalar_map_def by blast
qed

lemma marshal_unmarshal_raw_map:
  assumes "scalar_map m"
  shows "marshal_raw_map U (Some m) = Inr (enc_object m)"
    and "unmarshal_raw_map U' (enc_object m) = Inr (Some m)"
proof -
  from assms have m: "gm_wf m" "list_all (\<lambda>(k, t). \<exists>v. marshal v = Inr t) m"
    by (auto simp: scalar_map_def list_all_iff)
  show "marshal_raw_map U (Some m) = Inr (enc_object m)"
    using marshal_raws_scalars [OF m(2)] by (simp add: marshal_raw_map_def)
  obtain kvs where kvs: "m = member_texts kvs" "scalar_members kvs"
    "\<And>k t v. (k, t, v) \<in> set kvs \<Longrightarrow> utf8_valid k"
    using scalar_map_members [OF assms] by metis
  show "unmarshal_raw_map U' (enc_object m) = Inr (Some m)"
    using unmarshal_enc_object [OF kvs(2,3), where U = U'] gm_of_list_id [OF m(1)] unfolding kvs(1) by simp
qed

section \<open>Decoding into structs\<close>

text \<open>
  The name under which a key is looked up when no field has it exactly: ASCII letters in
  upper case, other characters by Go's folding table.
\<close>

definition fold_rune :: "go_lib \<Rightarrow> nat \<Rightarrow> nat" where
  "fold_rune U r = (if r < 0x80 then (if 97 \<le> r \<and> r \<le> 122 then r - 32 else r) else uni_fold U r)"

definition fold_name :: "go_lib \<Rightarrow> string \<Rightarrow> string" where
  "fold_name U k = map_runes (fold_rune U) k"

definition find_field :: "go_lib \<Rightarrow> (string \<times> 'a decoder) list \<Rightarrow> string \<Rightarrow> 'a decoder option" where
  "find_field U fs k =
     (case map_of fs k of
        Some d \<Rightarrow> Some d
      | None \<Rightarrow> map_of (map (\<lambda>(n, d). (fold_name U n, d)) fs) (fold_name U k))"

fun dec_members :: "go_lib \<Rightarrow> (string \<times> 'a decoder) list \<Rightarrow> (string \<times> json) list \<Rightarrow> 'a \<Rightarrow> 'a \<times> bool" where
  "dec_members U fs [] v = (v, False)"
| "dec_members U fs ((k, j) # ms) v =
     (case find_field U fs k of
        None \<Rightarrow> dec_members U fs ms v
      | Some d \<Rightarrow>
          (case d j v of
             (v', bad) \<Rightarrow>
               (case dec_members U fs ms v' of (v'', bad') \<Rightarrow> (v'', bad \<or> bad'))))"

fun dec_struct :: "go_lib \<Rightarrow> (string \<times> 'a decoder) list \<Rightarrow> 'a decoder" where
  "dec_struct U fs (JObj ms) v = dec_members U fs ms v"
| "dec_struct U fs JNull v = (v, False)"
| "dec_struct U fs _ v = (v, True)"

text \<open>A decoder of a field, given the field's selector and update.\<close>

definition on_field :: "('a \<Rightarrow> 'b) \<Rightarrow> (('b \<Rightarrow> 'b) \<Rightarrow> 'a \<Rightarrow> 'a) \<Rightarrow> 'b decoder \<Rightarrow> 'a decoder" where
  "on_field get upd d j v = (case d j (get v) of (x, bad) \<Rightarrow> (upd (\<lambda>_. x) v, bad))"

text \<open>
  A slice is its backing array, without the zero values at its end, and its length. The
  elements are decoded in place, over what the array holds: an array that was decoded
  before (a repeated key, an earlier attempt) shows through where the new elements say
  nothing.
\<close>

type_synonym 'e slice = "'e list \<times> nat"

fun dec_elems :: "'e decoder \<Rightarrow> 'e \<Rightarrow> json list \<Rightarrow> 'e list \<Rightarrow> 'e list \<times> bool" where
  "dec_elems d zero [] back = (back, False)"
| "dec_elems d zero (j # js) back =
     (case d j (if back = [] then zero else hd back) of
        (e, bad) \<Rightarrow>
          (case dec_elems d zero js (tl back) of (es, bad') \<Rightarrow> (e # es, bad \<or> bad')))"

fun dec_slice :: "'e decoder \<Rightarrow> 'e \<Rightarrow> 'e slice decoder" where
  "dec_slice d zero (JArr js) (back, _) =
     (if js = [] then (([], 0), False)
      else case dec_elems d zero js back of (es, bad) \<Rightarrow> ((es, length js), bad))"
| "dec_slice d zero JNull _ = (([], 0), False)"
| "dec_slice d zero _ v = (v, True)"

definition slice_elems :: "'e slice \<Rightarrow> 'e list" where
  "slice_elems s = take (snd s) (fst s)"

text \<open>
  \<open>Decoder.Decode\<close> reads the first value of the stream and ignores what follows it. The
  stream is the text it holds, or the error its reading ends in before a value is complete.
\<close>

type_synonym body_stream = "go_error + string"

definition json_decode_into :: "go_lib \<Rightarrow> string \<Rightarrow> 'a decoder \<Rightarrow> body_stream \<Rightarrow> 'a \<Rightarrow>
    go_error option \<times> 'a" where
  "json_decode_into U ty dec body v =
     (case body of
        Inl e \<Rightarrow> (Some e, v)
      | Inr s \<Rightarrow>
          (case json_decode s of
             None \<Rightarrow> (Some (json_syntax_error U ty s), v)
           | Some j \<Rightarrow>
               (case dec j v of
                  (v', bad) \<Rightarrow> (if bad then Some (json_type_error U ty s) else None, v'))))"

section \<open>Laws of struct decoding\<close>

lemma find_field_exact: "map_of fs k = Some d \<Longrightarrow> find_field U fs k = Some d"
  by (simp add: find_field_def)

lemma dec_members_append:
  "dec_members U fs (ms @ ns) v =
    (case dec_members U fs ms v of
       (v', bad) \<Rightarrow> (case dec_members U fs ns v' of (v'', bad') \<Rightarrow> (v'', bad \<or> bad')))"
  by (induction U fs ms v rule: dec_members.induct) (auto split: option.splits prod.splits)

text \<open>A repeated key: the later member is decoded over what the earlier one left.\<close>

lemma dec_string_idem: "snd (dec_string j v) = False \<Longrightarrow> j \<noteq> JNull \<Longrightarrow> dec_string j w = dec_string j v"
  by (cases j) auto

lemma dec_int_itoa: "dec_int (JNum (itoa (sint i))) v = (i, False)"
  by (simp add: parse_int64_itoa_sint)

lemma json_unmarshal_scalar:
  "scalar_text t j \<Longrightarrow> json_unmarshal U ty dec t v =
    (case dec j v of (v', bad) \<Rightarrow> (if bad then Some (json_type_error U ty t) else None, v'))"
  by (simp add: json_unmarshal_def scalar_text_parse)

section \<open>Structs of scalars\<close>

text \<open>\<open>json.Marshal\<close> of a struct of scalars.\<close>

fun marshal_members :: "(string \<times> go_value) list \<Rightarrow> go_error + (string \<times> string) list" where
  "marshal_members [] = Inr []"
| "marshal_members ((k, v) # kvs) =
     (case marshal v of
        Inl e \<Rightarrow> Inl e
      | Inr t \<Rightarrow> (case marshal_members kvs of Inl e \<Rightarrow> Inl e | Inr kts \<Rightarrow> Inr ((k, t) # kts)))"

definition marshal_struct :: "(string \<times> go_value) list \<Rightarrow> go_error + string" where
  "marshal_struct kvs = map_sum (\<lambda>e. e) enc_object (marshal_members kvs)"

fun representable :: "go_value \<Rightarrow> bool" where
  "representable (GUnsupported _) = False"
| "representable _ = True"

definition text_of :: "go_value \<Rightarrow> string" where
  "text_of v = (case marshal v of Inr t \<Rightarrow> t | Inl _ \<Rightarrow> [])"

definition member_triples :: "(string \<times> go_value) list \<Rightarrow> (string \<times> string \<times> json) list" where
  "member_triples kvs = map (\<lambda>(k, v). (k, text_of v, json_of v)) kvs"

lemma marshal_text_of: "representable v \<Longrightarrow> marshal v = Inr (text_of v)"
  by (cases v) (simp_all add: text_of_def)

lemma marshal_struct_scalars:
  assumes "list_all (\<lambda>(k, v). representable v) kvs"
  shows "marshal_struct kvs = Inr (enc_object (member_texts (member_triples kvs)))"
    and "scalar_members (member_triples kvs)"
proof -
  have "marshal_members kvs = Inr (member_texts (member_triples kvs))"
    using assms by (induction kvs) (auto simp: member_triples_def marshal_text_of)
  then show "marshal_struct kvs = Inr (enc_object (member_texts (member_triples kvs)))"
    by (simp add: marshal_struct_def)
  show "scalar_members (member_triples kvs)"
    using assms by (induction kvs)
      (auto simp: member_triples_def scalar_members_def marshal_scalar_text marshal_text_of)
qed

lemma json_parse_struct:
  assumes "list_all (\<lambda>(k, v). representable v \<and> utf8_valid k) kvs"
  shows "json_parse (enc_object (member_texts (member_triples kvs))) =
    Some (JObj (map (\<lambda>(k, v). (k, json_of v)) kvs))"
proof -
  have "map (\<lambda>(k, t, v). (to_valid k, v)) (member_triples kvs) = map (\<lambda>(k, v). (k, json_of v)) kvs"
    using assms by (auto simp: member_triples_def list_all_iff to_valid_id)
  moreover have "scalar_members (member_triples kvs)"
    using assms by (intro marshal_struct_scalars(2)) (auto simp: list_all_iff)
  ultimately show ?thesis by (simp only: json_parse_enc_object)
qed

lemma unmarshal_struct:
  assumes "list_all (\<lambda>(k, v). representable v \<and> utf8_valid k) kvs"
  shows "unmarshal_raw_map U (enc_object (member_texts (member_triples kvs))) =
    Inr (Some (gm_of_list (map (\<lambda>(k, v). (k, text_of v)) kvs)))"
proof -
  have "scalar_members (member_triples kvs)"
    using assms by (intro marshal_struct_scalars(2)) (auto simp: list_all_iff)
  then have "unmarshal_raw_map U (enc_object (member_texts (member_triples kvs))) =
    Inr (Some (gm_of_list (member_texts (member_triples kvs))))"
    by (rule unmarshal_enc_object) (use assms in \<open>auto simp: member_triples_def list_all_iff\<close>)
  moreover have "member_texts (member_triples kvs) = map (\<lambda>(k, v). (k, text_of v)) kvs"
    by (auto simp: member_triples_def)
  ultimately show ?thesis by simp
qed

lemma scalar_map_of_list:
  assumes "list_all (\<lambda>(k, v). representable v \<and> utf8_valid k) kvs"
  shows "scalar_map (gm_of_list (map (\<lambda>(k, v). (k, text_of v)) kvs))"
proof -
  let ?m = "gm_of_list (map (\<lambda>(k, v). (k, text_of v)) kvs)"
  have "utf8_valid k \<and> (\<exists>v. marshal v = Inr t)" if "(k, t) \<in> set ?m" for k t
  proof -
    have "map_of (rev (map (\<lambda>(k, v). (k, text_of v)) kvs)) k = Some t"
      using that gm_get_in_set [OF gm_wf_of_list] gm_get_of_list by metis
    then have "(k, t) \<in> set (map (\<lambda>(k, v). (k, text_of v)) kvs)"
      by (metis map_of_SomeD set_rev)
    with assms show ?thesis by (fastforce simp: list_all_iff intro: marshal_text_of)
  qed
  then show ?thesis by (auto simp: scalar_map_def gm_wf_of_list list_all_iff)
qed

end
