(* ===== verification/JsonTexts.thy ===== *)
theory JsonTexts
  imports GoJsonCodec
begin

text \<open>
  Texts of nested JSON values: which texts the parser reads as one value, with the fuel and
  the depth it needs for that, and how the texts of objects and arrays are composed.
\<close>

definition value_text :: "nat \<Rightarrow> nat \<Rightarrow> string \<Rightarrow> json \<Rightarrow> bool" where
  "value_text b e t v \<longleftrightarrow>
     t \<noteq> [] \<and> \<not> json_ws (hd t) \<and>
     (\<forall>n d rest. b \<le> n \<longrightarrow> d + e \<le> max_depth \<longrightarrow> delimited rest \<longrightarrow> p_value (Suc n) d (t @ rest) = Some (v, rest))"

lemma value_text_scalar: "scalar_text t v \<Longrightarrow> value_text b e t v"
  by (simp add: value_text_def scalar_text_def)

lemma value_text_mono: "value_text b e t v \<Longrightarrow> b \<le> b' \<Longrightarrow> e \<le> e' \<Longrightarrow> value_text b' e' t v"
  by (simp add: value_text_def)

lemma value_textD:
  "value_text b e t v \<Longrightarrow> b \<le> n \<Longrightarrow> d + e \<le> max_depth \<Longrightarrow> delimited rest \<Longrightarrow>
    p_value (Suc n) d (t @ rest) = Some (v, rest)"
  "value_text b e t v \<Longrightarrow> skip_ws (t @ rest) = t @ rest"
  by (auto simp: value_text_def intro!: skip_ws_id)

definition value_members :: "nat \<Rightarrow> nat \<Rightarrow> (string \<times> string \<times> json) list \<Rightarrow> bool" where
  "value_members b e kvs \<longleftrightarrow> list_all (\<lambda>(k, t, v). value_text b e t v) kvs"

text \<open>The object a list of such members denotes.\<close>

abbreviation member_values :: "(string \<times> string \<times> json) list \<Rightarrow> (string \<times> json) list" where
  "member_values kvs \<equiv> map (\<lambda>(k, t, v). (to_valid k, v)) kvs"

lemma p_members_values:
  "value_members b e kvs \<Longrightarrow> kvs \<noteq> [] \<Longrightarrow> length kvs + b < n \<Longrightarrow> d + e \<le> max_depth \<Longrightarrow>
    p_members n d (enc_members (member_texts kvs) @ CHR ''}'' # rest) = Some (member_values kvs, rest)"
proof (induction kvs arbitrary: n)
  case (Cons x kvs)
  obtain k t v where x: "x = (k, t, v)" by (cases x)
  obtain m where n: "n = Suc (Suc m)" using Cons.prems(3) by (cases n; cases "n - 1") auto
  have t: "value_text b e t v" using Cons.prems(1) by (simp add: value_members_def x)
  have b: "b \<le> m" using Cons.prems(3) by (simp add: n)
  note p = value_textD(1) [OF t b Cons.prems(4)]
  show ?case
  proof (cases "kvs = []")
    case True
    then show ?thesis
      using p [of "CHR ''}'' # rest"]
      by (simp add: x n skip_ws_def lex_string_enc_body enc_members_shape)
  next
    case False
    then have "p_members (Suc m) d (enc_members (member_texts kvs) @ CHR ''}'' # rest) =
        Some (member_values kvs, rest)"
      using Cons.prems by (intro Cons.IH) (simp_all add: value_members_def n)
    then show ?thesis
      using False p [of "CHR '','' # enc_members (member_texts kvs) @ CHR ''}'' # rest"]
      by (simp add: x n skip_ws_def lex_string_enc_body enc_members_shape)
  qed
qed simp

lemma value_text_object:
  assumes "value_members b e kvs"
  shows "value_text (length kvs + b + 1) (e + 1) (enc_object (member_texts kvs)) (JObj (member_values kvs))"
proof -
  have "p_value (Suc n) d (enc_object (member_texts kvs) @ rest) = Some (JObj (member_values kvs), rest)"
    if n: "length kvs + b + 1 \<le> n" and d: "d + (e + 1) \<le> max_depth" for n d rest
  proof (cases "kvs = []")
    case True
    with d show ?thesis by (simp add: enc_object_def skip_ws_def) (simp add: chr_eval)
  next
    case False
    let ?body = "enc_members (member_texts kvs)"
    obtain r where r: "?body @ CHR ''}'' # rest = chr 34 # r"
      using False enc_members_head [of "member_texts kvs" "CHR ''}'' # rest"] by auto
    have ne: "\<not> has_prefix ''}'' (skip_ws (?body @ CHR ''}'' # rest))"
      unfolding r by (simp add: skip_ws_def) (simp add: chr_eval)
    have "p_members n (Suc d) (?body @ CHR ''}'' # rest) = Some (member_values kvs, rest)"
      using n d by (intro p_members_values [OF assms False]) simp_all
    with ne d show ?thesis by (simp add: enc_object_def skip_ws_def) (simp add: chr_eval)
  qed
  then show ?thesis by (simp add: value_text_def) (simp add: enc_object_def)
qed

text \<open>Arrays.\<close>

definition enc_array :: "string list \<Rightarrow> string" where
  "enc_array ts = CHR ''['' # join_char CHR '','' ts @ '']''"

lemma json_ws_bracket [simp]: "\<not> json_ws CHR ''[''" "\<not> json_ws CHR '']''"
  by (simp_all add: json_ws_def chr_eval)

lemma delimited_bracket [simp]: "delimited (CHR '']'' # s)"
  by (simp add: delimited_def is_digit_def)

lemma p_elems_values:
  "list_all (\<lambda>(t, v). value_text b e t v) tvs \<Longrightarrow> tvs \<noteq> [] \<Longrightarrow> length tvs + b < n \<Longrightarrow> d + e \<le> max_depth \<Longrightarrow>
    p_elems n d (join_char CHR '','' (map fst tvs) @ CHR '']'' # rest) = Some (map snd tvs, rest)"
proof (induction tvs arbitrary: n)
  case (Cons x tvs)
  obtain t v where x: "x = (t, v)" by (cases x)
  obtain m where n: "n = Suc (Suc m)" using Cons.prems(3) by (cases n; cases "n - 1") auto
  have t: "value_text b e t v" using Cons.prems(1) by (simp add: x)
  have b: "b \<le> m" using Cons.prems(3) by (simp add: n)
  note p = value_textD(1) [OF t b Cons.prems(4)]
  show ?case
  proof (cases tvs)
    case Nil
    then show ?thesis using p [of "CHR '']'' # rest"] by (simp add: x n skip_ws_def)
  next
    case (Cons y ys)
    then have "p_elems (Suc m) d (join_char CHR '','' (map fst tvs) @ CHR '']'' # rest) = Some (map snd tvs, rest)"
      using Cons.prems by (intro Cons.IH) (simp_all add: n)
    with Cons show ?thesis
      using p [of "CHR '','' # join_char CHR '','' (map fst tvs) @ CHR '']'' # rest"]
      by (simp add: x n skip_ws_def)
  qed
qed simp

lemma value_text_array:
  assumes "list_all (\<lambda>(t, v). value_text b e t v) tvs" and "tvs \<noteq> []" and "hd (fst (hd tvs)) \<noteq> CHR '']''"
  shows "value_text (length tvs + b + 1) (e + 1) (enc_array (map fst tvs)) (JArr (map snd tvs))"
proof -
  obtain t v tvs' where tvs: "tvs = (t, v) # tvs'" using assms(2) by (cases tvs) auto
  have t: "t \<noteq> []" "\<not> json_ws (hd t)" "hd t \<noteq> CHR '']''"
    using assms(1,3) by (simp_all add: tvs value_text_def)
  have "p_value (Suc n) d (enc_array (map fst tvs) @ rest) = Some (JArr (map snd tvs), rest)"
    if n: "length tvs + b + 1 \<le> n" and d: "d + (e + 1) \<le> max_depth" for n d rest
  proof -
    let ?body = "join_char CHR '','' (map fst tvs)"
    have "?body \<noteq> [] \<and> hd ?body = hd t"
      using t(1) by (cases tvs') (auto simp: tvs)
    then obtain c u where body: "?body @ CHR '']'' # rest = c # u" "c = hd t"
      by (cases ?body) auto
    have ne: "\<not> has_prefix '']'' (skip_ws (?body @ CHR '']'' # rest))"
      using t unfolding body by (auto simp: skip_ws_def)
    have "p_elems n (Suc d) (?body @ CHR '']'' # rest) = Some (map snd tvs, rest)"
      using n d by (intro p_elems_values [OF assms(1,2)]) simp_all
    with ne d show ?thesis by (simp add: enc_array_def skip_ws_def) (simp add: chr_eval)
  qed
  then show ?thesis by (simp add: value_text_def) (simp add: enc_array_def)
qed

text \<open>A whole text, with white space after it.\<close>

lemma json_value_text:
  assumes "value_text b e t v" and "e \<le> max_depth" and "delimited rest"
  shows "json_value (t @ rest) = Some (v, rest)"
proof -
  have "p_value (Suc (2 * length (t @ rest) + b)) 0 (t @ rest) = json_value (t @ rest)"
    by (rule json_value_fuel) simp
  moreover have "p_value (Suc (2 * length (t @ rest) + b)) 0 (t @ rest) = Some (v, rest)"
    using assms by (intro value_textD(1) [OF assms(1) le_add2]) simp_all
  ultimately show ?thesis by simp
qed

lemma json_parse_text:
  "value_text b e t v \<Longrightarrow> e \<le> max_depth \<Longrightarrow> delimited rest \<Longrightarrow> skip_ws rest = [] \<Longrightarrow>
    json_parse (t @ rest) = Some v"
  by (simp add: json_parse_def json_value_text)

lemma json_decode_text:
  "value_text b e t v \<Longrightarrow> e \<le> max_depth \<Longrightarrow> delimited rest \<Longrightarrow> json_decode (t @ rest) = Some v"
  by (simp add: json_decode_def json_value_text)

end
