(* ===== verification/Retry.thy ===== *)
theory Retry
  imports GoErrors
begin

unbundle bit_operations_syntax

text \<open>
  \<open>internal/retry/retry.go\<close>. A duration is an \<open>int64\<close> of nanoseconds, with the shift of
  \<open>baseDelay\<close> at that width. The function to retry is a state transformer that returns an
  error or nil. What the loop cannot compute itself is the record \<open>retry_env\<close>: for the
  \<open>i\<close>-th wait, the error of the context when the \<open>select\<close> takes \<open>ctx.Done()\<close> and \<open>None\<close>
  when it takes the timer, and the answer of \<open>rand.Int\<close>. The loop also returns the list
  of the durations it slept.
\<close>

definition second :: int64 where
  "second = 1000000000"

definition baseDelay :: "int64 \<Rightarrow> int64" where
  "baseDelay attempt =
     (let d = push_bit (unat attempt) second
      in if 30 * sint second < sint d then 30 * second else d)"

text \<open>Go's \<open>x / 2\<close> on a signed integer truncates towards zero.\<close>

definition half :: "int64 \<Rightarrow> int64" where
  "half d = word_of_int (if sint d < 0 then - ((- sint d) div 2) else sint d div 2)"

definition jitter :: "(int64 \<Rightarrow> int64 option) \<Rightarrow> int64 \<Rightarrow> int64" where
  "jitter rand_int mx =
     (if sint mx \<le> 0 then 0
      else case rand_int mx of None \<Rightarrow> half mx | Some n \<Rightarrow> n)"

record retry_env =
  ctx_err :: "nat \<Rightarrow> go_error option"
  rand_int :: "nat \<Rightarrow> int64 \<Rightarrow> int64 option"

definition backoff :: "retry_env \<Rightarrow> nat \<Rightarrow> int64" where
  "backoff env i =
     baseDelay (of_nat i) + jitter (rand_int env i) (half (baseDelay (of_nat i)))"

definition retry_cancelled :: "go_lib \<Rightarrow> go_error \<Rightarrow> go_error \<Rightarrow> go_error" where
  "retry_cancelled U ctxErr lastErr =
     ErrWrap (''retry cancelled: '' @ fmt_error U ctxErr @ '' (last error: '' @
              fmt_error U lastErr @ '')'') [ctxErr, lastErr]"

function retry_loop :: "go_lib \<Rightarrow> retry_env \<Rightarrow> nat \<Rightarrow> ('s \<Rightarrow> go_error option \<times> 's) \<Rightarrow>
    nat \<Rightarrow> go_error option \<Rightarrow> 's \<Rightarrow> int64 list \<Rightarrow> go_error option \<times> 's \<times> int64 list" where
  "retry_loop U env maxAttempts fn i lastErr s slept =
     (if i < maxAttempts then
        (case fn s of
           (None, s') \<Rightarrow> (None, s', slept)
         | (Some e, s') \<Rightarrow>
             if i = maxAttempts - 1 then (Some e, s', slept)
             else (case ctx_err env i of
                     Some c \<Rightarrow> (Some (retry_cancelled U c e), s', slept)
                   | None \<Rightarrow> retry_loop U env maxAttempts fn (Suc i) (Some e) s'
                               (slept @ [backoff env i])))
      else (lastErr, s, slept))"
  by pat_completeness auto
termination
  by (relation "measure (\<lambda>(U, env, m, fn, i, l, s, sl). m - i)") auto

declare retry_loop.simps [simp del]

definition retry_Do :: "go_lib \<Rightarrow> retry_env \<Rightarrow> int64 \<Rightarrow> ('s \<Rightarrow> go_error option \<times> 's) \<Rightarrow> 's \<Rightarrow>
    go_error option \<times> 's \<times> int64 list" where
  "retry_Do U env maxAttempts fn s =
     retry_loop U env (nat (sint maxAttempts)) fn 0 None s []"

section \<open>Delays\<close>

lemma sint_word_of_int_small:
  "- (2 ^ 63) \<le> k \<Longrightarrow> k < 2 ^ 63 \<Longrightarrow> sint (word_of_int k :: int64) = k"
  by (simp add: signed_take_bit_int_eq_self signed_of_int)

lemma push_bit_second: "push_bit n second = word_of_int (1000000000 * 2 ^ n)"
  by (simp add: second_def push_bit_eq_mult)

lemma sint_second: "sint second = 1000000000"
  by (simp add: second_def)

lemma sint_half: "0 \<le> sint d \<Longrightarrow> sint (half d) = sint d div 2"
  using sint_range_size [of d] by (simp add: half_def word_size sint_word_of_int_small)

text \<open>The delay in nanoseconds of the attempts that are reachable without overflow.\<close>

definition delay_ns :: "nat \<Rightarrow> int" where
  "delay_ns i = min (1000000000 * 2 ^ i) 30000000000"

lemma baseDelay_in_range:
  assumes "i < 34"
  shows "sint (baseDelay (of_nat i)) = delay_ns i"
proof -
  have "(2::int) ^ i \<le> 2 ^ 33" using assms by (intro power_increasing) auto
  then have "1000000000 * (2::int) ^ i < 2 ^ 63" by simp
  moreover have "- (2 ^ 63) \<le> 1000000000 * (2::int) ^ i"
    by (rule order_trans [of _ 0]) simp_all
  ultimately have "sint (push_bit i second) = 1000000000 * 2 ^ i"
    unfolding push_bit_second by (intro sint_word_of_int_small)
  moreover have "unat (of_nat i :: int64) = i" using assms by (simp add: unat_of_nat)
  ultimately show ?thesis
    by (simp add: baseDelay_def Let_def delay_ns_def sint_second) (simp add: second_def)
qed

lemma delay_ns_bounds: "1000000000 \<le> delay_ns i" "delay_ns i \<le> 30000000000"
  by (simp_all add: delay_ns_def)

lemma delay_ns_mono: "i \<le> j \<Longrightarrow> delay_ns i \<le> delay_ns j"
  using power_increasing [of i j "2::int"] unfolding delay_ns_def
  by (intro min.mono mult_left_mono) auto

text \<open>\<open>rand.Int\<close> returns a number in \<open>[0, max)\<close>.\<close>

definition rand_ok :: "retry_env \<Rightarrow> bool" where
  "rand_ok env \<longleftrightarrow>
     (\<forall>i m v. rand_int env i m = Some v \<longrightarrow> 0 \<le> sint v \<and> sint v < sint m)"

lemma jitter_bounds:
  assumes "rand_ok env" "0 < sint mx"
  shows "0 \<le> sint (jitter (rand_int env i) mx)" "sint (jitter (rand_int env i) mx) < sint mx"
  using assms by (auto simp: jitter_def rand_ok_def sint_half split: option.splits)

lemma sint_add_small:
  "0 \<le> sint a \<Longrightarrow> 0 \<le> sint b \<Longrightarrow> sint a + sint b < 2 ^ 63 \<Longrightarrow> sint (a + b :: int64) = sint a + sint b"
  by (simp add: sint_word_ariths signed_take_bit_int_eq_self)

lemma sint_backoff:
  assumes "rand_ok env" "i < 34"
  shows "delay_ns i \<le> sint (backoff env i)" "2 * sint (backoff env i) < 3 * delay_ns i"
proof -
  let ?j = "jitter (rand_int env i) (half (baseDelay (of_nat i)))"
  have b: "sint (baseDelay (of_nat i)) = delay_ns i"
    by (rule baseDelay_in_range [OF assms(2)])
  note d = delay_ns_bounds [of i]
  have h: "sint (half (baseDelay (of_nat i))) = delay_ns i div 2"
    using b d by (simp add: sint_half)
  have j: "0 \<le> sint ?j" "sint ?j < delay_ns i div 2"
    using jitter_bounds [OF assms(1), of "half (baseDelay (of_nat i))" i] h d by simp_all
  have "sint (backoff env i) = delay_ns i + sint ?j"
    using b d j unfolding backoff_def by (subst sint_add_small) auto
  then show "delay_ns i \<le> sint (backoff env i)" "2 * sint (backoff env i) < 3 * delay_ns i"
    using j by linarith+
qed

section \<open>The runs of the loop\<close>

text \<open>The state before the \<open>k\<close>-th call of the function and the result of that call.\<close>

definition attempt_state :: "('s \<Rightarrow> 'r \<times> 's) \<Rightarrow> 's \<Rightarrow> nat \<Rightarrow> 's" where
  "attempt_state fn s k = ((\<lambda>s. snd (fn s)) ^^ k) s"

definition attempt_result :: "('s \<Rightarrow> 'r \<times> 's) \<Rightarrow> 's \<Rightarrow> nat \<Rightarrow> 'r" where
  "attempt_result fn s k = fst (fn (attempt_state fn s k))"

lemma attempt_state_0 [simp]: "attempt_state fn s 0 = s"
  by (simp add: attempt_state_def)

lemma attempt_state_Suc: "attempt_state fn s (Suc k) = snd (fn (attempt_state fn s k))"
  by (simp add: attempt_state_def)

lemma fn_attempt:
  "fn (attempt_state fn s k) = (attempt_result fn s k, attempt_state fn s (Suc k))"
  by (simp add: attempt_result_def attempt_state_Suc)

text \<open>Where the loop stops and with what, as a reference for its result.\<close>

definition stops_at :: "go_lib \<Rightarrow> retry_env \<Rightarrow> nat \<Rightarrow> ('s \<Rightarrow> go_error option \<times> 's) \<Rightarrow> 's \<Rightarrow>
    nat \<Rightarrow> go_error option \<Rightarrow> bool" where
  "stops_at U env m fn s k res \<longleftrightarrow>
     k < m \<and> (\<forall>j<k. attempt_result fn s j \<noteq> None \<and> ctx_err env j = None) \<and>
     (case attempt_result fn s k of
        None \<Rightarrow> res = None
      | Some e \<Rightarrow>
          if k = m - 1 then res = Some e
          else (case ctx_err env k of None \<Rightarrow> False | Some c \<Rightarrow> res = Some (retry_cancelled U c e)))"

lemma retry_loop_from:
  assumes "i < m" and "\<forall>j<i. attempt_result fn s j \<noteq> None \<and> ctx_err env j = None"
  shows "\<exists>k res. stops_at U env m fn s k res \<and>
    retry_loop U env m fn i lst (attempt_state fn s i) (map (backoff env) [0..<i]) =
      (res, attempt_state fn s (Suc k), map (backoff env) [0..<k])"
  using assms
proof (induction "m - i" arbitrary: i lst)
  case 0
  then show ?case by simp
next
  case (Suc d)
  note unfold = retry_loop.simps [of U env m fn i lst "attempt_state fn s i"] fn_attempt
  show ?case
  proof (cases "attempt_result fn s i")
    case None
    with Suc.prems have "stops_at U env m fn s i None" by (simp add: stops_at_def)
    with None Suc.prems show ?thesis by (auto simp: unfold)
  next
    case (Some e)
    show ?thesis
    proof (cases "i = m - 1")
      case True
      with Some Suc.prems have "stops_at U env m fn s i (Some e)" by (simp add: stops_at_def)
      moreover have "retry_loop U env m fn i lst (attempt_state fn s i) (map (backoff env) [0..<i]) =
          (Some e, attempt_state fn s (Suc i), map (backoff env) [0..<i])"
        using True Some Suc.prems by (subst unfold(1)) (simp add: fn_attempt)
      ultimately show ?thesis by blast
    next
      case False
      show ?thesis
      proof (cases "ctx_err env i")
        case c: (Some c)
        with False Some Suc.prems have "stops_at U env m fn s i (Some (retry_cancelled U c e))"
          by (simp add: stops_at_def)
        with False Some c Suc.prems show ?thesis by (auto simp: unfold)
      next
        case None
        have "Suc i < m" "d = m - Suc i" using False Suc by auto
        moreover have "\<forall>j<Suc i. attempt_result fn s j \<noteq> None \<and> ctx_err env j = None"
          using Suc.prems Some None by (auto simp: less_Suc_eq)
        ultimately obtain k res where "stops_at U env m fn s k res"
          "retry_loop U env m fn (Suc i) (Some e) (attempt_state fn s (Suc i))
             (map (backoff env) [0..<Suc i]) = (res, attempt_state fn s (Suc k), map (backoff env) [0..<k])"
          using Suc.hyps(1) [of "Suc i" "Some e"] by blast
        with False Some None Suc.prems show ?thesis by (auto simp: unfold)
      qed
    qed
  qed
qed

lemma stops_at_unique:
  "stops_at U env m fn s k res \<Longrightarrow> stops_at U env m fn s k' res' \<Longrightarrow> k = k' \<and> res = res'"
proof -
  assume s: "stops_at U env m fn s k res" "stops_at U env m fn s k' res'"
  then have "\<not> k < k'" "\<not> k' < k"
    by (auto simp: stops_at_def split: option.splits if_splits)
  with s show ?thesis by (auto simp: stops_at_def split: option.splits if_splits)
qed

lemma retry_Do_stops:
  assumes "0 < sint m"
  obtains k res where "stops_at U env (nat (sint m)) fn s k res"
    "retry_Do U env m fn s = (res, attempt_state fn s (Suc k), map (backoff env) [0..<k])"
  using retry_loop_from [of 0 "nat (sint m)" fn s env U None] assms
  by (auto simp: retry_Do_def)

lemma retry_Do_eq:
  assumes "stops_at U env (nat (sint m)) fn s k res"
  shows "retry_Do U env m fn s = (res, attempt_state fn s (Suc k), map (backoff env) [0..<k])"
proof -
  from assms have "0 < sint m" by (auto simp: stops_at_def)
  then show ?thesis
    using assms by (metis retry_Do_stops stops_at_unique)
qed

section \<open>Retrying an operation that keeps an invariant\<close>

text \<open>The contract of a caller of \<open>Do\<close>: every call of its function keeps an invariant of the
  state. Then the invariant holds at the end, and the last call explains the result.\<close>

locale retried =
  fixes fn :: "'s \<Rightarrow> go_error option \<times> 's"
    and inv :: "'s \<Rightarrow> bool"
  assumes keeps: "inv s \<Longrightarrow> inv (snd (fn s))"
begin

lemma attempts: "inv s \<Longrightarrow> inv (attempt_state fn s k)"
  by (induction k) (simp_all add: attempt_state_Suc keeps)

lemma Do_keeps:
  assumes "0 < sint m" "inv s"
  shows "inv (fst (snd (retry_Do U env m fn s)))"
  by (rule retry_Do_stops [OF assms(1), of U env fn s]) (simp add: attempts [OF assms(2)])

lemma Do_last:
  assumes "retry_Do U env m fn s = (res, s', slept)" "0 < sint m" "inv s"
  shows "\<exists>s0 r. inv s0 \<and> fn s0 = (r, s') \<and>
    (case r of None \<Rightarrow> res = None
     | Some e \<Rightarrow> res = Some e \<or> (\<exists>c. res = Some (retry_cancelled U c e)))"
proof -
  obtain k r where k: "stops_at U env (nat (sint m)) fn s k r"
    "retry_Do U env m fn s = (r, attempt_state fn s (Suc k), map (backoff env) [0..<k])"
    using retry_Do_stops [OF assms(2)] .
  then have "fn (attempt_state fn s k) = (attempt_result fn s k, s')" "r = res"
    using assms(1) fn_attempt [of fn s k] by simp_all
  with k(1) attempts [OF assms(3)] show ?thesis
    by (intro exI [of _ "attempt_state fn s k"] exI [of _ "attempt_result fn s k"])
      (auto simp: stops_at_def split: option.splits if_splits)
qed

end

lemma sint_numeral_3: "0 < sint (3 :: int64)" "sint (3 :: int64) = 3"
  by simp_all

text \<open>The three attempts of a caller with the limit 3, written out.\<close>

lemma retry_Do_3: "retry_Do U env 3 fn s =
    (case fn s of (None, s1) \<Rightarrow> (None, s1, []) | (Some e1, s1) \<Rightarrow>
     (case ctx_err env 0 of Some c \<Rightarrow> (Some (retry_cancelled U c e1), s1, []) | None \<Rightarrow>
     (case fn s1 of (None, s2) \<Rightarrow> (None, s2, [backoff env 0]) | (Some e2, s2) \<Rightarrow>
     (case ctx_err env 1 of Some c \<Rightarrow> (Some (retry_cancelled U c e2), s2, [backoff env 0]) | None \<Rightarrow>
     (case fn s2 of (r, s3) \<Rightarrow> (r, s3, [backoff env 0, backoff env 1]))))))"
  by (simp add: retry_Do_def retry_loop.simps numeral_eq_Suc split: prod.splits option.splits)

section \<open>Properties\<close>

text \<open>C15: \<open>Do\<close> with a positive attempt limit always returns, after \<open>k + 1\<close> calls for some
  \<open>k\<close> below the limit, all of them before the last failed and none of the waits between
  them cancelled. It returns nil when the last call succeeded, the error of that call when
  it was the last one allowed, and otherwise the cancellation error that wraps the
  context's error and that call's; it has slept exactly once between any two calls.\<close>

theorem retry_Do_outcome:
  assumes "0 < sint m"
  shows "\<exists>k < nat (sint m).
    (\<forall>j<k. attempt_result fn s j \<noteq> None \<and> ctx_err env j = None) \<and>
    fst (snd (retry_Do U env m fn s)) = attempt_state fn s (Suc k) \<and>
    snd (snd (retry_Do U env m fn s)) = map (backoff env) [0..<k] \<and>
    (case attempt_result fn s k of
       None \<Rightarrow> fst (retry_Do U env m fn s) = None
     | Some e \<Rightarrow>
         if k = nat (sint m) - 1 then fst (retry_Do U env m fn s) = Some e
         else (\<exists>c. ctx_err env k = Some c \<and>
                   fst (retry_Do U env m fn s) = Some (retry_cancelled U c e)))"
proof -
  obtain k res where k: "stops_at U env (nat (sint m)) fn s k res"
    and r: "retry_Do U env m fn s = (res, attempt_state fn s (Suc k), map (backoff env) [0..<k])"
    using retry_Do_stops [OF assms] .
  from k have "k < nat (sint m)" by (simp add: stops_at_def)
  with k show ?thesis unfolding r
    by (intro exI [of _ k]) (auto simp: stops_at_def split: option.splits if_splits)
qed

definition flaky :: "nat \<Rightarrow> go_error option \<times> nat" where
  "flaky n = (if n = 0 then (None, 0) else (Some (ErrNew ''transient''), n - 1))"

definition quiet_env :: "retry_env" where
  "quiet_env = \<lparr>ctx_err = (\<lambda>_. None), rand_int = (\<lambda>_ _. Some 0)\<rparr>"

lemma retry_Do_outcome_witness:
  "fst (retry_Do ascii_tables quiet_env 5 flaky 2) = None \<and>
   (\<exists>k < nat (sint (5 :: int64)).
      fst (snd (retry_Do ascii_tables quiet_env 5 flaky 2)) = attempt_state flaky 2 (Suc k))"
proof
  show "fst (retry_Do ascii_tables quiet_env 5 flaky 2) = None"
    by (simp add: retry_Do_def retry_loop.simps flaky_def quiet_env_def)
  show "\<exists>k < nat (sint (5 :: int64)).
      fst (snd (retry_Do ascii_tables quiet_env 5 flaky 2)) = attempt_state flaky 2 (Suc k)"
    using retry_Do_outcome [of 5 flaky 2 quiet_env ascii_tables] by auto
qed

text \<open>With an attempt limit of zero or less \<open>Do\<close> reports success without having called
  the function at all.\<close>

theorem retry_Do_no_attempts:
  assumes "sint m \<le> 0"
  shows "retry_Do U env m fn s = (None, s, [])"
  using assms by (simp add: retry_Do_def retry_loop.simps)

lemma retry_Do_no_attempts_witness:
  "retry_Do ascii_tables quiet_env 0 (\<lambda>n::nat. (Some (ErrNew ''down''), Suc n)) 0 = (None, 0, [])"
  using retry_Do_no_attempts [of 0 ascii_tables quiet_env "\<lambda>n::nat. (Some (ErrNew ''down''), Suc n)" 0]
  by simp

text \<open>C38: for the first 34 attempts the waits are those the comment promises: the base delay
  is 1s, 2s, 4s, ... capped at 30s and never decreasing, and the wait with jitter lies
  between the base delay and one and a half times it, so below 45s.\<close>

theorem backoff_bounds:
  assumes "rand_ok env" and "i < 34"
  shows "sint (baseDelay (of_nat i)) = min (1000000000 * 2 ^ i) 30000000000 \<and>
    sint (baseDelay (of_nat i)) \<le> sint (backoff env i) \<and>
    2 * sint (backoff env i) < 3 * sint (baseDelay (of_nat i)) \<and>
    sint (backoff env i) < 45000000000"
  using sint_backoff [OF assms] baseDelay_in_range [OF assms(2)] delay_ns_bounds [of i]
  by (simp add: delay_ns_def)

definition least_env :: "retry_env" where
  "least_env = \<lparr>ctx_err = (\<lambda>_. None), rand_int = (\<lambda>_ m. if 0 < sint m then Some 0 else None)\<rparr>"

lemma backoff_bounds_witness:
  "rand_ok least_env \<and> sint (baseDelay (of_nat 4)) = 16000000000 \<and> sint (backoff least_env 4) < 24000000000"
proof -
  have ok: "rand_ok least_env" by (auto simp: rand_ok_def least_env_def split: if_splits)
  from backoff_bounds [OF ok, of 4] ok show ?thesis by simp
qed

text \<open>Beyond that the shift overflows and the cap at 30s does not help: the base delays of
  attempts 34 and 35 are negative and from attempt 55 on they are zero, so the loop no
  longer waits between attempts.\<close>

theorem baseDelay_overflow:
  assumes "55 \<le> unat a"
  shows "sint (baseDelay 34) < 0 \<and> sint (baseDelay 35) < 0 \<and> baseDelay a = 0"
proof -
  have "second = push_bit 9 1953125" by (simp add: second_def push_bit_eq_mult)
  then have "push_bit (unat a) second = push_bit (unat a + 9) 1953125"
    by (metis push_bit_push_bit)
  moreover have "push_bit k (1953125 :: int64) = 0" if "64 \<le> k" for k
    using that by (intro bit_word_eqI) (auto simp: bit_push_bit_iff)
  ultimately have "push_bit (unat a) second = 0" using assms by simp
  then have "baseDelay a = 0"
    by (simp add: baseDelay_def sint_second)
  moreover have "sint (baseDelay 34) < 0 \<and> sint (baseDelay 35) < 0"
    by (simp add: baseDelay_def second_def push_bit_eq_mult)
  ultimately show ?thesis by simp
qed

lemma baseDelay_overflow_witness: "sint (baseDelay 34) < 0 \<and> baseDelay 60 = 0"
  using baseDelay_overflow [of 60] by simp

end
