(* ===== verification/VcdClient.thy ===== *)
theory VcdClient
  imports Retry GoJsonCodec
begin

text \<open>
  \<open>internal/clients/vcd\<close>: the client with its cached token (\<open>client.go\<close>), the JSON codec, the
  response types and the two lookups (\<open>codec.go\<close>, \<open>types.go\<close>, \<open>org.go\<close>, \<open>vdc.go\<close>). The
  network is a parameter: a function from the request and the state of the outside world
  to a response or an error, the unread rest of the request body, and the new world. The
  mutex makes \<open>getToken\<close> and \<open>clearToken\<close> atomic, and calls here are one after another.
  Logging is left out.
\<close>

section \<open>Requests and responses\<close>

record http_request =
  hr_method :: string
  hr_url :: string
  hr_headers :: "(string \<times> string) list"
  hr_body :: "string option"

record http_response =
  hs_status :: int
  hs_headers :: "(string \<times> string) list"
  hs_body :: string
  hs_read_err :: "go_error option"

type_synonym 'w network = "http_request \<Rightarrow> 'w \<Rightarrow> (go_error + http_response) \<times> string option \<times> 'w"

text \<open>\<open>Header.Get\<close>: names are compared without regard to case; absent is the empty string.\<close>

definition header_get :: "(string \<times> string) list \<Rightarrow> string \<Rightarrow> string" where
  "header_get hs name =
     (case find (\<lambda>(n, _). map lower_char n = map lower_char name) hs of
        None \<Rightarrow> [] | Some (_, v) \<Rightarrow> v)"

text \<open>\<open>Request.SetBasicAuth\<close>: the standard base64 encoding of \<open>user:password\<close>.\<close>

definition b64_char :: "nat \<Rightarrow> char" where
  "b64_char n = ''ABCDEFGHIJKLMNOPQRSTUVWXYZabcdefghijklmnopqrstuvwxyz0123456789+/'' ! n"

fun base64 :: "string \<Rightarrow> string" where
  "base64 [] = []"
| "base64 [a] =
     [b64_char (ord a div 4), b64_char (ord a mod 4 * 16), CHR ''='', CHR ''='']"
| "base64 [a, b] =
     [b64_char (ord a div 4), b64_char (ord a mod 4 * 16 + ord b div 16),
      b64_char (ord b mod 16 * 4), CHR ''='']"
| "base64 (a # b # c # s) =
     [b64_char (ord a div 4), b64_char (ord a mod 4 * 16 + ord b div 16),
      b64_char (ord b mod 16 * 4 + ord c div 64), b64_char (ord c mod 64)] @ base64 s"

definition basic_auth :: "string \<Rightarrow> string \<Rightarrow> string" where
  "basic_auth user password = ''Basic '' @ base64 (user @ '':'' @ password)"

text \<open>\<open>url.Values\<close> with \<open>Set\<close> and \<open>Encode\<close> (sorted by key).\<close>

fun values_pairs :: "string gomap \<Rightarrow> string list" where
  "values_pairs [] = []"
| "values_pairs ((k, v) # m) = (query_escape k @ CHR ''='' # query_escape v) # values_pairs m"

definition values_encode :: "string gomap \<Rightarrow> string" where
  "values_encode m = join_char CHR ''&'' (values_pairs m)"

section \<open>The client\<close>

record vcd_client =
  vc_baseURL :: string
  vc_version :: string
  vc_username :: string
  vc_password :: string
  vc_org :: string
  vc_token :: string

definition vcd_New :: "string \<Rightarrow> string \<Rightarrow> string \<Rightarrow> string \<Rightarrow> string \<Rightarrow> vcd_client" where
  "vcd_New baseURL version username password org =
     \<lparr>vc_baseURL = trim_right_char CHR ''/'' baseURL, vc_version = version,
      vc_username = username, vc_password = password, vc_org = org, vc_token = []\<rparr>"

text \<open>What a call is made in: the library's tables, the network, the waits of \<open>retry.Do\<close>, and
  the error \<open>http.NewRequestWithContext\<close> may return for a method and a URL.\<close>

record 'w vcd_env =
  ve_lib :: go_lib
  ve_net :: "'w network"
  ve_retry :: retry_env
  ve_request_err :: "string \<Rightarrow> string \<Rightarrow> go_error option"

definition accept_header :: "vcd_client \<Rightarrow> string \<times> string" where
  "accept_header c = (''Accept'', ''application/*;version='' @ vc_version c)"

definition auth_path :: string where
  "auth_path = ''/cloudapi/1.0.0/sessions/provider''"

definition auth_request :: "vcd_client \<Rightarrow> http_request" where
  "auth_request c =
     \<lparr>hr_method = ''POST'', hr_url = vc_baseURL c @ auth_path,
      hr_headers = [accept_header c,
                    (''Authorization'', basic_auth (vc_username c @ ''@'' @ vc_org c) (vc_password c))],
      hr_body = None\<rparr>"

definition authenticate :: "'w vcd_env \<Rightarrow> vcd_client \<Rightarrow> 'w \<Rightarrow> go_error option \<times> vcd_client \<times> 'w" where
  "authenticate V c w =
     (case ve_request_err V ''POST'' (vc_baseURL c @ auth_path) of
        Some e \<Rightarrow> (Some (errorf_w (ve_lib V) ''create auth request: '' e), c, w)
      | None \<Rightarrow>
          (case ve_net V (auth_request c) w of
             (Inl e, _, w') \<Rightarrow> (Some (errorf_w (ve_lib V) ''auth request: '' e), c, w')
           | (Inr resp, _, w') \<Rightarrow>
               if hs_status resp \<noteq> 200 then
                 (Some (ErrAPI \<lparr>ae_status = hs_status resp, ae_body = hs_body resp,
                                ae_method = ''POST'', ae_path = auth_path\<rparr>), c, w')
               else
                 (let token = header_get (hs_headers resp) ''X-VMWARE-VCLOUD-ACCESS-TOKEN''
                  in if token = [] then
                       (Some (ErrNew ''auth response missing X-VMWARE-VCLOUD-ACCESS-TOKEN header''), c, w')
                     else (None, c\<lparr>vc_token := token\<rparr>, w'))))"

definition getToken :: "'w vcd_env \<Rightarrow> vcd_client \<Rightarrow> 'w \<Rightarrow> (go_error + string) \<times> vcd_client \<times> 'w" where
  "getToken V c w =
     (if vc_token c \<noteq> [] then (Inr (vc_token c), c, w)
      else case authenticate V c w of
             (Some e, c', w') \<Rightarrow> (Inl e, c', w')
           | (None, c', w') \<Rightarrow> (Inr (vc_token c'), c', w'))"

definition clearToken :: "vcd_client \<Rightarrow> vcd_client" where
  "clearToken c = c\<lparr>vc_token := []\<rparr>"

text \<open>\<open>decodeJSON\<close>: the whole body is read, then unmarshalled over what the variable holds.\<close>

definition decodeJSON :: "go_lib \<Rightarrow> string \<Rightarrow> 'r decoder \<Rightarrow> http_response \<Rightarrow> 'r \<Rightarrow> go_error option \<times> 'r" where
  "decodeJSON U ty dec resp v =
     (case hs_read_err resp of
        Some e \<Rightarrow> (Some (errorf_w U ''read response: '' e), v)
      | None \<Rightarrow>
          (case json_unmarshal U ty dec (hs_body resp) v of
             (Some e, v') \<Rightarrow> (Some (errorf_w U ''decode json: '' e), v')
           | (None, v') \<Rightarrow> (None, v')))"

text \<open>
  What the attempts of one \<open>do\<close> share: the client, the unread part of the request body, the
  variable to decode into, and the outside world. \<open>lastErr\<close> is written but never read.
\<close>

record ('r, 'w) do_state =
  ds_client :: vcd_client
  ds_body :: "string option"
  ds_result :: 'r
  ds_world :: 'w

definition api_request :: "vcd_client \<Rightarrow> string \<Rightarrow> string \<Rightarrow> string option \<Rightarrow> string \<Rightarrow> http_request" where
  "api_request c method path body token =
     \<lparr>hr_method = method, hr_url = vc_baseURL c @ path,
      hr_headers = [accept_header c, (''Authorization'', ''Bearer '' @ token)], hr_body = body\<rparr>"

text \<open>One attempt: the function literal in \<open>do\<close>. The decoder is absent when \<open>result\<close> is nil.\<close>

definition do_attempt :: "'w vcd_env \<Rightarrow> string \<Rightarrow> string \<Rightarrow> (string \<times> 'r decoder) option \<Rightarrow>
    ('r, 'w) do_state \<Rightarrow> go_error option \<times> ('r, 'w) do_state" where
  "do_attempt V method path result s =
     (let U = ve_lib V
      in case getToken V (ds_client s) (ds_world s) of
        (Inl e, c, w) \<Rightarrow>
          (Some (errorf_w U ''get token: '' e), s\<lparr>ds_client := c, ds_world := w\<rparr>)
      | (Inr token, c, w) \<Rightarrow>
          (let s1 = s\<lparr>ds_client := c, ds_world := w\<rparr>
           in case ve_request_err V method (vc_baseURL c @ path) of
             Some e \<Rightarrow> (Some (errorf_w U ''create request: '' e), s1)
           | None \<Rightarrow>
               (case ve_net V (api_request c method path (ds_body s) token) w of
                  (Inl e, body, w') \<Rightarrow>
                    (Some (errorf_w U (method @ '' '' @ path @ '': '') e),
                     s1\<lparr>ds_body := body, ds_world := w'\<rparr>)
                | (Inr resp, body, w') \<Rightarrow>
                    (let s2 = s1\<lparr>ds_body := body, ds_world := w'\<rparr>
                     in if hs_status resp = 401 then
                          (Some (ErrAPI \<lparr>ae_status = 401, ae_body = [], ae_method = method, ae_path = path\<rparr>),
                           s2\<lparr>ds_client := clearToken c\<rparr>)
                        else if hs_status resp < 200 \<or> 300 \<le> hs_status resp then
                          (Some (ErrAPI \<lparr>ae_status = hs_status resp, ae_body = hs_body resp,
                                         ae_method = method, ae_path = path\<rparr>), s2)
                        else case result of
                          None \<Rightarrow> (None, s2)
                        | Some (ty, dec) \<Rightarrow>
                            (case decodeJSON U ty dec resp (ds_result s) of
                               (Some e, v) \<Rightarrow>
                                 (Some (errorf_w U (''decode '' @ method @ '' '' @ path @ '': '') e),
                                  s2\<lparr>ds_result := v\<rparr>)
                             | (None, v) \<Rightarrow> (None, s2\<lparr>ds_result := v\<rparr>))))))"

definition vcd_do :: "'w vcd_env \<Rightarrow> string \<Rightarrow> string \<Rightarrow> string option \<Rightarrow> (string \<times> 'r decoder) option \<Rightarrow>
    'r \<Rightarrow> vcd_client \<Rightarrow> 'w \<Rightarrow> go_error option \<times> ('r, 'w) do_state \<times> int64 list" where
  "vcd_do V method path body result v c w =
     retry_Do (ve_lib V) (ve_retry V) 3 (do_attempt V method path result)
       \<lparr>ds_client = c, ds_body = body, ds_result = v, ds_world = w\<rparr>"

section \<open>Response types\<close>

record Organization =
  og_ID :: string
  og_Name :: string
  og_DisplayName :: string
  og_Description :: string
  og_IsEnabled :: bool
  og_OrgVdcCount :: int64
  og_CatalogCount :: int64
  og_VappCount :: int64
  og_RunningVMCount :: int64
  og_UserCount :: int64
  og_DiskCount :: int64
  og_CanPublish :: bool

definition zero_Organization :: Organization where
  "zero_Organization = \<lparr>og_ID = [], og_Name = [], og_DisplayName = [], og_Description = [],
     og_IsEnabled = False, og_OrgVdcCount = 0, og_CatalogCount = 0, og_VappCount = 0,
     og_RunningVMCount = 0, og_UserCount = 0, og_DiskCount = 0, og_CanPublish = False\<rparr>"

definition dec_Organization :: "go_lib \<Rightarrow> Organization decoder" where
  "dec_Organization U = dec_struct U
     [(''id'', on_field og_ID og_ID_update dec_string),
      (''name'', on_field og_Name og_Name_update dec_string),
      (''displayName'', on_field og_DisplayName og_DisplayName_update dec_string),
      (''description'', on_field og_Description og_Description_update dec_string),
      (''isEnabled'', on_field og_IsEnabled og_IsEnabled_update dec_bool),
      (''orgVdcCount'', on_field og_OrgVdcCount og_OrgVdcCount_update dec_int),
      (''catalogCount'', on_field og_CatalogCount og_CatalogCount_update dec_int),
      (''vappCount'', on_field og_VappCount og_VappCount_update dec_int),
      (''runningVMCount'', on_field og_RunningVMCount og_RunningVMCount_update dec_int),
      (''userCount'', on_field og_UserCount og_UserCount_update dec_int),
      (''diskCount'', on_field og_DiskCount og_DiskCount_update dec_int),
      (''canPublish'', on_field og_CanPublish og_CanPublish_update dec_bool)]"

record organizationResult =
  or_ResultTotal :: int64
  or_PageCount :: int64
  or_Page :: int64
  or_PageSize :: int64
  or_Values :: "Organization slice"

definition zero_organizationResult :: organizationResult where
  "zero_organizationResult = \<lparr>or_ResultTotal = 0, or_PageCount = 0, or_Page = 0, or_PageSize = 0,
     or_Values = ([], 0)\<rparr>"

definition dec_organizationResult :: "go_lib \<Rightarrow> organizationResult decoder" where
  "dec_organizationResult U = dec_struct U
     [(''resultTotal'', on_field or_ResultTotal or_ResultTotal_update dec_int),
      (''pageCount'', on_field or_PageCount or_PageCount_update dec_int),
      (''page'', on_field or_Page or_Page_update dec_int),
      (''pageSize'', on_field or_PageSize or_PageSize_update dec_int),
      (''values'', on_field or_Values or_Values_update (dec_slice (dec_Organization U) zero_Organization))]"

record OrgRef =
  rf_Name :: string
  rf_ID :: string

definition dec_OrgRef :: "go_lib \<Rightarrow> OrgRef decoder" where
  "dec_OrgRef U = dec_struct U
     [(''name'', on_field rf_Name rf_Name_update dec_string),
      (''id'', on_field rf_ID rf_ID_update dec_string)]"

record VDC =
  vdc_ID :: string
  vdc_Name :: string
  vdc_Description :: string
  vdc_AllocationType :: string
  vdc_Org :: OrgRef

definition zero_VDC :: VDC where
  "zero_VDC = \<lparr>vdc_ID = [], vdc_Name = [], vdc_Description = [], vdc_AllocationType = [],
     vdc_Org = \<lparr>rf_Name = [], rf_ID = []\<rparr>\<rparr>"

definition dec_VDC :: "go_lib \<Rightarrow> VDC decoder" where
  "dec_VDC U = dec_struct U
     [(''id'', on_field vdc_ID vdc_ID_update dec_string),
      (''name'', on_field vdc_Name vdc_Name_update dec_string),
      (''description'', on_field vdc_Description vdc_Description_update dec_string),
      (''allocationType'', on_field vdc_AllocationType vdc_AllocationType_update dec_string),
      (''org'', on_field vdc_Org vdc_Org_update (dec_OrgRef U))]"

record vdcResponse =
  vr_ResultTotal :: int64
  vr_PageCount :: int64
  vr_Page :: int64
  vr_PageSize :: int64
  vr_Values :: "VDC slice"

definition zero_vdcResponse :: vdcResponse where
  "zero_vdcResponse = \<lparr>vr_ResultTotal = 0, vr_PageCount = 0, vr_Page = 0, vr_PageSize = 0,
     vr_Values = ([], 0)\<rparr>"

definition dec_vdcResponse :: "go_lib \<Rightarrow> vdcResponse decoder" where
  "dec_vdcResponse U = dec_struct U
     [(''resultTotal'', on_field vr_ResultTotal vr_ResultTotal_update dec_int),
      (''pageCount'', on_field vr_PageCount vr_PageCount_update dec_int),
      (''page'', on_field vr_Page vr_Page_update dec_int),
      (''pageSize'', on_field vr_PageSize vr_PageSize_update dec_int),
      (''values'', on_field vr_Values vr_Values_update (dec_slice (dec_VDC U) zero_VDC))]"

definition ExtractUUID :: "string \<Rightarrow> go_error + string" where
  "ExtractUUID urn =
     (let parts = split_char CHR '':'' urn
      in if length parts < 4 then Inl (ErrNew (''invalid URN format: '' @ urn))
         else Inr (last parts))"

section \<open>Lookups\<close>

definition org_path :: "string \<Rightarrow> string" where
  "org_path orgName =
     ''/cloudapi/1.0.0/orgs?'' @ values_encode (gm_set ''filter'' (''name=='' @ orgName) [])"

definition GetOrganization :: "'w vcd_env \<Rightarrow> string \<Rightarrow> vcd_client \<Rightarrow> 'w \<Rightarrow>
    (go_error + Organization) \<times> vcd_client \<times> 'w" where
  "GetOrganization V orgName c w =
     (let U = ve_lib V
      in case vcd_do V ''GET'' (org_path orgName) None
                (Some (''*vcd.organizationResult'', dec_organizationResult U)) zero_organizationResult c w of
        (Some e, s, _) \<Rightarrow>
          (Inl (errorf_w U (''get organization '' @ go_quote U orgName @ '': '') e), ds_client s, ds_world s)
      | (None, s, _) \<Rightarrow>
          ((case slice_elems (or_Values (ds_result s)) of
              [] \<Rightarrow> Inl (ErrNew (''organization '' @ go_quote U orgName @ '' not found''))
            | v # _ \<Rightarrow> Inr v), ds_client s, ds_world s))"

definition vdc_path :: "string \<Rightarrow> string" where
  "vdc_path vdcName =
     ''/cloudapi/1.0.0/vdcs?'' @
     values_encode (gm_set ''pageSize'' ''25'' (gm_set ''page'' ''1'' (gm_set ''filter'' (''name=='' @ vdcName) [])))"

definition GetVDC :: "'w vcd_env \<Rightarrow> string \<Rightarrow> vcd_client \<Rightarrow> 'w \<Rightarrow> (go_error + VDC) \<times> vcd_client \<times> 'w" where
  "GetVDC V vdcName c w =
     (let U = ve_lib V
      in case vcd_do V ''GET'' (vdc_path vdcName) None
                (Some (''*vcd.vdcResponse'', dec_vdcResponse U)) zero_vdcResponse c w of
        (Some e, s, _) \<Rightarrow>
          (Inl (errorf_w U (''get vdc '' @ go_quote U vdcName @ '': '') e), ds_client s, ds_world s)
      | (None, s, _) \<Rightarrow>
          ((case slice_elems (vr_Values (ds_result s)) of
              [] \<Rightarrow> Inl (ErrNew (''vdc '' @ go_quote U vdcName @ '' not found''))
            | v # _ \<Rightarrow> Inr v), ds_client s, ds_world s))"

section \<open>Properties\<close>

lemma last_split_char: "s = concat (map (\<lambda>p. p @ [d]) (butlast (split_char d s))) @ last (split_char d s)"
  by (induction s) (auto split: list.splits)

text \<open>\<open>ExtractUUID\<close> accepts exactly the texts with at least three colons and returns what
  follows the last of them; any other text is named in the error.\<close>

theorem ExtractUUID_spec:
  "(case ExtractUUID urn of
      Inr u \<Rightarrow> 3 \<le> count_list urn CHR '':'' \<and> CHR '':'' \<notin> set u \<and> (\<exists>p. urn = p @ CHR '':'' # u)
    | Inl e \<Rightarrow> count_list urn CHR '':'' < 3 \<and> e = ErrNew (''invalid URN format: '' @ urn))"
proof (cases "count_list urn CHR '':'' < 3")
  case True
  then show ?thesis by (simp add: ExtractUUID_def Let_def length_split_char)
next
  case False
  let ?ps = "split_char CHR '':'' urn"
  have "last ?ps \<in> set ?ps" by simp
  then have nc: "CHR '':'' \<notin> set (last ?ps)" by (rule split_char_pieces)
  have "butlast ?ps \<noteq> []"
  proof -
    have "length (butlast ?ps) = count_list urn CHR '':''" unfolding length_butlast length_split_char by simp
    with False have "length (butlast ?ps) \<noteq> 0" by linarith
    then show ?thesis by (metis list.size(3))
  qed
  then obtain qs q where q: "butlast ?ps = qs @ [q]" by (metis rev_exhaust)
  have "urn = concat (map (\<lambda>p. p @ [CHR '':'']) (butlast ?ps)) @ last ?ps" by (rule last_split_char)
  then have "urn = (concat (map (\<lambda>p. p @ [CHR '':'']) qs) @ q) @ CHR '':'' # last ?ps" by (simp add: q)
  then have ex: "\<exists>p. urn = p @ CHR '':'' # last ?ps" by blast
  have e: "ExtractUUID urn = Inr (last ?ps)" using False by (simp add: ExtractUUID_def Let_def length_split_char)
  show ?thesis unfolding e sum.case using False nc ex by (intro conjI) (simp_all only: not_less simp_thms)
qed

text \<open>The search filter of a lookup reaches the server as it was meant: whatever bytes the name
  consists of, the query of the request holds the one parameter \<open>filter\<close>, no \<open>&\<close> or \<open>=\<close> of
  the name ends it early, and decoding it gives back \<open>name==\<close> and the name.\<close>

theorem org_filter_is_exact:
  "\<exists>q. org_path orgName = ''/cloudapi/1.0.0/orgs?filter='' @ q \<and>
    query_unescape q = Some (''name=='' @ orgName) \<and> CHR ''&'' \<notin> set q \<and> CHR ''='' \<notin> set q"
proof -
  have "query_escape ''filter'' = ''filter''"
    by (simp add: query_escape_def query_escape_char_def query_safe_def is_digit_def)
  then have "org_path orgName = ''/cloudapi/1.0.0/orgs?filter='' @ query_escape (''name=='' @ orgName)"
    by (simp add: org_path_def values_encode_def)
  then show ?thesis
    using query_unescape_escape query_escape_no_separator by blast
qed

section \<open>The attempts of \<open>do\<close>\<close>

definition same_config :: "vcd_client \<Rightarrow> vcd_client \<Rightarrow> bool" where
  "same_config c c' \<longleftrightarrow> c' = c\<lparr>vc_token := vc_token c'\<rparr>"

lemma same_configI: "same_config c c' \<Longrightarrow> same_config c (c'\<lparr>vc_token := t\<rparr>)"
  unfolding same_config_def by (metis vcd_client.surjective vcd_client.update_convs(6) vcd_client.select_convs(6))

lemma getToken_config:
  assumes "getToken V c w = (res, c', w')"
  shows "same_config c c' \<and> (\<forall>t. res = Inr t \<longrightarrow> t \<noteq> [] \<and> vc_token c' = t)"
  using assms
  by (auto simp: getToken_def authenticate_def same_config_def Let_def
      split: if_splits option.splits sum.splits prod.splits)

lemma do_attempt_config: "same_config (ds_client s) (ds_client (snd (do_attempt V method path result s)))"
proof -
  obtain res c w where g: "getToken V (ds_client s) (ds_world s) = (res, c, w)" by (metis prod_cases3)
  have c: "same_config (ds_client s) c" using getToken_config [OF g] by blast
  then have "same_config (ds_client s) (clearToken c)"
    unfolding clearToken_def by (rule same_configI)
  with c g show ?thesis
    by (auto simp: do_attempt_def Let_def split: sum.splits option.splits prod.splits)
qed

lemma same_config_trans: "same_config a b \<Longrightarrow> same_config b c \<Longrightarrow> same_config a c"
  unfolding same_config_def by (metis vcd_client.surjective vcd_client.update_convs(6) vcd_client.select_convs(6))

interpretation vcd_attempts: retried "do_attempt V m p result" "\<lambda>s. same_config c (ds_client s)"
  for V m p result c
  by unfold_locales (rule same_config_trans [OF _ do_attempt_config])

text \<open>An attempt that returns nil got a 2xx answer to a request with a token, and decoded it.\<close>

lemma do_attempt_success:
  assumes "do_attempt V method path result s0 = (None, s)"
  shows "\<exists>c token w resp. same_config (ds_client s0) c \<and> token \<noteq> [] \<and> ds_client s = c \<and> vc_token c = token \<and>
    ve_net V (api_request c method path (ds_body s0) token) w = (Inr resp, ds_body s, ds_world s) \<and>
    200 \<le> hs_status resp \<and> hs_status resp < 300 \<and>
    (case result of None \<Rightarrow> ds_result s = ds_result s0
     | Some (ty, dec) \<Rightarrow> decodeJSON (ve_lib V) ty dec resp (ds_result s0) = (None, ds_result s))"
proof -
  obtain res c w where g: "getToken V (ds_client s0) (ds_world s0) = (res, c, w)" by (metis prod_cases3)
  from assms g obtain token where t: "res = Inr token"
    by (cases res) (simp_all add: do_attempt_def Let_def)
  note conf = getToken_config [OF g]
  from assms g t have r: "ve_request_err V method (vc_baseURL c @ path) = None"
    by (cases "ve_request_err V method (vc_baseURL c @ path)") (simp_all add: do_attempt_def Let_def)
  obtain nr body w' where n: "ve_net V (api_request c method path (ds_body s0) token) w = (nr, body, w')"
    by (metis prod_cases3)
  from assms g t r n obtain resp where nr: "nr = Inr resp"
    by (cases nr) (simp_all add: do_attempt_def Let_def)
  have st: "200 \<le> hs_status resp" "hs_status resp < 300"
    using assms g t r n nr by (auto simp: do_attempt_def Let_def split: if_splits)
  show ?thesis
  proof (cases result)
    case None
    with assms g t r n nr st conf show ?thesis
      by (intro exI [of _ c] exI [of _ token] exI [of _ w] exI [of _ resp]) (auto simp: do_attempt_def Let_def)
  next
    case (Some x)
    obtain ty dec where x: "x = (ty, dec)" by (cases x)
    obtain e v where d: "decodeJSON (ve_lib V) ty dec resp (ds_result s0) = (e, v)" by fastforce
    from assms g t r n nr st Some x d have "e = None"
      by (cases e) (simp_all add: do_attempt_def Let_def)
    with assms g t r n nr st conf Some x d show ?thesis
      by (intro exI [of _ c] exI [of _ token] exI [of _ w] exI [of _ resp]) (auto simp: do_attempt_def Let_def)
  qed
qed

text \<open>
  What earlier attempts leave in the result variable: nothing, unless one got a 2xx answer from
  the network whose body failed to decode half-way. The number counts those attempts.
\<close>

inductive leftover :: "'w vcd_env \<Rightarrow> (string \<times> 'r decoder) option \<Rightarrow> 'r \<Rightarrow> nat \<Rightarrow> 'r \<Rightarrow> bool"
  for V :: "'w vcd_env" and result :: "(string \<times> 'r decoder) option" and v :: 'r where
  untouched: "leftover V result v 0 v"
| undecodable: "leftover V result v n u \<Longrightarrow> result = Some (ty, dec) \<Longrightarrow> ve_net V req w = (Inr resp, body, w') \<Longrightarrow>
    200 \<le> hs_status resp \<Longrightarrow> hs_status resp < 300 \<Longrightarrow> decodeJSON (ve_lib V) ty dec resp u = (Some e, u') \<Longrightarrow>
    leftover V result v (Suc n) u'"

inductive_cases leftover_nil: "leftover V None v n u"

lemma do_attempt_failed:
  assumes "do_attempt V method path result s0 = (Some e, s)"
  shows "ds_result s = ds_result s0 \<or>
    (\<exists>ty dec req w resp body w' e'. result = Some (ty, dec) \<and> ve_net V req w = (Inr resp, body, w') \<and>
       200 \<le> hs_status resp \<and> hs_status resp < 300 \<and>
       decodeJSON (ve_lib V) ty dec resp (ds_result s0) = (Some e', ds_result s))"
proof -
  obtain res c w where g: "getToken V (ds_client s0) (ds_world s0) = (res, c, w)" by (metis prod_cases3)
  show ?thesis
  proof (cases "\<exists>token. res = Inr token \<and> ve_request_err V method (vc_baseURL c @ path) = None")
    case False
    with assms g show ?thesis
      by (auto simp: do_attempt_def Let_def split: sum.splits option.splits)
  next
    case True
    then obtain token where t: "res = Inr token" "ve_request_err V method (vc_baseURL c @ path) = None" by blast
    obtain nr body w' where n: "ve_net V (api_request c method path (ds_body s0) token) w = (nr, body, w')"
      by (metis prod_cases3)
    show ?thesis
    proof (cases "\<exists>resp ty dec. nr = Inr resp \<and> 200 \<le> hs_status resp \<and> hs_status resp < 300 \<and> result = Some (ty, dec)")
      case False
      with assms g t n show ?thesis
        by (cases nr; cases result) (auto simp: do_attempt_def Let_def split: if_splits)
    next
      case True
      then obtain resp ty dec where r: "nr = Inr resp" "200 \<le> hs_status resp" "hs_status resp < 300" "result = Some (ty, dec)"
        by blast
      obtain d v where d: "decodeJSON (ve_lib V) ty dec resp (ds_result s0) = (d, v)" by fastforce
      with assms g t n r obtain e' where "d = Some e'" "ds_result s = v"
        by (cases d) (auto simp: do_attempt_def Let_def)
      with n r d show ?thesis by blast
    qed
  qed
qed

lemma attempts_leftover:
  assumes "\<And>j. j < k \<Longrightarrow> attempt_result (do_attempt V method path result) s j \<noteq> None"
  shows "\<exists>n\<le>k. leftover V result (ds_result s) n (ds_result (attempt_state (do_attempt V method path result) s k))"
  using assms
proof (induction k)
  case 0
  show ?case by (simp add: leftover.untouched)
next
  case (Suc k)
  let ?fn = "do_attempt V method path result"
  from Suc obtain n where n: "n \<le> k" "leftover V result (ds_result s) n (ds_result (attempt_state ?fn s k))"
    by (meson less_SucI)
  obtain e where "attempt_result ?fn s k = Some e" using Suc.prems [of k] by auto
  then have "?fn (attempt_state ?fn s k) = (Some e, attempt_state ?fn s (Suc k))" by (simp add: fn_attempt)
  from do_attempt_failed [OF this] show ?case
  proof (elim disjE exE conjE)
    assume "ds_result (attempt_state ?fn s (Suc k)) = ds_result (attempt_state ?fn s k)"
    with n show ?thesis by (intro exI [of _ n]) simp
  next
    fix ty dec req w resp body w' e'
    assume "result = Some (ty, dec)" "ve_net V req w = (Inr resp, body, w')" "200 \<le> hs_status resp"
      "hs_status resp < 300"
      "decodeJSON (ve_lib V) ty dec resp (ds_result (attempt_state ?fn s k)) = (Some e', ds_result (attempt_state ?fn s (Suc k)))"
    from leftover.undecodable [OF n(2) this] n(1) show ?thesis by (intro exI [of _ "Suc n"]) simp
  qed
qed

lemma vcd_do_config:
  assumes "vcd_do V method path body result v c w = (res, s, slept)"
  shows "same_config c (ds_client s)"
proof -
  let ?init = "\<lparr>ds_client = c, ds_body = body, ds_result = v, ds_world = w\<rparr>"
  have "same_config c (ds_client ?init)" by (simp add: same_config_def)
  from vcd_attempts.Do_keeps [OF _ this, of 3] assms show ?thesis
    unfolding vcd_do_def by (metis fst_conv snd_conv zero_less_numeral sint_numeral_3)
qed

text \<open>The last attempt of a call that succeeds.\<close>

lemma vcd_do_last:
  assumes "vcd_do V method path body result v c w = (None, s, slept)"
  obtains s0 n where "do_attempt V method path result s0 = (None, s)" "n \<le> 2" "leftover V result v n (ds_result s0)"
proof -
  let ?init = "\<lparr>ds_client = c, ds_body = body, ds_result = v, ds_world = w\<rparr>"
  let ?fn = "do_attempt V method path result"
  obtain k r where k: "stops_at (ve_lib V) (ve_retry V) (nat (sint (3 :: int64))) ?fn ?init k r"
    "retry_Do (ve_lib V) (ve_retry V) 3 ?fn ?init =
      (r, attempt_state ?fn ?init (Suc k), map (backoff (ve_retry V)) [0..<k])"
    using retry_Do_stops [OF sint_numeral_3(1)] .
  with assms have s: "r = None" "s = attempt_state ?fn ?init (Suc k)" by (simp_all add: vcd_do_def)
  from k(1) have "k \<le> 2" and failed: "\<And>j. j < k \<Longrightarrow> attempt_result ?fn ?init j \<noteq> None"
    and res: "attempt_result ?fn ?init k = None"
    by (auto simp: stops_at_def s(1) sint_numeral_3 split: option.splits if_splits)
  from attempts_leftover [OF failed] obtain n where
    "n \<le> k" "leftover V result v n (ds_result (attempt_state ?fn ?init k))" by auto
  with \<open>k \<le> 2\<close> res that [of "attempt_state ?fn ?init k" n] show thesis by (simp add: fn_attempt s(2))
qed

text \<open>C14: \<open>do\<close> reports success only on success. When it returns nil, the last thing it sent was
  the request with a non-empty bearer token, the client's current one; the answer had a
  2xx status; and the result variable holds what that answer decodes to, over its old contents or
  what at most two undecodable 2xx answers made of them. When the caller gave no result to decode
  into, its variable is as it was. Whatever happens, no field of the client but the token changes.\<close>

theorem do_success_is_2xx:
  assumes "vcd_do V method path body result v c w = (res, s, slept)"
  shows "same_config c (ds_client s) \<and>
    (res = None \<longrightarrow> (\<exists>b0 w0 resp. vc_token (ds_client s) \<noteq> [] \<and>
       ve_net V (api_request (ds_client s) method path b0 (vc_token (ds_client s))) w0 =
         (Inr resp, ds_body s, ds_world s) \<and>
       200 \<le> hs_status resp \<and> hs_status resp < 300 \<and>
       (case result of None \<Rightarrow> ds_result s = v
        | Some (ty, dec) \<Rightarrow> \<exists>n\<le>2. \<exists>v0. leftover V result v n v0 \<and>
            decodeJSON (ve_lib V) ty dec resp v0 = (None, ds_result s))))"
proof (intro conjI impI)
  assume "res = None"
  with assms obtain s0 n where last: "do_attempt V method path result s0 = (None, s)"
    and n: "n \<le> 2" "leftover V result v n (ds_result s0)" by (metis vcd_do_last)
  from do_attempt_success [OF last] obtain token w1 resp where a:
    "token \<noteq> []" "vc_token (ds_client s) = token"
    "ve_net V (api_request (ds_client s) method path (ds_body s0) token) w1 = (Inr resp, ds_body s, ds_world s)"
    "200 \<le> hs_status resp" "hs_status resp < 300"
    "case result of None \<Rightarrow> ds_result s = ds_result s0
     | Some (ty, dec) \<Rightarrow> decodeJSON (ve_lib V) ty dec resp (ds_result s0) = (None, ds_result s)"
    by blast
  from n have "result = None \<Longrightarrow> ds_result s0 = v" by (auto elim: leftover_nil)
  with a n show "\<exists>b0 w0 resp. vc_token (ds_client s) \<noteq> [] \<and>
       ve_net V (api_request (ds_client s) method path b0 (vc_token (ds_client s))) w0 =
         (Inr resp, ds_body s, ds_world s) \<and>
       200 \<le> hs_status resp \<and> hs_status resp < 300 \<and>
       (case result of None \<Rightarrow> ds_result s = v
        | Some (ty, dec) \<Rightarrow> \<exists>n\<le>2. \<exists>v0. leftover V result v n v0 \<and>
            decodeJSON (ve_lib V) ty dec resp v0 = (None, ds_result s))"
    by (intro exI [of _ "ds_body s0"] exI [of _ w1] exI [of _ resp]) (auto split: option.splits)
qed (rule vcd_do_config [OF assms])

text \<open>A network that records the requests and answers by a fixed function of the request.\<close>

definition recording :: "(http_request \<Rightarrow> http_response) \<Rightarrow> http_request list network" where
  "recording answer req log = (Inr (answer req), hr_body req, log @ [req])"

definition uncancelled :: "'w vcd_env \<Rightarrow> bool" where
  "uncancelled V \<longleftrightarrow> (\<forall>i. ctx_err (ve_retry V) i = None) \<and> (\<forall>m u. ve_request_err V m u = None)"

text \<open>An error that is not retryable is retried all the same. When the server answers the
  request with a status that is neither 2xx nor 401 (a 404, say, for which \<open>IsRetryable\<close> is
  false), \<open>do\<close> sends the same request three times, with two waits, before it returns the
  error of the last answer.\<close>

theorem do_repeats_every_api_error:
  assumes net: "ve_net V = recording answer" and env: "uncancelled V" and token: "vc_token c \<noteq> []"
    and status: "\<And>req. hs_status (answer req) = st" "\<And>req. hs_body (answer req) = txt"
    and bad: "st < 200 \<or> 300 \<le> st" "st \<noteq> 401"
  shows "vcd_do V method path body result v c log =
    (Some (ErrAPI \<lparr>ae_status = st, ae_body = txt, ae_method = method, ae_path = path\<rparr>),
     \<lparr>ds_client = c, ds_body = body, ds_result = v,
      ds_world = log @ replicate 3 (api_request c method path body (vc_token c))\<rparr>,
     [backoff (ve_retry V) 0, backoff (ve_retry V) 1])"
proof -
  have att: "do_attempt V method path result \<lparr>ds_client = c, ds_body = body, ds_result = v, ds_world = l\<rparr> =
    (Some (ErrAPI \<lparr>ae_status = st, ae_body = txt, ae_method = method, ae_path = path\<rparr>),
     \<lparr>ds_client = c, ds_body = body, ds_result = v,
      ds_world = l @ [api_request c method path body (vc_token c)]\<rparr>)" for l
    using env token status bad
    by (auto simp: do_attempt_def Let_def getToken_def net recording_def uncancelled_def api_request_def)
  have "ctx_err (ve_retry V) i = None" for i using env by (simp add: uncancelled_def)
  then show ?thesis by (simp add: vcd_do_def retry_Do_3 att numeral_3_eq_3)
qed

definition answer_404 :: "http_request \<Rightarrow> http_response" where
  "answer_404 req = \<lparr>hs_status = 404, hs_headers = [], hs_body = ''gone'', hs_read_err = None\<rparr>"

definition sample_client :: vcd_client where
  "sample_client = (vcd_New ''https://vcd/'' ''38.0'' ''u'' ''p'' ''System'')\<lparr>vc_token := ''t0''\<rparr>"

definition sample_vcd_env :: "(http_request \<Rightarrow> http_response) \<Rightarrow> http_request list vcd_env" where
  "sample_vcd_env answer =
     \<lparr>ve_lib = ascii_tables, ve_net = recording answer, ve_retry = quiet_env,
      ve_request_err = (\<lambda>_ _. None)\<rparr>"

lemma sample_env_ok: "uncancelled (sample_vcd_env answer)" "ve_net (sample_vcd_env answer) = recording answer"
  by (simp_all add: uncancelled_def sample_vcd_env_def quiet_env_def)

lemma do_repeats_every_api_error_witness:
  "fst (vcd_do (sample_vcd_env answer_404) ''GET'' ''/x'' None None () sample_client []) =
      Some (ErrAPI \<lparr>ae_status = 404, ae_body = ''gone'', ae_method = ''GET'', ae_path = ''/x''\<rparr>) \<and>
   length (ds_world (fst (snd (vcd_do (sample_vcd_env answer_404) ''GET'' ''/x'' None None () sample_client [])))) = 3"
  using do_repeats_every_api_error [OF sample_env_ok(2,1), of sample_client answer_404 404 "''gone''" "''GET''" "''/x''" None None "()" "[]"]
  by (simp add: answer_404_def sample_client_def)

text \<open>C34: a server that keeps answering 401 is asked for a new token twice, not once. With a
  cached token, \<open>do\<close> sends the request, re-authenticates, sends it, re-authenticates again
  and sends it a third time; it returns the 401 and leaves the client without a token.\<close>

theorem do_reauthenticates_twice:
  assumes net: "ve_net V = recording answer" and env: "uncancelled V" and token: "vc_token c \<noteq> []"
    and auth: "hs_status (answer (auth_request c)) = 200"
      "header_get (hs_headers (answer (auth_request c))) ''X-VMWARE-VCLOUD-ACCESS-TOKEN'' = t" "t \<noteq> []"
    and api: "\<And>tok. hs_status (answer (api_request c m p body tok)) = 401"
  shows "\<exists>slept. vcd_do V m p body result v c log =
    (Some (ErrAPI \<lparr>ae_status = 401, ae_body = [], ae_method = m, ae_path = p\<rparr>),
     \<lparr>ds_client = c\<lparr>vc_token := []\<rparr>, ds_body = body, ds_result = v,
      ds_world = log @ [api_request c m p body (vc_token c), auth_request c,
        api_request c m p body t, auth_request c, api_request c m p body t]\<rparr>, slept)"
proof -
  let ?e = "ErrAPI \<lparr>ae_status = 401, ae_body = [], ae_method = m, ae_path = p\<rparr>"
  have same: "api_request (c\<lparr>vc_token := x\<rparr>) m p body y = api_request c m p body y"
    "auth_request (c\<lparr>vc_token := x\<rparr>) = auth_request c" for x y
    by (simp_all add: api_request_def auth_request_def accept_header_def)
  have ok: "ctx_err (ve_retry V) i = None" "ve_request_err V m u = None" for i m u
    using env by (simp_all add: uncancelled_def)
  have first: "do_attempt V m p result \<lparr>ds_client = c, ds_body = body, ds_result = v, ds_world = log\<rparr> =
    (Some ?e, \<lparr>ds_client = c\<lparr>vc_token := []\<rparr>, ds_body = body, ds_result = v,
      ds_world = log @ [api_request c m p body (vc_token c)]\<rparr>)"
    using token api
    by (simp add: do_attempt_def Let_def getToken_def net recording_def ok clearToken_def)
      (simp add: api_request_def)
  have later: "do_attempt V m p result
      \<lparr>ds_client = c\<lparr>vc_token := []\<rparr>, ds_body = body, ds_result = v, ds_world = l\<rparr> =
    (Some ?e, \<lparr>ds_client = c\<lparr>vc_token := []\<rparr>, ds_body = body, ds_result = v,
      ds_world = l @ [auth_request c, api_request c m p body t]\<rparr>)" for l
    using auth api
    by (simp add: do_attempt_def Let_def getToken_def authenticate_def net recording_def ok clearToken_def same)
      (simp add: api_request_def)
  show ?thesis by (simp add: vcd_do_def retry_Do_3 first later ok)
qed

definition answer_401 :: "http_request \<Rightarrow> http_response" where
  "answer_401 req =
     (if hr_method req = ''POST''
      then \<lparr>hs_status = 200, hs_headers = [(''X-Vmware-Vcloud-Access-Token'', ''t1'')], hs_body = [], hs_read_err = None\<rparr>
      else \<lparr>hs_status = 401, hs_headers = [], hs_body = [], hs_read_err = None\<rparr>)"

lemma do_reauthenticates_twice_witness:
  "length (filter (\<lambda>r. hr_method r = ''POST'')
     (ds_world (fst (snd (vcd_do (sample_vcd_env answer_401) ''GET'' ''/x'' None None () sample_client []))))) = 2"
proof -
  have h: "header_get (hs_headers (answer_401 (auth_request sample_client))) ''X-VMWARE-VCLOUD-ACCESS-TOKEN'' = ''t1''"
    by (simp add: header_get_def answer_401_def auth_request_def lower_char_def) (simp add: chr_eval)
  have tok: "vc_token sample_client \<noteq> []" by (simp add: sample_client_def)
  have st: "hs_status (answer_401 (auth_request sample_client)) = 200"
    by (simp add: answer_401_def auth_request_def)
  have api: "hs_status (answer_401 (api_request sample_client ''GET'' ''/x'' None tok)) = 401" for tok
    by (simp add: answer_401_def api_request_def)
  obtain slept where "vcd_do (sample_vcd_env answer_401) ''GET'' ''/x'' None None () sample_client [] =
    (Some (ErrAPI \<lparr>ae_status = 401, ae_body = [], ae_method = ''GET'', ae_path = ''/x''\<rparr>),
     \<lparr>ds_client = sample_client\<lparr>vc_token := []\<rparr>, ds_body = None, ds_result = (),
      ds_world = [] @ [api_request sample_client ''GET'' ''/x'' None (vc_token sample_client), auth_request sample_client,
        api_request sample_client ''GET'' ''/x'' None ''t1'', auth_request sample_client,
        api_request sample_client ''GET'' ''/x'' None ''t1'']\<rparr>, slept)"
    using do_reauthenticates_twice [where answer = answer_401 and t = "''t1''" and c = sample_client and
        V = "sample_vcd_env answer_401" and m = "''GET''" and p = "''/x''" and body = None and
        result = None and v = "()" and log = "[]", OF sample_env_ok(2,1) tok st h] api
    by auto
  then show ?thesis by (simp add: api_request_def auth_request_def)
qed

text \<open>The second attempt succeeds: the token was refused once, and the new one is accepted.\<close>

definition answer_renewed :: "http_request \<Rightarrow> http_response" where
  "answer_renewed req =
     (if hr_method req = ''POST''
      then \<lparr>hs_status = 200, hs_headers = [(''X-Vmware-Vcloud-Access-Token'', ''t1'')], hs_body = [], hs_read_err = None\<rparr>
      else if (''Authorization'', ''Bearer t1'') \<in> set (hr_headers req)
      then \<lparr>hs_status = 200, hs_headers = [], hs_body = ''fine'', hs_read_err = None\<rparr>
      else \<lparr>hs_status = 401, hs_headers = [], hs_body = [], hs_read_err = None\<rparr>)"

lemma do_success_is_2xx_witness:
  "\<exists>s slept. vcd_do (sample_vcd_env answer_renewed) ''GET'' ''/x'' None None (7 :: nat) sample_client [] = (None, s, slept) \<and>
    length (ds_world s) = 3 \<and> ds_result s = 7 \<and> vc_token (ds_client s) = ''t1'' \<and> same_config sample_client (ds_client s) \<and>
    (\<exists>b0 w0 resp. recording answer_renewed (api_request (ds_client s) ''GET'' ''/x'' b0 (vc_token (ds_client s))) w0 =
       (Inr resp, ds_body s, ds_world s) \<and> 200 \<le> hs_status resp \<and> hs_status resp < 300)"
proof -
  let ?V = "sample_vcd_env answer_renewed"
  have h: "header_get [(''X-Vmware-Vcloud-Access-Token'', ''t1'')] ''X-VMWARE-VCLOUD-ACCESS-TOKEN'' = ''t1''"
    by (simp add: header_get_def lower_char_def) (simp add: chr_eval)
  have V: "ve_net ?V = recording answer_renewed" "ve_request_err ?V m u = None" "ctx_err (ve_retry ?V) i = None" for m u i
    by (simp_all add: sample_vcd_env_def quiet_env_def)
  let ?c = "sample_client\<lparr>vc_token := []\<rparr>" and ?d = "sample_client\<lparr>vc_token := ''t1''\<rparr>"
  have first: "do_attempt ?V ''GET'' ''/x'' None \<lparr>ds_client = sample_client, ds_body = None, ds_result = 7, ds_world = []\<rparr> =
    (Some (ErrAPI \<lparr>ae_status = 401, ae_body = [], ae_method = ''GET'', ae_path = ''/x''\<rparr>),
     \<lparr>ds_client = ?c, ds_body = None, ds_result = (7 :: nat),
      ds_world = [api_request sample_client ''GET'' ''/x'' None ''t0'']\<rparr>)"
    by (simp add: do_attempt_def Let_def getToken_def V recording_def sample_client_def vcd_New_def answer_renewed_def
        api_request_def accept_header_def clearToken_def)
  have second: "do_attempt ?V ''GET'' ''/x'' None \<lparr>ds_client = ?c, ds_body = None, ds_result = 7, ds_world = l\<rparr> =
    (None, \<lparr>ds_client = ?d, ds_body = None, ds_result = (7 :: nat),
      ds_world = l @ [auth_request ?c, api_request ?d ''GET'' ''/x'' None ''t1'']\<rparr>)" for l
    by (simp add: do_attempt_def Let_def getToken_def authenticate_def V recording_def sample_client_def vcd_New_def
        answer_renewed_def api_request_def auth_request_def accept_header_def h)
  obtain s slept where run: "vcd_do ?V ''GET'' ''/x'' None None (7 :: nat) sample_client [] = (None, s, slept)"
    and s: "ds_client s = ?d" "length (ds_world s) = 3"
    by (simp add: vcd_do_def retry_Do_3 first second V)
  from do_success_is_2xx [OF run] V(1) have "same_config sample_client (ds_client s)" "ds_result s = 7"
    "\<exists>b0 w0 resp. recording answer_renewed (api_request (ds_client s) ''GET'' ''/x'' b0 (vc_token (ds_client s))) w0 =
       (Inr resp, ds_body s, ds_world s) \<and> 200 \<le> hs_status resp \<and> hs_status resp < 300" by auto
  with run s show ?thesis by (intro exI [of _ s] exI [of _ slept]) simp
qed

text \<open>C33: the outcome of \<open>GetOrganization\<close>. It returns the first organization of the list the server
  answered; an empty list is an error of its own, which carries no API error, so that
  \<open>IsNotFound\<close> does not recognise it and \<open>IsRetryable\<close> does; and an error of \<open>do\<close> is wrapped so
  that both classifications see through.\<close>

theorem GetOrganization_outcome:
  assumes "vcd_do V ''GET'' (org_path name) None
      (Some (''*vcd.organizationResult'', dec_organizationResult (ve_lib V))) zero_organizationResult c w = (res, s, slept)"
  shows "case GetOrganization V name c w of (out, c', w') \<Rightarrow>
    c' = ds_client s \<and> w' = ds_world s \<and>
    (case res of
       Some e \<Rightarrow> (\<exists>e'. out = Inl e' \<and> vcd_IsNotFound (Some e') = vcd_IsNotFound (Some e) \<and>
                       vcd_IsRetryable (Some e') = vcd_IsRetryable (Some e))
     | None \<Rightarrow>
         (case slice_elems (or_Values (ds_result s)) of
            v # _ \<Rightarrow> out = Inr v
          | [] \<Rightarrow> (\<exists>e'. out = Inl e' \<and> \<not> vcd_IsNotFound (Some e') \<and> vcd_IsRetryable (Some e'))))"
  using assms errorf.api_wrap
  by (cases res)
    (auto simp: GetOrganization_def Let_def vcd_IsNotFound_def vcd_IsRetryable_def err_simps split: list.splits)

definition answer_empty :: "http_request \<Rightarrow> http_response" where
  "answer_empty req = \<lparr>hs_status = 200, hs_headers = [], hs_body = enc_object [], hs_read_err = None\<rparr>"

lemma GetOrganization_outcome_witness:
  "\<exists>e. fst (GetOrganization (sample_vcd_env answer_empty) ''acme'' sample_client []) = Inl e \<and>
     \<not> vcd_IsNotFound (Some e) \<and> vcd_IsRetryable (Some e)"
proof -
  let ?V = "sample_vcd_env answer_empty"
  have p: "json_parse (enc_object []) = Some (JObj [])"
    using json_parse_enc_object [of "[]"] by (simp add: scalar_members_def)
  have "do_attempt ?V ''GET'' (org_path ''acme'') (Some (''*vcd.organizationResult'', dec_organizationResult ascii_tables))
      \<lparr>ds_client = sample_client, ds_body = None, ds_result = zero_organizationResult, ds_world = []\<rparr> =
    (None, \<lparr>ds_client = sample_client, ds_body = None, ds_result = zero_organizationResult,
      ds_world = [api_request sample_client ''GET'' (org_path ''acme'') None ''t0'']\<rparr>)"
    by (simp add: do_attempt_def Let_def getToken_def sample_client_def sample_vcd_env_def recording_def
        answer_empty_def decodeJSON_def json_unmarshal_def p dec_organizationResult_def)
      (simp add: api_request_def)
  then have "vcd_do ?V ''GET'' (org_path ''acme'') None
      (Some (''*vcd.organizationResult'', dec_organizationResult (ve_lib ?V))) zero_organizationResult sample_client [] =
    (None, \<lparr>ds_client = sample_client, ds_body = None, ds_result = zero_organizationResult,
      ds_world = [api_request sample_client ''GET'' (org_path ''acme'') None ''t0'']\<rparr>, [])"
    by (simp add: vcd_do_def retry_Do_3) (simp add: sample_vcd_env_def)
  from GetOrganization_outcome [OF this] show ?thesis
    by (auto simp: zero_organizationResult_def slice_elems_def split: prod.splits)
qed

end
