(* ===== verification/VcdSharing.thy ===== *)
theory VcdSharing
  imports VcdClient "HOL-Library.Multiset"
begin

text \<open>
  One VCD client shared by the goroutines of concurrent requests. \<open>VcdClient\<close> takes a call
  of \<open>do\<close> as one transition; here it is what the code makes of it: \<open>getToken\<close> and \<open>clearToken\<close>
  hold the mutex, \<open>authenticate\<close> keeps it during its exchange with the server, and between
  these critical sections any other goroutine may run. A goroutine is a program counter with
  its local variables, a schedule is the list of the goroutines that take the steps.
\<close>

section \<open>One goroutine in \<open>do\<close>\<close>

text \<open>Where a goroutine stands: before the \<open>Lock\<close> of \<open>getToken\<close>; in \<open>authenticate\<close>, holding the
  mutex; with a token, before the request; before the \<open>Lock\<close> of \<open>clearToken\<close>; with the error
  of an attempt, in \<open>retry.Do\<close>; returned.\<close>

datatype pc =
    AtLock
  | AtAuth
  | AtSend string
  | AtClear
  | AtFailed go_error
  | Returned "go_error option"

record 'r goroutine =
  gr_method :: string
  gr_path :: string
  gr_decode :: "(string \<times> 'r decoder) option"
  gr_retry :: retry_env
  gr_attempt :: nat
  gr_body :: "string option"
  gr_result :: 'r
  gr_slept :: "int64 list"
  gr_pc :: pc

record 'w shared =
  sh_client :: vcd_client
  sh_owner :: "nat option"
  sh_world :: 'w

text \<open>What the function literal of \<open>do\<close> makes of the answer to its request.\<close>

definition handle_answer :: "go_lib \<Rightarrow> 'r goroutine \<Rightarrow> go_error + http_response \<Rightarrow> 'r goroutine" where
  "handle_answer U g r =
     (let m = gr_method g; p = gr_path g
      in case r of
        Inl e \<Rightarrow> g\<lparr>gr_pc := AtFailed (errorf_w U (m @ '' '' @ p @ '': '') e)\<rparr>
      | Inr resp \<Rightarrow>
          if hs_status resp = 401 then g\<lparr>gr_pc := AtClear\<rparr>
          else if hs_status resp < 200 \<or> 300 \<le> hs_status resp then
            g\<lparr>gr_pc := AtFailed (ErrAPI \<lparr>ae_status = hs_status resp, ae_body = hs_body resp,
                ae_method = m, ae_path = p\<rparr>)\<rparr>
          else case gr_decode g of
            None \<Rightarrow> g\<lparr>gr_pc := Returned None\<rparr>
          | Some (ty, dec) \<Rightarrow>
              (case decodeJSON U ty dec resp (gr_result g) of
                 (Some e, v) \<Rightarrow> g\<lparr>gr_result := v, gr_pc := AtFailed (errorf_w U (''decode '' @ m @ '' '' @ p @ '': '') e)\<rparr>
               | (None, v) \<Rightarrow> g\<lparr>gr_result := v, gr_pc := Returned None\<rparr>))"

text \<open>The loop of \<open>retry.Do\<close> with its three attempts, after an attempt that failed.\<close>

definition retry_step :: "go_lib \<Rightarrow> 'r goroutine \<Rightarrow> go_error \<Rightarrow> 'r goroutine" where
  "retry_step U g e =
     (let i = gr_attempt g
      in if 2 \<le> i then g\<lparr>gr_pc := Returned (Some e)\<rparr>
         else case ctx_err (gr_retry g) i of
           Some c \<Rightarrow> g\<lparr>gr_pc := Returned (Some (retry_cancelled U c e))\<rparr>
         | None \<Rightarrow> g\<lparr>gr_attempt := Suc i, gr_slept := gr_slept g @ [backoff (gr_retry g) i], gr_pc := AtLock\<rparr>)"

text \<open>The next step of goroutine \<open>i\<close>; \<open>None\<close> when it waits for the mutex or has returned.\<close>

fun step_at :: "'w vcd_env \<Rightarrow> nat \<Rightarrow> 'w shared \<Rightarrow> 'r goroutine \<Rightarrow> pc \<Rightarrow> ('w shared \<times> 'r goroutine) option" where
  "step_at V i sh g AtLock =
     (if sh_owner sh \<noteq> None then None
      else if vc_token (sh_client sh) \<noteq> [] then Some (sh, g\<lparr>gr_pc := AtSend (vc_token (sh_client sh))\<rparr>)
      else Some (sh\<lparr>sh_owner := Some i\<rparr>, g\<lparr>gr_pc := AtAuth\<rparr>))"
| "step_at V i sh g AtAuth =
     (case authenticate V (sh_client sh) (sh_world sh) of
        (e, c, w) \<Rightarrow>
          Some (\<lparr>sh_client = c, sh_owner = None, sh_world = w\<rparr>,
            g\<lparr>gr_pc := (case e of Some e \<Rightarrow> AtFailed (errorf_w (ve_lib V) ''get token: '' e)
                                | None \<Rightarrow> AtSend (vc_token c))\<rparr>))"
| "step_at V i sh g (AtSend token) =
     (case ve_request_err V (gr_method g) (vc_baseURL (sh_client sh) @ gr_path g) of
        Some e \<Rightarrow> Some (sh, g\<lparr>gr_pc := AtFailed (errorf_w (ve_lib V) ''create request: '' e)\<rparr>)
      | None \<Rightarrow>
          (case ve_net V (api_request (sh_client sh) (gr_method g) (gr_path g) (gr_body g) token) (sh_world sh) of
             (r, body, w) \<Rightarrow> Some (sh\<lparr>sh_world := w\<rparr>, handle_answer (ve_lib V) (g\<lparr>gr_body := body\<rparr>) r)))"
| "step_at V i sh g AtClear =
     (if sh_owner sh \<noteq> None then None
      else Some (sh\<lparr>sh_client := clearToken (sh_client sh)\<rparr>,
        g\<lparr>gr_pc := AtFailed (ErrAPI \<lparr>ae_status = 401, ae_body = [], ae_method = gr_method g, ae_path = gr_path g\<rparr>)\<rparr>))"
| "step_at V i sh g (AtFailed e) = Some (sh, retry_step (ve_lib V) g e)"
| "step_at V i sh g (Returned r) = None"

definition gstep :: "'w vcd_env \<Rightarrow> nat \<Rightarrow> 'w shared \<times> 'r goroutine \<Rightarrow> ('w shared \<times> 'r goroutine) option" where
  "gstep V i x = (case x of (sh, g) \<Rightarrow> step_at V i sh g (gr_pc g))"

text \<open>A call of \<open>do\<close> before its first step.\<close>

definition call_do :: "string \<Rightarrow> string \<Rightarrow> string option \<Rightarrow> (string \<times> 'r decoder) option \<Rightarrow> 'r \<Rightarrow>
    retry_env \<Rightarrow> 'r goroutine" where
  "call_do method path body decode v env =
     \<lparr>gr_method = method, gr_path = path, gr_decode = decode, gr_retry = env, gr_attempt = 0,
      gr_body = body, gr_result = v, gr_slept = [], gr_pc = AtLock\<rparr>"

section \<open>Many goroutines\<close>

text \<open>What the schedule leaves in the history: a new token, a token used for a request (and
  whether the answer was 401), and the token cleared.\<close>

datatype event = Acquired nat string | Sent nat string bool | Cleared nat

fun observe :: "nat \<Rightarrow> pc \<Rightarrow> pc \<Rightarrow> event list" where
  "observe i AtAuth (AtSend t) = [Acquired i t]"
| "observe i (AtSend t) p = [Sent i t (p = AtClear)]"
| "observe i AtClear p = [Cleared i]"
| "observe i _ _ = []"

record ('r, 'w) sharing =
  sg_shared :: "'w shared"
  sg_go :: "nat \<Rightarrow> 'r goroutine"
  sg_history :: "event list"

definition sstep :: "'w vcd_env \<Rightarrow> nat \<Rightarrow> ('r, 'w) sharing \<Rightarrow> ('r, 'w) sharing option" where
  "sstep V i S =
     (case gstep V i (sg_shared S, sg_go S i) of
        None \<Rightarrow> None
      | Some (sh, g) \<Rightarrow>
          Some \<lparr>sg_shared = sh, sg_go = (sg_go S)(i := g),
                sg_history = sg_history S @ observe i (gr_pc (sg_go S i)) (gr_pc g)\<rparr>)"

text \<open>A schedule is possible when every goroutine it names can take its step.\<close>

fun run_schedule :: "'w vcd_env \<Rightarrow> nat list \<Rightarrow> ('r, 'w) sharing \<Rightarrow> ('r, 'w) sharing option" where
  "run_schedule V [] S = Some S"
| "run_schedule V (i # is) S = (case sstep V i S of None \<Rightarrow> None | Some S' \<Rightarrow> run_schedule V is S')"

text \<open>Any number of calls on a client nobody uses yet.\<close>

definition fresh :: "('r, 'w) sharing \<Rightarrow> bool" where
  "fresh S \<longleftrightarrow> sh_owner (sg_shared S) = None \<and> sg_history S = [] \<and>
     (\<forall>i. gr_pc (sg_go S i) = AtLock \<and> gr_attempt (sg_go S i) = 0)"


section \<open>Each goroutine takes at most fifteen steps\<close>

fun pc_left :: "pc \<Rightarrow> nat" where
  "pc_left AtLock = 5"
| "pc_left AtAuth = 4"
| "pc_left (AtSend t) = 3"
| "pc_left AtClear = 2"
| "pc_left (AtFailed e) = 1"
| "pc_left (Returned r) = 0"

definition returned :: "'r goroutine \<Rightarrow> bool" where
  "returned g \<longleftrightarrow> (\<exists>r. gr_pc g = Returned r)"

definition steps_left :: "'r goroutine \<Rightarrow> nat" where
  "steps_left g = (if returned g then 0 else 5 * (2 - gr_attempt g) + pc_left (gr_pc g))"

lemma pc_left_0 [simp]: "pc_left p = 0 \<longleftrightarrow> (\<exists>r. p = Returned r)"
  by (cases p) simp_all

lemma steps_left_0: "steps_left g = 0 \<longleftrightarrow> returned g"
  by (auto simp: steps_left_def returned_def)

lemma steps_left_bound: "gr_pc g = AtLock \<Longrightarrow> gr_attempt g = 0 \<Longrightarrow> steps_left g = 15"
  by (simp add: steps_left_def returned_def)

lemma handle_answer_next:
  "gr_attempt (handle_answer U g r) = gr_attempt g"
  "pc_left (gr_pc (handle_answer U g r)) < 3"
  by (auto simp: handle_answer_def Let_def split: sum.splits option.splits prod.splits)

lemma retry_step_next: "gr_pc g = AtFailed e \<Longrightarrow> steps_left (retry_step U g e') < steps_left g"
  by (auto simp: retry_step_def steps_left_def returned_def Let_def split: option.splits)

lemma steps_left_attempt:
  "gr_attempt g' = gr_attempt g \<Longrightarrow> pc_left (gr_pc g') < pc_left (gr_pc g) \<Longrightarrow> steps_left g' < steps_left g"
  by (auto simp: steps_left_def returned_def)

lemma gstep_decreases:
  assumes "gstep V i (sh, g) = Some (sh', g')"
  shows "steps_left g' < steps_left g"
proof (cases "gr_pc g")
  case AtLock
  with assms show ?thesis by (intro steps_left_attempt) (auto simp: gstep_def split: if_splits)
next
  case AtAuth
  with assms show ?thesis
    by (intro steps_left_attempt) (auto simp: gstep_def split: prod.splits option.splits)
next
  case (AtSend t)
  with assms show ?thesis
    by (intro steps_left_attempt)
      (auto simp: gstep_def handle_answer_next split: prod.splits option.splits)
next
  case AtClear
  with assms show ?thesis by (intro steps_left_attempt) (auto simp: gstep_def split: if_splits)
next
  case (AtFailed e)
  with assms show ?thesis by (auto simp: gstep_def intro: retry_step_next)
next
  case (Returned r)
  with assms show ?thesis by (simp add: gstep_def)
qed

text \<open>A goroutine is only stopped by the mutex: it can step when it holds the mutex or nobody does.\<close>

lemma gstep_enabled:
  "\<not> returned g \<Longrightarrow> sh_owner sh = None \<or> gr_pc g = AtAuth \<Longrightarrow> \<exists>y. gstep V i (sh, g) = Some y"
  by (cases "gr_pc g") (auto simp: gstep_def returned_def split: prod.splits option.splits)

lemma run_schedule_append:
  "run_schedule V (is @ js) S = (case run_schedule V is S of None \<Rightarrow> None | Some S' \<Rightarrow> run_schedule V js S')"
  by (induction "is" arbitrary: S) (auto split: option.splits)

text \<open>The contract of an invariant: every step of every goroutine keeps it. Then every schedule does.\<close>

locale step_invariant =
  fixes V :: "'w vcd_env" and P :: "('r, 'w) sharing \<Rightarrow> bool"
  assumes step_keeps: "sstep V i S = Some S' \<Longrightarrow> P S \<Longrightarrow> P S'"
begin

lemma run_keeps: "run_schedule V is S = Some S' \<Longrightarrow> P S \<Longrightarrow> P S'"
proof (induction "is" arbitrary: S)
  case (Cons i "is")
  then obtain S1 where s: "sstep V i S = Some S1" by (cases "sstep V i S") simp_all
  with Cons.prems(1) have "run_schedule V is S1 = Some S'" by simp
  from Cons.IH [OF this step_keeps [OF s Cons.prems(2)]] show ?case .
qed simp

end

lemma handle_answer_pc:
  "gr_pc (handle_answer U g r) \<noteq> AtAuth" "gr_pc (handle_answer U g r) \<noteq> AtSend t" "gr_pc (handle_answer U g r) \<noteq> AtLock"
  by (auto simp: handle_answer_def Let_def split: sum.splits option.splits prod.splits)

lemma retry_step_pc:
  "gr_pc (retry_step U g e) \<noteq> AtAuth" "gr_pc (retry_step U g e) \<noteq> AtSend t" "gr_pc (retry_step U g e) \<noteq> AtClear"
  by (auto simp: retry_step_def Let_def split: option.splits)

text \<open>The kinds of steps there are, with their effects.\<close>

lemma authenticate_token:
  "authenticate V c w = (None, c', w') \<Longrightarrow> vc_token c' \<noteq> [] \<and> same_config c c'"
  "authenticate V c w = (Some e, c', w') \<Longrightarrow> c' = c"
  by (auto simp: authenticate_def same_config_def Let_def split: option.splits sum.splits prod.splits if_splits)

lemma gstep_cases:
  assumes "gstep V i (sh, g) = Some (sh', g')"
  obtains (cached) "gr_pc g = AtLock" "sh_owner sh = None" "vc_token (sh_client sh) \<noteq> []"
      "sh' = sh" "g' = g\<lparr>gr_pc := AtSend (vc_token (sh_client sh))\<rparr>"
    | (lock) "gr_pc g = AtLock" "sh_owner sh = None" "vc_token (sh_client sh) = []"
      "sh' = sh\<lparr>sh_owner := Some i\<rparr>" "g' = g\<lparr>gr_pc := AtAuth\<rparr>"
    | (acquired) c w where "gr_pc g = AtAuth" "vc_token c \<noteq> []" "same_config (sh_client sh) c"
      "sh' = \<lparr>sh_client = c, sh_owner = None, sh_world = w\<rparr>" "g' = g\<lparr>gr_pc := AtSend (vc_token c)\<rparr>"
    | (refused) e w where "gr_pc g = AtAuth"
      "sh' = sh\<lparr>sh_owner := None, sh_world := w\<rparr>" "g' = g\<lparr>gr_pc := AtFailed e\<rparr>"
    | (send) t w where "gr_pc g = AtSend t" "sh' = sh\<lparr>sh_world := w\<rparr>"
      "\<And>t'. gr_pc g' \<noteq> AtSend t'" "gr_pc g' \<noteq> AtAuth" "gr_pc g' \<noteq> AtLock"
    | (clear) e where "gr_pc g = AtClear" "sh_owner sh = None"
      "sh' = sh\<lparr>sh_client := clearToken (sh_client sh)\<rparr>" "g' = g\<lparr>gr_pc := AtFailed e\<rparr>"
    | (failed) e where "gr_pc g = AtFailed e" "sh' = sh"
      "gr_pc g' = AtLock \<or> (\<exists>r. gr_pc g' = Returned r)"
proof (cases "gr_pc g")
  case AtLock
  with assms have "sh_owner sh = None" by (auto simp: gstep_def split: if_splits)
  show thesis
  proof (cases "vc_token (sh_client sh) = []")
    case True
    with AtLock assms \<open>sh_owner sh = None\<close> show thesis by (intro lock) (auto simp: gstep_def)
  next
    case False
    with AtLock assms \<open>sh_owner sh = None\<close> show thesis by (intro cached) (auto simp: gstep_def)
  qed
next
  case AtAuth
  obtain e c w where a: "authenticate V (sh_client sh) (sh_world sh) = (e, c, w)" by (metis prod_cases3)
  show thesis
  proof (cases e)
    case None
    from authenticate_token(1) [OF a[unfolded None]] AtAuth assms a None show thesis
      by (intro acquired [of c w]) (simp_all add: gstep_def)
  next
    case (Some e')
    from authenticate_token(2) [OF a[unfolded Some]] AtAuth assms a Some show thesis
      by (intro refused [of w "errorf_w (ve_lib V) ''get token: '' e'"]; cases sh) (auto simp: gstep_def)
  qed
next
  case (AtSend t)
  then have "\<exists>w. sh' = sh\<lparr>sh_world := w\<rparr>"
    using assms by (cases sh) (auto simp: gstep_def split: option.splits prod.splits)
  moreover from AtSend assms have "\<forall>t'. gr_pc g' \<noteq> AtSend t'" "gr_pc g' \<noteq> AtAuth" "gr_pc g' \<noteq> AtLock"
    by (auto simp: gstep_def handle_answer_pc split: option.splits prod.splits)
  ultimately show thesis using AtSend send by blast
next
  case AtClear
  with assms have "sh_owner sh = None" by (auto simp: gstep_def split: if_splits)
  with AtClear assms show thesis
    by (intro clear [of "ErrAPI \<lparr>ae_status = 401, ae_body = [], ae_method = gr_method g, ae_path = gr_path g\<rparr>"])
      (auto simp: gstep_def)
next
  case (AtFailed e)
  with assms have "sh' = sh" "gr_pc g' = AtLock \<or> (\<exists>r. gr_pc g' = Returned r)"
    by (auto simp: gstep_def retry_step_def Let_def split: option.splits if_splits)
  with AtFailed show thesis by (rule failed)
next
  case (Returned r)
  with assms show thesis by (simp add: gstep_def)
qed

lemma sstep_cases:
  assumes "sstep V i S = Some S'"
  obtains sh g where "gstep V i (sg_shared S, sg_go S i) = Some (sh, g)"
    "S' = \<lparr>sg_shared = sh, sg_go = (sg_go S)(i := g),
       sg_history = sg_history S @ observe i (gr_pc (sg_go S i)) (gr_pc g)\<rparr>"
  using assms by (auto simp: sstep_def split: option.splits prod.splits)

lemma run_schedule_steps:
  "run_schedule V is S = Some S' \<Longrightarrow> count_list is i + steps_left (sg_go S' i) \<le> steps_left (sg_go S i)"
proof (induction "is" arbitrary: S)
  case (Cons j "is")
  then obtain S1 where s: "sstep V j S = Some S1" "run_schedule V is S1 = Some S'"
    by (auto split: option.splits)
  from s(1) obtain sh g where g: "gstep V j (sg_shared S, sg_go S j) = Some (sh, g)"
    and S1: "sg_go S1 = (sg_go S)(j := g)" by (elim sstep_cases) simp
  from Cons.IH [OF s(2)] gstep_decreases [OF g] S1 show ?case by (auto split: if_splits)
qed simp

section \<open>The mutex and the tokens\<close>

text \<open>The mutex is held exactly by the goroutine in \<open>authenticate\<close>, and then no token is cached.\<close>

definition mutex_ok :: "('r, 'w) sharing \<Rightarrow> bool" where
  "mutex_ok S \<longleftrightarrow> (\<forall>i. gr_pc (sg_go S i) = AtAuth \<longleftrightarrow> sh_owner (sg_shared S) = Some i) \<and>
     (sh_owner (sg_shared S) \<noteq> None \<longrightarrow> vc_token (sh_client (sg_shared S)) = [])"

lemma mutex_step:
  assumes "sstep V i S = Some S'" and "mutex_ok S"
  shows "mutex_ok S'"
proof -
  have own: "gr_pc (sg_go S j) = AtAuth \<longleftrightarrow> sh_owner (sg_shared S) = Some j" for j
    using assms(2) by (simp add: mutex_ok_def)
  have free: "sh_owner (sg_shared S) \<noteq> None \<longrightarrow> vc_token (sh_client (sg_shared S)) = []"
    using assms(2) by (simp add: mutex_ok_def)
  from assms(1) obtain sh g where g: "gstep V i (sg_shared S, sg_go S i) = Some (sh, g)"
    and S': "S' = \<lparr>sg_shared = sh, sg_go = (sg_go S)(i := g),
       sg_history = sg_history S @ observe i (gr_pc (sg_go S i)) (gr_pc g)\<rparr>" by (rule sstep_cases)
  have other: "gr_pc (sg_go S j) \<noteq> AtAuth" if "sh_owner (sg_shared S) = None \<or> sh_owner (sg_shared S) = Some i" "j \<noteq> i" for j
    using own [of j] that by auto
  from g show ?thesis
  proof (cases rule: gstep_cases)
    case (acquired c w)
    then show ?thesis using own [of i] other by (simp add: mutex_ok_def S')
  next
    case (refused e w)
    then show ?thesis using own [of i] other by (simp add: mutex_ok_def S')
  next
    case (send t w)
    then show ?thesis using own [of i] free by (simp add: mutex_ok_def S' own)
  next
    case (failed e)
    then show ?thesis using own [of i] free by (auto simp: mutex_ok_def S' own)
  qed (use own [of i] other in \<open>auto simp: mutex_ok_def S'\<close>)
qed

lemma fresh_mutex: "fresh S \<Longrightarrow> mutex_ok S"
  by (simp add: fresh_def mutex_ok_def)

interpretation mutex: step_invariant V mutex_ok for V
  by unfold_locales (rule mutex_step)

text \<open>A token that was cached at the start or issued by the server since.\<close>

definition issued :: "string \<Rightarrow> event list \<Rightarrow> string \<Rightarrow> bool" where
  "issued t0 h t \<longleftrightarrow> t \<noteq> [] \<and> (t = t0 \<or> (\<exists>k. Acquired k t \<in> set h))"

definition tokens_ok :: "string \<Rightarrow> ('r, 'w) sharing \<Rightarrow> bool" where
  "tokens_ok t0 S \<longleftrightarrow>
     (let h = sg_history S; t = vc_token (sh_client (sg_shared S))
      in (t \<noteq> [] \<longrightarrow> issued t0 h t) \<and> (\<forall>i t. gr_pc (sg_go S i) = AtSend t \<longrightarrow> issued t0 h t) \<and>
         (\<forall>pre i t b post. h = pre @ Sent i t b # post \<longrightarrow> issued t0 pre t))"

lemma issued_append: "issued t0 h t \<Longrightarrow> issued t0 (h @ h') t"
  by (auto simp: issued_def)

lemma sent_snoc:
  "h @ [e] = pre @ Sent i t b # post \<Longrightarrow> (post = [] \<and> pre = h \<and> e = Sent i t b) \<or> (\<exists>q. post = q @ [e] \<and> h = pre @ Sent i t b # q)"
  by (cases post rule: rev_cases) auto

lemma tokens_step:
  assumes "sstep V i S = Some S'" and ok: "tokens_ok t0 S"
  shows "tokens_ok t0 S'"
proof -
  let ?h = "sg_history S" and ?c = "sh_client (sg_shared S)"
  have cache: "vc_token ?c \<noteq> [] \<Longrightarrow> issued t0 ?h (vc_token ?c)"
    and inpc: "gr_pc (sg_go S j) = AtSend t \<Longrightarrow> issued t0 ?h t"
    and sent: "?h = pre @ Sent j t b # post \<Longrightarrow> issued t0 pre t" for j t b pre post
    using ok by (auto simp: tokens_ok_def Let_def)
  from assms(1) obtain sh g where g: "gstep V i (sg_shared S, sg_go S i) = Some (sh, g)"
    and S': "S' = \<lparr>sg_shared = sh, sg_go = (sg_go S)(i := g),
       sg_history = ?h @ observe i (gr_pc (sg_go S i)) (gr_pc g)\<rparr>" by (rule sstep_cases)
  from g show ?thesis
  proof (cases rule: gstep_cases)
    case cached
    with cache inpc sent show ?thesis by (auto simp: tokens_ok_def S' Let_def)
  next
    case lock
    with cache inpc sent show ?thesis by (auto simp: tokens_ok_def S' Let_def)
  next
    case (acquired c w)
    have new: "issued t0 (?h @ [Acquired i (vc_token c)]) (vc_token c)" using acquired(2) by (auto simp: issued_def)
    from acquired new sent show ?thesis
      by (auto simp: tokens_ok_def S' Let_def dest!: sent_snoc intro: issued_append inpc)
  next
    case (refused e w)
    with cache inpc sent show ?thesis by (auto simp: tokens_ok_def S' Let_def)
  next
    case (send t w)
    have "issued t0 ?h t" by (rule inpc [OF send(1)])
    with send cache inpc sent show ?thesis
      by (auto simp: tokens_ok_def S' Let_def dest!: sent_snoc intro: issued_append)
  next
    case (clear e)
    with inpc sent show ?thesis
      by (auto simp: tokens_ok_def S' Let_def clearToken_def dest!: sent_snoc intro: issued_append)
  next
    case (failed e)
    with cache inpc sent show ?thesis by (auto simp: tokens_ok_def S' Let_def)
  qed
qed

lemma fresh_tokens: "fresh S \<Longrightarrow> tokens_ok (vc_token (sh_client (sg_shared S))) S"
  by (simp add: fresh_def tokens_ok_def issued_def Let_def)

interpretation tokens: step_invariant V "tokens_ok t0" for V t0
  by unfold_locales (rule tokens_step)

section \<open>How often the client authenticates\<close>

fun renewals :: "event list \<Rightarrow> nat list" where
  "renewals [] = []"
| "renewals (Acquired i t # h) = i # renewals h"
| "renewals (_ # h) = renewals h"

fun rejections :: "event list \<Rightarrow> nat list" where
  "rejections [] = []"
| "rejections (Sent i t b # h) = (if b then i # rejections h else rejections h)"
| "rejections (_ # h) = rejections h"

fun clearings :: "event list \<Rightarrow> nat list" where
  "clearings [] = []"
| "clearings (Cleared i # h) = i # clearings h"
| "clearings (_ # h) = clearings h"

lemma history_append [simp]:
  "renewals (h @ h') = renewals h @ renewals h'"
  "rejections (h @ h') = rejections h @ rejections h'"
  "clearings (h @ h') = clearings h @ clearings h'"
  by (induction h rule: renewals.induct) simp_all

definition present :: "string \<Rightarrow> nat" where
  "present t = (if t = [] then 0 else 1)"

text \<open>Every 401 leads to one clearing by the goroutine that got it; a new token fills an empty cache.\<close>

definition counts_ok :: "string \<Rightarrow> ('r, 'w) sharing \<Rightarrow> bool" where
  "counts_ok t0 S \<longleftrightarrow>
     (\<forall>i. count_list (clearings (sg_history S)) i + (if gr_pc (sg_go S i) = AtClear then 1 else 0) =
          count_list (rejections (sg_history S)) i) \<and>
     length (renewals (sg_history S)) + present t0 \<le>
       length (clearings (sg_history S)) + present (vc_token (sh_client (sg_shared S)))"

lemma count_list_snoc: "count_list (xs @ [x]) y = count_list xs y + (if x = y then 1 else 0)"
  by simp

lemma counts_step:
  assumes "sstep V i S = Some S'" and ok: "counts_ok t0 S" and mx: "mutex_ok S"
  shows "counts_ok t0 S'"
proof -
  let ?h = "sg_history S" and ?c = "sh_client (sg_shared S)"
  have each: "count_list (rejections ?h) j = count_list (clearings ?h) j + (if gr_pc (sg_go S j) = AtClear then 1 else 0)" for j
    using ok by (simp add: counts_ok_def)
  have total: "length (renewals ?h) + present t0 \<le> length (clearings ?h) + present (vc_token ?c)"
    using ok by (simp add: counts_ok_def)
  from assms(1) obtain sh g where g: "gstep V i (sg_shared S, sg_go S i) = Some (sh, g)"
    and S': "S' = \<lparr>sg_shared = sh, sg_go = (sg_go S)(i := g),
       sg_history = ?h @ observe i (gr_pc (sg_go S i)) (gr_pc g)\<rparr>" by (rule sstep_cases)
  from g show ?thesis
  proof (cases rule: gstep_cases)
    case (acquired c w)
    from mx acquired(1) have "sh_owner (sg_shared S) = Some i" by (simp add: mutex_ok_def)
    with mx have "vc_token ?c = []" by (simp add: mutex_ok_def)
    with acquired total show ?thesis by (auto simp: counts_ok_def S' present_def each)
  next
    case (clear e')
    with total show ?thesis by (auto simp: counts_ok_def S' clearToken_def present_def each split: if_splits)
  qed (use total in \<open>auto simp: counts_ok_def S' each\<close>)
qed

interpretation counts: step_invariant V "\<lambda>S. counts_ok t0 S \<and> mutex_ok S" for V t0
  by unfold_locales (blast intro: counts_step mutex_step)

lemma fresh_counts: "fresh S \<Longrightarrow> counts_ok (vc_token (sh_client (sg_shared S))) S"
  by (simp add: fresh_def counts_ok_def)

lemma counts_total: "counts_ok t0 S \<Longrightarrow> length (clearings (sg_history S)) \<le> length (rejections (sg_history S))"
proof -
  assume "counts_ok t0 S"
  then have "count_list (clearings (sg_history S)) i \<le> count_list (rejections (sg_history S)) i" for i
    unfolding counts_ok_def by (metis le_add1)
  then have "mset (clearings (sg_history S)) \<subseteq># mset (rejections (sg_history S))"
    by (intro mset_subset_eqI) (simp add: count_mset)
  from size_mset_mono [OF this] show ?thesis by simp
qed

section \<open>A goroutine by itself\<close>

text \<open>Nobody interferes: the steps of one goroutine one after another, as far as \<open>n\<close> goes.\<close>

fun alone :: "'w vcd_env \<Rightarrow> nat \<Rightarrow> nat \<Rightarrow> 'w shared \<times> 'r goroutine \<Rightarrow> 'w shared \<times> 'r goroutine" where
  "alone V i 0 x = x"
| "alone V i (Suc n) x = (case gstep V i x of None \<Rightarrow> x | Some y \<Rightarrow> alone V i n y)"

inductive alone_reaches :: "'w vcd_env \<Rightarrow> nat \<Rightarrow> 'w shared \<times> 'r goroutine \<Rightarrow> 'w shared \<times> 'r goroutine \<Rightarrow> bool"
  for V :: "'w vcd_env" and i :: nat where
  here: "alone_reaches V i x x"
| step: "gstep V i x = Some y \<Longrightarrow> alone_reaches V i y z \<Longrightarrow> alone_reaches V i x z"

lemma alone_reaches_trans: "alone_reaches V i x y \<Longrightarrow> alone_reaches V i y z \<Longrightarrow> alone_reaches V i x z"
  by (induction rule: alone_reaches.induct) (auto intro: alone_reaches.intros)

lemmas one_step = alone_reaches.step [OF _ alone_reaches.here]
lemmas then_step = alone_reaches_trans [OF _ one_step]

text \<open>With the fuel of its remaining steps the run by itself ends where the goroutine returns.\<close>

lemma alone_reaches_alone:
  "alone_reaches V i x y \<Longrightarrow> returned (snd y) \<Longrightarrow> steps_left (snd x) \<le> n \<Longrightarrow> alone V i n x = y"
proof (induction arbitrary: n rule: alone_reaches.induct)
  case (here x)
  obtain sh g where x: "x = (sh, g)" by (cases x)
  with here obtain r where "gr_pc g = Returned r" by (auto simp: returned_def)
  then have "gstep V i x = None" by (simp add: x gstep_def)
  then show ?case by (cases n) simp_all
next
  case (step x y z)
  have "steps_left (snd y) < steps_left (snd x)"
    using gstep_decreases [of V i "fst x" "snd x" "fst y" "snd y"] step.hyps(1) by simp
  with step.prems step.IH [of "n - 1"] step.hyps(1) show ?case by (cases n) simp_all
qed

text \<open>The states of the goroutine that correspond to the atomic calls of \<open>VcdClient\<close>.\<close>

definition at_do :: "'r goroutine \<Rightarrow> ('r, 'w) do_state \<Rightarrow> pc \<Rightarrow> 'w shared \<times> 'r goroutine" where
  "at_do g s p =
     (\<lparr>sh_client = ds_client s, sh_owner = None, sh_world = ds_world s\<rparr>,
      g\<lparr>gr_body := ds_body s, gr_result := ds_result s, gr_pc := p\<rparr>)"

definition attempt_pc :: "go_error option \<Rightarrow> pc" where
  "attempt_pc r = (case r of None \<Rightarrow> Returned None | Some e \<Rightarrow> AtFailed e)"

text \<open>The first critical section and the exchange in it are \<open>getToken\<close>, the rest of an attempt follows.\<close>

lemma alone_getToken:
  assumes "getToken V (ds_client s) (ds_world s) = (r, c, w)"
  shows "alone_reaches V i (at_do g s AtLock)
    (at_do g (s\<lparr>ds_client := c, ds_world := w\<rparr>)
      (case r of Inr t \<Rightarrow> AtSend t | Inl e \<Rightarrow> AtFailed (errorf_w (ve_lib V) ''get token: '' e)))"
proof (cases "vc_token (ds_client s) = []")
  case False
  with assms have "r = Inr (vc_token (ds_client s))" "c = ds_client s" "w = ds_world s"
    by (auto simp: getToken_def)
  with False show ?thesis by (intro one_step) (simp add: gstep_def at_do_def)
next
  case True
  let ?sh = "\<lparr>sh_client = ds_client s, sh_owner = Some i, sh_world = ds_world s\<rparr>"
  from True have "gstep V i (at_do g s AtLock) = Some (?sh, snd (at_do g s AtAuth))"
    by (simp add: gstep_def at_do_def)
  moreover from True assms have "gstep V i (?sh, snd (at_do g s AtAuth)) =
      Some (at_do g (s\<lparr>ds_client := c, ds_world := w\<rparr>)
        (case r of Inr t \<Rightarrow> AtSend t | Inl e \<Rightarrow> AtFailed (errorf_w (ve_lib V) ''get token: '' e)))"
    by (auto simp: gstep_def at_do_def getToken_def split: prod.splits option.splits)
  ultimately show ?thesis by (blast intro: alone_reaches.intros)
qed

lemma alone_attempt:
  assumes "do_attempt V (gr_method g) (gr_path g) (gr_decode g) s = (r, s')"
  shows "alone_reaches V i (at_do g s AtLock) (at_do g s' (attempt_pc r))"
proof -
  let ?m = "gr_method g" and ?p = "gr_path g"
  obtain tk c w where tk: "getToken V (ds_client s) (ds_world s) = (tk, c, w)" by (metis prod_cases3)
  let ?s1 = "s\<lparr>ds_client := c, ds_world := w\<rparr>"
  note first = alone_getToken [OF tk, of i g]
  show ?thesis
  proof (cases tk)
    case (Inl e)
    with assms tk have "r = Some (errorf_w (ve_lib V) ''get token: '' e)" "s' = ?s1"
      by (simp_all add: do_attempt_def Let_def)
    with first Inl show ?thesis by (simp add: attempt_pc_def)
  next
    case (Inr t)
    have send: "alone_reaches V i (at_do g s AtLock) (at_do g ?s1 (AtSend t))" using first Inr by simp
    show ?thesis
    proof (cases "ve_request_err V ?m (vc_baseURL c @ ?p)")
      case (Some e)
      with assms tk Inr have "r = Some (errorf_w (ve_lib V) ''create request: '' e)" "s' = ?s1"
        by (simp_all add: do_attempt_def Let_def)
      with Some show ?thesis
        by (intro then_step [OF send]) (simp add: gstep_def at_do_def attempt_pc_def)
    next
      case None
      obtain a b w' where n: "ve_net V (api_request c ?m ?p (ds_body s) t) w = (a, b, w')" by (metis prod_cases3)
      let ?s2 = "?s1\<lparr>ds_body := b, ds_world := w'\<rparr>"
      show ?thesis
      proof (cases "\<exists>resp. a = Inr resp \<and> hs_status resp = 401")
        case True
        then have "gstep V i (at_do g ?s1 (AtSend t)) = Some (at_do g ?s2 AtClear)"
          using None n by (auto simp: gstep_def at_do_def handle_answer_def Let_def)
        then have clear: "alone_reaches V i (at_do g s AtLock) (at_do g ?s2 AtClear)" by (rule then_step [OF send])
        from True None n assms tk Inr have "gstep V i (at_do g ?s2 AtClear) = Some (at_do g s' (attempt_pc r))"
          by (auto simp: gstep_def at_do_def do_attempt_def Let_def attempt_pc_def)
        then show ?thesis by (rule then_step [OF clear])
      next
        case False
        note defs = gstep_def at_do_def handle_answer_def do_attempt_def Let_def attempt_pc_def
        have "gstep V i (at_do g ?s1 (AtSend t)) = Some (at_do g s' (attempt_pc r))"
        proof (cases a)
          case (Inl e)
          with None n assms tk Inr show ?thesis by (auto simp: defs)
        next
          case a: (Inr resp)
          show ?thesis
          proof (cases "hs_status resp < 200 \<or> 300 \<le> hs_status resp")
            case True
            with False a None n assms tk Inr show ?thesis by (auto simp: defs)
          next
            case ok: False
            show ?thesis
            proof (cases "gr_decode g")
              case no: None
              with False ok a None n assms tk Inr show ?thesis by (auto simp: defs)
            next
              case (Some x)
              obtain ty dec e v where x: "x = (ty, dec)"
                and "decodeJSON (ve_lib V) ty dec resp (ds_result s) = (e, v)" by (metis surj_pair)
              with False ok a Some None n assms tk Inr show ?thesis
                by (cases e) (auto simp: defs)
            qed
          qed
        qed
        then show ?thesis by (rule then_step [OF send])
      qed
    qed
  qed
qed

lemma alone_loop:
  assumes "gr_attempt g \<le> 2"
    and "retry_loop (ve_lib V) (gr_retry g) 3 (do_attempt V (gr_method g) (gr_path g) (gr_decode g))
      (gr_attempt g) lst s (gr_slept g) = (res, s', slept)"
  shows "\<exists>k. alone_reaches V i (at_do g s AtLock)
    (at_do (g\<lparr>gr_attempt := k, gr_slept := slept\<rparr>) s' (Returned res))"
  using assms
proof (induction "2 - gr_attempt g" arbitrary: g s lst)
  case hyp: 0
  then have i: "gr_attempt g = 2" by simp
  obtain r s1 where a: "do_attempt V (gr_method g) (gr_path g) (gr_decode g) s = (r, s1)" by fastforce
  note reach = alone_attempt [OF a, of i]
  show ?case
  proof (cases r)
    case None
    with hyp.prems(2) a i have "res = None" "s' = s1" "slept = gr_slept g"
      by (simp_all add: retry_loop.simps)
    with reach None have "alone_reaches V i (at_do g s AtLock)
        (at_do (g\<lparr>gr_attempt := gr_attempt g, gr_slept := slept\<rparr>) s' (Returned res))"
      by (simp add: attempt_pc_def)
    then show ?thesis by blast
  next
    case (Some e)
    with hyp.prems(2) a i have r: "res = Some e" "s' = s1" "slept = gr_slept g"
      by (simp_all add: retry_loop.simps)
    then have "gstep V i (at_do g s1 (attempt_pc r)) =
        Some (at_do (g\<lparr>gr_attempt := gr_attempt g, gr_slept := slept\<rparr>) s' (Returned res))"
      using i Some by (simp add: gstep_def at_do_def attempt_pc_def retry_step_def)
    from then_step [OF reach this] show ?thesis by blast
  qed
next
  case hyp: (Suc d)
  then have i: "gr_attempt g < 2" by simp
  obtain r s1 where a: "do_attempt V (gr_method g) (gr_path g) (gr_decode g) s = (r, s1)" by fastforce
  note reach = alone_attempt [OF a, of i]
  show ?case
  proof (cases r)
    case None
    with hyp.prems(2) a i have "res = None" "s' = s1" "slept = gr_slept g"
      by (simp_all add: retry_loop.simps)
    with reach None have "alone_reaches V i (at_do g s AtLock)
        (at_do (g\<lparr>gr_attempt := gr_attempt g, gr_slept := slept\<rparr>) s' (Returned res))"
      by (simp add: attempt_pc_def)
    then show ?thesis by blast
  next
    case e: (Some e)
    show ?thesis
    proof (cases "ctx_err (gr_retry g) (gr_attempt g)")
      case (Some c)
      with hyp.prems(2) a i e have r: "res = Some (retry_cancelled (ve_lib V) c e)" "s' = s1" "slept = gr_slept g"
        by (simp_all add: retry_loop.simps)
      then have "gstep V i (at_do g s1 (attempt_pc r)) =
          Some (at_do (g\<lparr>gr_attempt := gr_attempt g, gr_slept := slept\<rparr>) s' (Returned res))"
        using i e Some by (simp add: gstep_def at_do_def attempt_pc_def retry_step_def)
      from then_step [OF reach this] show ?thesis by blast
    next
      case None
      let ?g = "g\<lparr>gr_attempt := Suc (gr_attempt g), gr_slept := gr_slept g @ [backoff (gr_retry g) (gr_attempt g)]\<rparr>"
      have "gstep V i (at_do g s1 (attempt_pc r)) = Some (at_do ?g s1 AtLock)"
        using i e None by (cases g) (simp add: gstep_def at_do_def attempt_pc_def retry_step_def Let_def)
      note next_attempt = then_step [OF reach this]
      have "retry_loop (ve_lib V) (gr_retry ?g) 3 (do_attempt V (gr_method ?g) (gr_path ?g) (gr_decode ?g))
          (gr_attempt ?g) (Some e) s1 (gr_slept ?g) = (res, s', slept)"
        using hyp.prems(2) a i e None by (simp add: retry_loop.simps [of _ _ _ _ "gr_attempt g"])
      moreover have "d = 2 - gr_attempt ?g" "gr_attempt ?g \<le> 2" using hyp.hyps(2) i by simp_all
      ultimately obtain k where "alone_reaches V i (at_do ?g s1 AtLock)
          (at_do (?g\<lparr>gr_attempt := k, gr_slept := slept\<rparr>) s' (Returned res))"
        using hyp.hyps(1) [of ?g "Some e" s1] by auto
      from alone_reaches_trans [OF next_attempt this] show ?thesis by auto
    qed
  qed
qed

text \<open>C17: running by itself, a goroutine does what the atomic calls of \<open>VcdClient\<close> say: after at most
  fifteen steps it has returned, with the result of \<open>do\<close>, the client, the world, the result
  variable and the waits that \<open>vcd_do\<close> computes, and the mutex is free again.\<close>

theorem alone_is_do:
  assumes "vcd_do V method path body decode v c w = (res, s, slept)"
  shows "case alone V i 15 (\<lparr>sh_client = c, sh_owner = None, sh_world = w\<rparr>,
      call_do method path body decode v (ve_retry V)) of (sh, g) \<Rightarrow>
    sh = \<lparr>sh_client = ds_client s, sh_owner = None, sh_world = ds_world s\<rparr> \<and>
    gr_pc g = Returned res \<and> gr_result g = ds_result s \<and> gr_body g = ds_body s \<and> gr_slept g = slept"
proof -
  let ?g = "call_do method path body decode v (ve_retry V)"
  let ?s = "\<lparr>ds_client = c, ds_body = body, ds_result = v, ds_world = w\<rparr>"
  have start: "(\<lparr>sh_client = c, sh_owner = None, sh_world = w\<rparr>, ?g) = at_do ?g ?s AtLock"
    by (simp add: at_do_def call_do_def)
  have "retry_loop (ve_lib V) (gr_retry ?g) 3 (do_attempt V (gr_method ?g) (gr_path ?g) (gr_decode ?g))
      (gr_attempt ?g) None ?s (gr_slept ?g) = (res, s, slept)"
    using assms by (simp add: vcd_do_def retry_Do_def call_do_def)
  moreover have "gr_attempt ?g \<le> 2" by (simp add: call_do_def)
  ultimately obtain k where
    "alone_reaches V i (at_do ?g ?s AtLock) (at_do (?g\<lparr>gr_attempt := k, gr_slept := slept\<rparr>) s (Returned res))"
    using alone_loop by blast
  then have "alone V i 15 (at_do ?g ?s AtLock) = at_do (?g\<lparr>gr_attempt := k, gr_slept := slept\<rparr>) s (Returned res)"
    by (rule alone_reaches_alone) (simp_all add: at_do_def returned_def call_do_def steps_left_bound)
  then show ?thesis unfolding start by (simp add: at_do_def)
qed

lemma alone_is_do_witness:
  "\<exists>sh g. alone (sample_vcd_env answer_404) 0 15 (\<lparr>sh_client = sample_client, sh_owner = None, sh_world = []\<rparr>,
      call_do ''GET'' ''/x'' None None () quiet_env) = (sh, g) \<and> returned g \<and> length (sh_world sh) = 3"
proof -
  let ?V = "sample_vcd_env answer_404"
  obtain res s slept where d: "vcd_do ?V ''GET'' ''/x'' None None () sample_client [] = (res, s, slept)"
    by (metis prod_cases3)
  have "length (ds_world s) = 3" using do_repeats_every_api_error_witness by (simp add: d)
  moreover have "ve_retry ?V = quiet_env" by (simp add: sample_vcd_env_def)
  ultimately show ?thesis
    using alone_is_do [OF d, of 0] by (auto simp: returned_def split: prod.splits)
qed

section \<open>Every goroutine can finish\<close>

text \<open>When the mutex is free or its own, a goroutine can go on by itself until it returns.\<close>

lemma finish_one:
  assumes "mutex_ok S" and "sh_owner (sg_shared S) \<in> {None, Some i}"
  shows "\<exists>js S'. run_schedule V js S = Some S' \<and> mutex_ok S' \<and> sh_owner (sg_shared S') = None \<and>
    returned (sg_go S' i) \<and> (\<forall>j. j \<noteq> i \<longrightarrow> sg_go S' j = sg_go S j)"
  using assms
proof (induction "steps_left (sg_go S i)" arbitrary: S rule: less_induct)
  case less
  have own: "gr_pc (sg_go S i) = AtAuth \<longleftrightarrow> sh_owner (sg_shared S) = Some i"
    using less.prems(1) by (simp add: mutex_ok_def)
  show ?case
  proof (cases "returned (sg_go S i)")
    case True
    with own less.prems have "sh_owner (sg_shared S) = None" by (auto simp: returned_def)
    with True less.prems(1) show ?thesis by (intro exI [of _ "[]"] exI [of _ S]) simp
  next
    case False
    with own less.prems(2) obtain sh g where g: "gstep V i (sg_shared S, sg_go S i) = Some (sh, g)"
      using gstep_enabled [of "sg_go S i" "sg_shared S" V i] by auto
    let ?S = "\<lparr>sg_shared = sh, sg_go = (sg_go S)(i := g),
        sg_history = sg_history S @ observe i (gr_pc (sg_go S i)) (gr_pc g)\<rparr>"
    have step: "sstep V i S = Some ?S" using g by (simp add: sstep_def)
    have "sh_owner sh \<in> {None, Some i}"
      using g less.prems(2) by (cases rule: gstep_cases) auto
    with less.hyps [of ?S] gstep_decreases [OF g] mutex_step [OF step less.prems(1)]
    obtain js S' where "run_schedule V js ?S = Some S'" "mutex_ok S'" "sh_owner (sg_shared S') = None"
      "returned (sg_go S' i)" "\<forall>j. j \<noteq> i \<longrightarrow> sg_go S' j = sg_go S j" by auto
    with step show ?thesis by (intro exI [of _ "i # js"] exI [of _ S']) simp
  qed
qed

lemma finish_below:
  assumes "mutex_ok S" and "sh_owner (sg_shared S) = None"
  shows "\<exists>js S'. run_schedule V js S = Some S' \<and> mutex_ok S' \<and> sh_owner (sg_shared S') = None \<and>
    (\<forall>i<n. returned (sg_go S' i))"
proof (induction n)
  case 0
  from assms show ?case by (intro exI [of _ "[]"] exI [of _ S]) simp
next
  case (Suc n)
  then obtain js S1 where one: "run_schedule V js S = Some S1" "mutex_ok S1" "sh_owner (sg_shared S1) = None"
    "\<forall>i<n. returned (sg_go S1 i)" by blast
  from finish_one [of S1 n V] one obtain ks S2 where two: "run_schedule V ks S1 = Some S2" "mutex_ok S2"
    "sh_owner (sg_shared S2) = None" "returned (sg_go S2 n)" "\<forall>j. j \<noteq> n \<longrightarrow> sg_go S2 j = sg_go S1 j" by auto
  from one two show ?case
    by (intro exI [of _ "js @ ks"] exI [of _ S2]) (auto simp: run_schedule_append less_Suc_eq)
qed

section \<open>Properties of the shared client\<close>

text \<open>A client and calls for the witnesses: the server refuses the token \<open>t0\<close> and issues \<open>t1\<close>.\<close>

definition answer_expired :: "http_request \<Rightarrow> http_response" where
  "answer_expired req =
     (if hr_method req = ''POST''
      then \<lparr>hs_status = 200, hs_headers = [(''X-Vmware-Vcloud-Access-Token'', ''t1'')], hs_body = [], hs_read_err = None\<rparr>
      else \<lparr>hs_status = (if (''Authorization'', ''Bearer t0'') \<in> set (hr_headers req) then 401 else 200),
            hs_headers = [], hs_body = [], hs_read_err = None\<rparr>)"

definition sharing_start :: "vcd_client \<Rightarrow> 'r goroutine \<Rightarrow> 'w \<Rightarrow> ('r, 'w) sharing" where
  "sharing_start c g w =
     \<lparr>sg_shared = \<lparr>sh_client = c, sh_owner = None, sh_world = w\<rparr>, sg_go = (\<lambda>_. g), sg_history = []\<rparr>"

definition sample_sharing :: "(unit, http_request list) sharing" where
  "sample_sharing = sharing_start sample_client (call_do ''GET'' ''/x'' None None () quiet_env) []"

lemma fresh_sample: "fresh sample_sharing" "vc_token (sh_client (sg_shared sample_sharing)) = ''t0''"
  by (simp_all add: fresh_def sample_sharing_def sharing_start_def call_do_def sample_client_def)

text \<open>C13: whatever the interleaving of any number of calls on one client: only the holder of the
  mutex authenticates, so never two at a time; while it does no token is cached; and every request
  carries a token that was cached at the start or that the server has issued before.\<close>

theorem tokens_are_issued:
  assumes "fresh S0" and "run_schedule V is S0 = Some S"
  shows "(\<forall>i. gr_pc (sg_go S i) = AtAuth \<longleftrightarrow> sh_owner (sg_shared S) = Some i) \<and>
    (sh_owner (sg_shared S) \<noteq> None \<longrightarrow> vc_token (sh_client (sg_shared S)) = []) \<and>
    (\<forall>pre i t b post. sg_history S = pre @ Sent i t b # post \<longrightarrow>
       t \<noteq> [] \<and> (t = vc_token (sh_client (sg_shared S0)) \<or> (\<exists>k. Acquired k t \<in> set pre)))"
  using mutex.run_keeps [OF assms(2) fresh_mutex [OF assms(1)]] tokens.run_keeps [OF assms(2) fresh_tokens [OF assms(1)]]
  by (auto simp: mutex_ok_def tokens_ok_def issued_def Let_def)

text \<open>C24: the client never asks for more tokens than it was told to: under every interleaving the
  number of new tokens is at most the number of 401 answers, plus one when it started without
  a token.\<close>

theorem renewals_bounded:
  assumes "fresh S0" and "run_schedule V is S0 = Some S"
  shows "length (renewals (sg_history S)) \<le>
    length (rejections (sg_history S)) + (if vc_token (sh_client (sg_shared S0)) = [] then 1 else 0)"
proof -
  let ?t0 = "vc_token (sh_client (sg_shared S0))"
  have "counts_ok ?t0 S"
    using counts.run_keeps [OF assms(2)] fresh_counts [OF assms(1)] fresh_mutex [OF assms(1)] by blast
  from counts_total [OF this] this show ?thesis by (auto simp: counts_ok_def present_def split: if_splits)
qed

text \<open>C23: no call hangs. No goroutine takes more than fifteen steps, and from every state that an
  interleaving can reach, any of them can be brought to their return: the mutex never
  deadlocks.\<close>

theorem calls_finish:
  assumes "fresh S0" and "run_schedule V is S0 = Some S"
  shows "(\<forall>i. count_list is i \<le> 15) \<and>
    (\<exists>js S'. run_schedule V js S = Some S' \<and> (\<forall>i<n. returned (sg_go S' i)))"
proof -
  have "count_list is i \<le> 15" for i
    using run_schedule_steps [OF assms(2), of i] assms(1) steps_left_bound [of "sg_go S0 i"]
    by (simp add: fresh_def)
  moreover have ok: "mutex_ok S" by (rule mutex.run_keeps [OF assms(2) fresh_mutex [OF assms(1)]])
  obtain js S1 where one: "run_schedule V js S = Some S1" "mutex_ok S1" "sh_owner (sg_shared S1) = None"
  proof (cases "sh_owner (sg_shared S)")
    case None
    with ok that [of "[]" S] show thesis by simp
  next
    case (Some i)
    with finish_one [OF ok, of i V] that show thesis by auto
  qed
  from finish_below [OF one(2,3), of V n] obtain ks S2 where
    "run_schedule V ks S1 = Some S2" "\<forall>i<n. returned (sg_go S2 i)" by blast
  with one(1) have "\<exists>js S'. run_schedule V js S = Some S' \<and> (\<forall>i<n. returned (sg_go S' i))"
    by (intro exI [of _ "js @ ks"] exI [of _ S2]) (simp add: run_schedule_append)
  ultimately show ?thesis by blast
qed

section \<open>An expired token and many calls\<close>

text \<open>
  All of the first \<open>n\<close> goroutines have got the answer 401 to the cached token before any of
  them clears it. Each then empties the cache, although after the first the token in it is new.
\<close>

definition all_rejected :: "nat \<Rightarrow> nat list" where
  "all_rejected n = concat (map (\<lambda>i. [i, i]) [0..<n])"

definition all_renew :: "nat \<Rightarrow> nat list" where
  "all_renew n = concat (map (\<lambda>i. [i, i, i, i, i]) [0..<n])"

definition one_renews :: "nat \<Rightarrow> nat list" where
  "one_renews n = concat (map (\<lambda>i. if i = 0 then [0, 0, 0, 0, 0, 0, 0] else [i, i]) [0..<n])"

text \<open>A server that refuses the token \<open>t0\<close>, issues \<open>t1\<close> and answers with it.\<close>

definition expired_env :: "'w vcd_env \<Rightarrow> vcd_client \<Rightarrow> string \<Rightarrow> string \<Rightarrow> string \<Rightarrow> string \<Rightarrow> string option \<Rightarrow> bool" where
  "expired_env V c m p t0 t1 body \<longleftrightarrow>
     t0 \<noteq> [] \<and> t1 \<noteq> [] \<and> vc_token c = t0 \<and> (\<forall>m u. ve_request_err V m u = None) \<and>
     (\<forall>w. \<exists>w'. authenticate V (clearToken c) w = (None, c\<lparr>vc_token := t1\<rparr>, w')) \<and>
     (\<forall>w. \<exists>resp w'. ve_net V (api_request c m p body t0) w = (Inr resp, body, w') \<and> hs_status resp = 401) \<and>
     (\<forall>w. \<exists>resp w'. ve_net V (api_request c m p body t1) w = (Inr resp, body, w') \<and> hs_status resp = 200)"

lemma api_request_token: "api_request (c\<lparr>vc_token := t\<rparr>) m p body tok = api_request c m p body tok"
  by (simp add: api_request_def accept_header_def)

lemma clearToken_token: "clearToken (c\<lparr>vc_token := t\<rparr>) = clearToken c"
  by (simp add: clearToken_def)

lemma run_schedule_split:
  "run_schedule V is S = Some S1 \<Longrightarrow> run_schedule V (is @ js) S = run_schedule V js S1"
  by (simp add: run_schedule_append)

lemma upt_concat_Suc: "concat (map f [0..<Suc n]) = concat (map f [0..<n]) @ f n"
  by simp

text \<open>A call before its first step, with such a server and a context that is not cancelled.\<close>

definition expired_call :: "'w vcd_env \<Rightarrow> vcd_client \<Rightarrow> string \<Rightarrow> string \<Rightarrow> 'r goroutine \<Rightarrow> bool" where
  "expired_call V c t0 t1 g \<longleftrightarrow>
     expired_env V c (gr_method g) (gr_path g) t0 t1 (gr_body g) \<and> gr_decode g = None \<and>
     gr_attempt g = 0 \<and> gr_pc g = AtLock \<and> ctx_err (gr_retry g) 0 = None"

lemma go_upd: "sg_go S i = g \<Longrightarrow> (sg_go S)(i := g) = sg_go S"
  by auto

text \<open>With the old token, a call is rejected in two steps.\<close>

lemma rejected_steps:
  assumes "expired_call V c t0 t1 g" and "sg_go S k = g" and "sh_client (sg_shared S) = c"
    and "sh_owner (sg_shared S) = None"
  shows "\<exists>w. run_schedule V [k, k] S =
    Some \<lparr>sg_shared = \<lparr>sh_client = c, sh_owner = None, sh_world = w\<rparr>,
      sg_go = (sg_go S)(k := g\<lparr>gr_pc := AtClear\<rparr>), sg_history = sg_history S @ [Sent k t0 True]\<rparr>"
proof -
  obtain resp w where n: "ve_net V (api_request c (gr_method g) (gr_path g) (gr_body g) t0) (sh_world (sg_shared S)) =
      (Inr resp, gr_body g, w)" "hs_status resp = 401"
    using assms(1) unfolding expired_call_def expired_env_def by blast
  from assms n show ?thesis
    by (cases g; cases "sg_shared S")
      (auto simp: expired_call_def expired_env_def sstep_def gstep_def handle_answer_def Let_def)
qed

text \<open>With the new token, a call that has not been rejected is answered in two steps.\<close>

lemma answered_steps:
  assumes "expired_call V c t0 t1 g" and "gr_method g' = gr_method g" "gr_path g' = gr_path g"
      "gr_body g' = gr_body g" "gr_decode g' = None"
    and "sg_go S k = g'" and "sh_client (sg_shared S) = c\<lparr>vc_token := t1\<rparr>" and "gr_pc g' = AtSend t1"
  shows "\<exists>w. sstep V k S =
    Some \<lparr>sg_shared = (sg_shared S)\<lparr>sh_world := w\<rparr>,
      sg_go = (sg_go S)(k := g'\<lparr>gr_pc := Returned None\<rparr>), sg_history = sg_history S @ [Sent k t1 False]\<rparr>"
proof -
  obtain resp w where n: "ve_net V (api_request c (gr_method g) (gr_path g) (gr_body g) t1) (sh_world (sg_shared S)) =
      (Inr resp, gr_body g, w)" "hs_status resp = 200"
    using assms(1) unfolding expired_call_def expired_env_def by blast
  from assms n show ?thesis
    by (cases g'; cases "sg_shared S")
      (auto simp: expired_call_def expired_env_def sstep_def gstep_def handle_answer_def Let_def api_request_token)
qed

text \<open>After a rejection, the cache is cleared, filled and the call answered in five steps, whatever
  token is in the cache by then.\<close>

lemma renewal_steps:
  assumes call: "expired_call V c t0 t1 g" and go: "sg_go S k = g\<lparr>gr_pc := AtClear\<rparr>"
    and cl: "sh_client (sg_shared S) = c\<lparr>vc_token := t\<rparr>" and own: "sh_owner (sg_shared S) = None"
  shows "\<exists>S'. run_schedule V [k, k, k, k, k] S = Some S' \<and> sh_client (sg_shared S') = c\<lparr>vc_token := t1\<rparr> \<and>
    sh_owner (sg_shared S') = None \<and> (\<exists>g'. gr_pc g' = Returned None \<and> sg_go S' = (sg_go S)(k := g')) \<and>
    sg_history S' = sg_history S @ [Cleared k, Acquired k t1, Sent k t1 False]"
proof -
  obtain w where a: "authenticate V (clearToken c) (sh_world (sg_shared S)) = (None, c\<lparr>vc_token := t1\<rparr>, w)"
    using call unfolding expired_call_def expired_env_def by blast
  let ?g = "g\<lparr>gr_attempt := 1, gr_slept := gr_slept g @ [backoff (gr_retry g) 0], gr_pc := AtSend t1\<rparr>"
  let ?S = "\<lparr>sg_shared = \<lparr>sh_client = c\<lparr>vc_token := t1\<rparr>, sh_owner = None, sh_world = w\<rparr>,
      sg_go = (sg_go S)(k := ?g), sg_history = sg_history S @ [Cleared k, Acquired k t1]\<rparr>"
  have four: "run_schedule V [k, k, k, k] S = Some ?S"
    using call go cl own a
    by (cases g; cases "sg_shared S")
      (auto simp: expired_call_def sstep_def gstep_def retry_step_def Let_def clearToken_def)
  obtain w' where "sstep V k ?S =
    Some \<lparr>sg_shared = (sg_shared ?S)\<lparr>sh_world := w'\<rparr>,
      sg_go = (sg_go ?S)(k := ?g\<lparr>gr_pc := Returned None\<rparr>), sg_history = sg_history ?S @ [Sent k t1 False]\<rparr>"
    using answered_steps [OF call, of ?g ?S k] call by (auto simp: expired_call_def)
  with four have "run_schedule V ([k, k, k, k] @ [k]) S =
    Some \<lparr>sg_shared = (sg_shared ?S)\<lparr>sh_world := w'\<rparr>,
      sg_go = (sg_go ?S)(k := ?g\<lparr>gr_pc := Returned None\<rparr>), sg_history = sg_history ?S @ [Sent k t1 False]\<rparr>"
    by (simp only: run_schedule_split) simp
  then show ?thesis by (auto intro!: exI [of _ "?g\<lparr>gr_pc := Returned None\<rparr>"])
qed

lemma cached_steps:
  assumes call: "expired_call V c t0 t1 g" and go: "sg_go S k = g"
    and cl: "sh_client (sg_shared S) = c\<lparr>vc_token := t1\<rparr>" and own: "sh_owner (sg_shared S) = None"
  shows "\<exists>S'. run_schedule V [k, k] S = Some S' \<and> sh_client (sg_shared S') = c\<lparr>vc_token := t1\<rparr> \<and>
    sh_owner (sg_shared S') = None \<and> (\<exists>g'. gr_pc g' = Returned None \<and> sg_go S' = (sg_go S)(k := g')) \<and>
    sg_history S' = sg_history S @ [Sent k t1 False]"
proof -
  let ?g = "g\<lparr>gr_pc := AtSend t1\<rparr>"
  let ?S = "S\<lparr>sg_go := (sg_go S)(k := ?g)\<rparr>"
  have one: "sstep V k S = Some ?S"
    using call go cl own
    by (cases g; cases S) (auto simp: expired_call_def expired_env_def sstep_def gstep_def)
  obtain w' where "sstep V k ?S =
    Some \<lparr>sg_shared = (sg_shared ?S)\<lparr>sh_world := w'\<rparr>,
      sg_go = (sg_go ?S)(k := ?g\<lparr>gr_pc := Returned None\<rparr>), sg_history = sg_history ?S @ [Sent k t1 False]\<rparr>"
    using answered_steps [OF call, of ?g ?S k] call cl by (auto simp: expired_call_def)
  with one cl own show ?thesis by (auto intro!: exI [of _ "?g\<lparr>gr_pc := Returned None\<rparr>"])
qed

text \<open>All calls are rejected; then each renews the token.\<close>

lemma renewals_rejected: "renewals (map (\<lambda>i. Sent i t True) is) = []"
  "length (rejections (map (\<lambda>i. Sent i t True) is)) = length is"
  by (induction "is") simp_all

lemma renewals_accepted: "renewals (map (\<lambda>i. Sent i t False) is) = []"
  by (induction "is") simp_all

lemma renewals_renewed:
  "renewals (concat (map (\<lambda>i. [Cleared i, Acquired i t, Sent i t False]) is)) = is"
  "rejections (concat (map (\<lambda>i. [Cleared i, Acquired i t, Sent i t False]) is)) = []"
  by (induction "is") simp_all

lemma all_rejected_run:
  assumes call: "expired_call V c t0 t1 g"
  shows "\<exists>S. run_schedule V (all_rejected n) (sharing_start c g w) = Some S \<and> sh_client (sg_shared S) = c \<and>
    sh_owner (sg_shared S) = None \<and> sg_go S = (\<lambda>i. if i < n then g\<lparr>gr_pc := AtClear\<rparr> else g) \<and>
    sg_history S = map (\<lambda>i. Sent i t0 True) [0..<n]"
proof (induction n)
  case 0
  show ?case by (simp add: all_rejected_def sharing_start_def)
next
  case (Suc n)
  then obtain S where S: "run_schedule V (all_rejected n) (sharing_start c g w) = Some S"
    "sh_client (sg_shared S) = c" "sh_owner (sg_shared S) = None"
    "sg_go S = (\<lambda>i. if i < n then g\<lparr>gr_pc := AtClear\<rparr> else g)"
    "sg_history S = map (\<lambda>i. Sent i t0 True) [0..<n]" by blast
  from rejected_steps [OF call _ S(2,3), of n] S(4) obtain w' where
    "run_schedule V [n, n] S = Some \<lparr>sg_shared = \<lparr>sh_client = c, sh_owner = None, sh_world = w'\<rparr>,
      sg_go = (sg_go S)(n := g\<lparr>gr_pc := AtClear\<rparr>), sg_history = sg_history S @ [Sent n t0 True]\<rparr>" by auto
  with S show ?case
    by (auto simp: all_rejected_def run_schedule_append fun_eq_iff)
qed

lemma all_renew_run:
  assumes call: "expired_call V c t0 t1 g" and "k \<le> n"
    and "sh_client (sg_shared S) = c" "sh_owner (sg_shared S) = None"
      "sg_go S = (\<lambda>i. if i < n then g\<lparr>gr_pc := AtClear\<rparr> else g)"
  shows "\<exists>S' t. run_schedule V (all_renew k) S = Some S' \<and> sh_client (sg_shared S') = c\<lparr>vc_token := t\<rparr> \<and>
    sh_owner (sg_shared S') = None \<and>
    (\<forall>i. if i < k then gr_pc (sg_go S' i) = Returned None else sg_go S' i = sg_go S i) \<and>
    sg_history S' = sg_history S @ concat (map (\<lambda>i. [Cleared i, Acquired i t1, Sent i t1 False]) [0..<k])"
  using \<open>k \<le> n\<close>
proof (induction k)
  case 0
  from assms(3-5) show ?case
    by (intro exI [of _ S] exI [of _ "vc_token c"]) (simp add: all_renew_def)
next
  case (Suc k)
  then obtain S1 t where S1: "run_schedule V (all_renew k) S = Some S1"
    "sh_client (sg_shared S1) = c\<lparr>vc_token := t\<rparr>" "sh_owner (sg_shared S1) = None"
    "\<forall>i. if i < k then gr_pc (sg_go S1 i) = Returned None else sg_go S1 i = sg_go S i"
    "sg_history S1 = sg_history S @ concat (map (\<lambda>i. [Cleared i, Acquired i t1, Sent i t1 False]) [0..<k])" by auto
  have "sg_go S1 k = g\<lparr>gr_pc := AtClear\<rparr>" using S1(4) assms(5) Suc.prems by auto
  from renewal_steps [OF call this S1(2,3)] obtain S2 g' where S2: "run_schedule V [k, k, k, k, k] S1 = Some S2"
    "sh_client (sg_shared S2) = c\<lparr>vc_token := t1\<rparr>" "sh_owner (sg_shared S2) = None"
    "gr_pc g' = Returned None" "sg_go S2 = (sg_go S1)(k := g')"
    "sg_history S2 = sg_history S1 @ [Cleared k, Acquired k t1, Sent k t1 False]" by blast
  have "run_schedule V (all_renew (Suc k)) S = Some S2"
    using S1(1) S2(1) by (simp only: all_renew_def upt_concat_Suc run_schedule_append) simp
  with S1 S2 show ?case
    by (intro exI [of _ S2] exI [of _ t1]) (auto simp: less_Suc_eq)
qed

text \<open>The first call alone renews the token, the others find it.\<close>

lemma one_renews_Suc: "one_renews (Suc (Suc n)) = one_renews (Suc n) @ [Suc n, Suc n]"
  by (simp add: one_renews_def)

lemma one_renews_run:
  assumes call: "expired_call V c t0 t1 g"
  shows "\<exists>S. run_schedule V (one_renews (Suc n)) (sharing_start c g w) = Some S \<and>
    sh_client (sg_shared S) = c\<lparr>vc_token := t1\<rparr> \<and> sh_owner (sg_shared S) = None \<and>
    (\<forall>i. if i \<le> n then gr_pc (sg_go S i) = Returned None else sg_go S i = g) \<and>
    sg_history S = [Sent 0 t0 True, Cleared 0, Acquired 0 t1] @ map (\<lambda>i. Sent i t1 False) [0..<Suc n]"
proof (induction n)
  case 0
  let ?S0 = "sharing_start c g w"
  obtain S1 where S1: "run_schedule V [0, 0] ?S0 = Some S1" "sh_client (sg_shared S1) = c\<lparr>vc_token := vc_token c\<rparr>"
    "sh_owner (sg_shared S1) = None" "sg_go S1 = (sg_go ?S0)(0 := g\<lparr>gr_pc := AtClear\<rparr>)"
    "sg_history S1 = [Sent 0 t0 True]"
    using rejected_steps [OF call, of ?S0 0] by (auto simp: sharing_start_def)
  from renewal_steps [OF call _ S1(2,3), of 0] S1(4) obtain S2 g' where S2:
    "run_schedule V [0, 0, 0, 0, 0] S1 = Some S2"
    "sh_client (sg_shared S2) = c\<lparr>vc_token := t1\<rparr>" "sh_owner (sg_shared S2) = None"
    "gr_pc g' = Returned None" "sg_go S2 = (sg_go S1)(0 := g')"
    "sg_history S2 = sg_history S1 @ [Cleared 0, Acquired 0 t1, Sent 0 t1 False]" by auto
  have "run_schedule V ([0, 0] @ [0, 0, 0, 0, 0]) ?S0 = Some S2"
    using S1(1) S2(1) by (simp only: run_schedule_split)
  with S1 S2 show ?case
    by (intro exI [of _ S2]) (auto simp: one_renews_def sharing_start_def)
next
  case (Suc n)
  then obtain S where S: "run_schedule V (one_renews (Suc n)) (sharing_start c g w) = Some S"
    "sh_client (sg_shared S) = c\<lparr>vc_token := t1\<rparr>" "sh_owner (sg_shared S) = None"
    "\<forall>i. if i \<le> n then gr_pc (sg_go S i) = Returned None else sg_go S i = g"
    "sg_history S = [Sent 0 t0 True, Cleared 0, Acquired 0 t1] @ map (\<lambda>i. Sent i t1 False) [0..<Suc n]" by blast
  have "sg_go S (Suc n) = g" using S(4) by auto
  from cached_steps [OF call this S(2,3)] obtain S' g' where S': "run_schedule V [Suc n, Suc n] S = Some S'"
    "sh_client (sg_shared S') = c\<lparr>vc_token := t1\<rparr>" "sh_owner (sg_shared S') = None"
    "gr_pc g' = Returned None" "sg_go S' = (sg_go S)(Suc n := g')"
    "sg_history S' = sg_history S @ [Sent (Suc n) t1 False]" by blast
  have "run_schedule V (one_renews (Suc (Suc n))) (sharing_start c g w) = Some S'"
    using S(1) S'(1) by (simp only: one_renews_Suc run_schedule_split)
  with S S' show ?case by (intro exI [of _ S']) (auto simp: le_Suc_eq)
qed

text \<open>C25: a 401 to an old token throws away a new one. \<open>clearToken\<close> empties the cache whatever is in
  it: when \<open>n\<close> calls in flight are answered 401 because the cached token has expired, there is
  an interleaving in which the client authenticates \<open>n\<close> times: call \<open>i + 1\<close> clears the cache right
  after call \<open>i\<close> put a new token there and the server accepted it, so \<open>n - 1\<close> of the
  authentications replace a token that is valid. In another interleaving the same calls, all
  successful as well, authenticate once and share the token.\<close>

theorem stale_rejections_renew_again:
  assumes call: "expired_call V c t0 t1 g" and "0 < n"
  shows "(\<exists>S. run_schedule V (all_rejected n @ all_renew n) (sharing_start c g w) = Some S \<and>
      sg_history S = map (\<lambda>i. Sent i t0 True) [0..<n] @
        concat (map (\<lambda>i. [Cleared i, Acquired i t1, Sent i t1 False]) [0..<n]) \<and>
      renewals (sg_history S) = [0..<n] \<and> length (rejections (sg_history S)) = n \<and>
      (\<forall>i<n. gr_pc (sg_go S i) = Returned None)) \<and>
    (\<exists>S. run_schedule V (one_renews n) (sharing_start c g w) = Some S \<and>
      sg_history S = [Sent 0 t0 True, Cleared 0, Acquired 0 t1] @ map (\<lambda>i. Sent i t1 False) [0..<n] \<and>
      renewals (sg_history S) = [0] \<and> (\<forall>i<n. gr_pc (sg_go S i) = Returned None))"
proof
  obtain S where S: "run_schedule V (all_rejected n) (sharing_start c g w) = Some S" "sh_client (sg_shared S) = c"
    "sh_owner (sg_shared S) = None" "sg_go S = (\<lambda>i. if i < n then g\<lparr>gr_pc := AtClear\<rparr> else g)"
    "sg_history S = map (\<lambda>i. Sent i t0 True) [0..<n]"
    using all_rejected_run [OF call] by blast
  from all_renew_run [OF call order_refl S(2-4)] obtain S' where S': "run_schedule V (all_renew n) S = Some S'"
    "\<forall>i. if i < n then gr_pc (sg_go S' i) = Returned None else sg_go S' i = sg_go S i"
    "sg_history S' = sg_history S @ concat (map (\<lambda>i. [Cleared i, Acquired i t1, Sent i t1 False]) [0..<n])" by blast
  have "renewals (sg_history S') = [0..<n]" "length (rejections (sg_history S')) = n"
    by (simp_all add: S(5) S'(3) renewals_rejected renewals_renewed)
  with S S' show "\<exists>S. run_schedule V (all_rejected n @ all_renew n) (sharing_start c g w) = Some S \<and>
      sg_history S = map (\<lambda>i. Sent i t0 True) [0..<n] @
        concat (map (\<lambda>i. [Cleared i, Acquired i t1, Sent i t1 False]) [0..<n]) \<and>
      renewals (sg_history S) = [0..<n] \<and> length (rejections (sg_history S)) = n \<and>
      (\<forall>i<n. gr_pc (sg_go S i) = Returned None)"
    by (intro exI [of _ S']) (auto simp: run_schedule_append split: if_splits)
  obtain k where k: "n = Suc k" using assms(2) by (cases n) auto
  from one_renews_run [OF call, of k w] obtain S where S: "run_schedule V (one_renews n) (sharing_start c g w) = Some S"
    "\<forall>i. if i \<le> k then gr_pc (sg_go S i) = Returned None else sg_go S i = g"
    "sg_history S = [Sent 0 t0 True, Cleared 0, Acquired 0 t1] @ map (\<lambda>i. Sent i t1 False) [0..<n]"
    unfolding k by blast
  have "renewals (sg_history S) = [0]" by (simp add: S(3) renewals_accepted)
  with S show "\<exists>S. run_schedule V (one_renews n) (sharing_start c g w) = Some S \<and>
      sg_history S = [Sent 0 t0 True, Cleared 0, Acquired 0 t1] @ map (\<lambda>i. Sent i t1 False) [0..<n] \<and>
      renewals (sg_history S) = [0] \<and> (\<forall>i<n. gr_pc (sg_go S i) = Returned None)"
    by (intro exI [of _ S]) (auto simp: k less_Suc_eq_le split: if_splits)
qed

lemma sample_expired_call:
  "expired_call (sample_vcd_env answer_expired) sample_client ''t0'' ''t1'' (call_do ''GET'' ''/x'' None None () quiet_env)"
proof -
  let ?V = "sample_vcd_env answer_expired"
  have h: "header_get [(''X-Vmware-Vcloud-Access-Token'', ''t1'')] ''X-VMWARE-VCLOUD-ACCESS-TOKEN'' = ''t1''"
    by (simp add: header_get_def lower_char_def) (simp add: chr_eval)
  have "authenticate ?V (clearToken sample_client) w =
      (None, sample_client\<lparr>vc_token := ''t1''\<rparr>, w @ [auth_request (clearToken sample_client)])" for w
    by (simp add: authenticate_def sample_vcd_env_def recording_def answer_expired_def auth_request_def h
        clearToken_def Let_def)
  then show ?thesis
    by (auto simp: expired_call_def expired_env_def call_do_def sample_vcd_env_def recording_def answer_expired_def
        api_request_def quiet_env_def accept_header_def sample_client_def)
qed

lemma stale_rejections_renew_again_witness:
  "\<exists>S. run_schedule (sample_vcd_env answer_expired) (all_rejected 3 @ all_renew 3) sample_sharing = Some S \<and>
    sg_history S = [Sent 0 ''t0'' True, Sent 1 ''t0'' True, Sent 2 ''t0'' True,
      Cleared 0, Acquired 0 ''t1'', Sent 0 ''t1'' False, Cleared 1, Acquired 1 ''t1'', Sent 1 ''t1'' False,
      Cleared 2, Acquired 2 ''t1'', Sent 2 ''t1'' False]"
proof -
  have "[0..<3] = [0, 1, 2 :: nat]" by (simp add: upt_rec)
  with stale_rejections_renew_again [OF sample_expired_call, of 3 "[]"] show ?thesis
    by (fastforce simp: sample_sharing_def)
qed

lemma sample_run:
  "\<exists>S. run_schedule (sample_vcd_env answer_expired) (one_renews 2) sample_sharing = Some S \<and>
    renewals (sg_history S) = [0]"
  using one_renews_run [OF sample_expired_call, of 1 "[]"] by (auto simp: sample_sharing_def numeral_2_eq_2)

lemma tokens_are_issued_witness:
  "\<exists>S. run_schedule (sample_vcd_env answer_expired) (one_renews 2) sample_sharing = Some S \<and>
    (\<forall>i. gr_pc (sg_go S i) = AtAuth \<longleftrightarrow> sh_owner (sg_shared S) = Some i)"
proof -
  obtain S where S: "run_schedule (sample_vcd_env answer_expired) (one_renews 2) sample_sharing = Some S"
    using sample_run by blast
  from tokens_are_issued [OF fresh_sample(1) S] S show ?thesis by blast
qed

lemma renewals_bounded_witness:
  "\<exists>S. run_schedule (sample_vcd_env answer_expired) (one_renews 2) sample_sharing = Some S \<and>
    1 \<le> length (rejections (sg_history S))"
proof -
  obtain S where S: "run_schedule (sample_vcd_env answer_expired) (one_renews 2) sample_sharing = Some S"
    "renewals (sg_history S) = [0]" using sample_run by blast
  from renewals_bounded [OF fresh_sample(1) S(1)] S show ?thesis by (simp add: fresh_sample(2))
qed

lemma calls_finish_witness:
  "\<exists>js S. run_schedule (sample_vcd_env answer_expired) (one_renews 2 @ js) sample_sharing = Some S \<and>
    (\<forall>i<5. returned (sg_go S i))"
proof -
  obtain S where S: "run_schedule (sample_vcd_env answer_expired) (one_renews 2) sample_sharing = Some S"
    using sample_run by blast
  from calls_finish [OF fresh_sample(1) S, of 5] S show ?thesis by (auto simp: run_schedule_append)
qed

end
