(* ===== verification/Postgres.thy ===== *)
theory Postgres
  imports GoJsonCodec
begin

text \<open>
  The table \<open>workflow_state\<close> (\<open>internal/db/migrations/001_workflow_state.up.sql\<close>) and the
  three SQL statements of \<open>internal/workflow/state.go\<close>, as operations of one transaction on
  the rows it sees. The column constraints are those of the migration. What the server and
  the connection decide is the record \<open>pg_env\<close>: whether the \<open>n\<close>-th statement of the
  transaction fails and how, the generated UUIDs, the time of the transaction, and the text
  a \<open>JSONB\<close> column gives back for the text stored in it.
\<close>

section \<open>Rows\<close>

record ws_row =
  row_id :: string
  row_job_id :: int64
  row_workflow_type :: string
  row_client_id :: string
  row_order_id :: "string option"
  row_current_step :: int
  row_status :: string
  row_error :: "string option"
  row_data :: string
  row_created_at :: int
  row_updated_at :: int

record pg_env =
  pg_fault :: "nat \<Rightarrow> go_error option"
  pg_uuid :: "nat \<Rightarrow> string"
  pg_now :: int
  pg_jsonb :: "string \<Rightarrow> go_error + string"

text \<open>A transaction: the rows it sees, whether an error has aborted it, and how many
  statements it has issued.\<close>

record pg_tx =
  tx_rows :: "ws_row list"
  tx_failed :: bool
  tx_count :: nat

definition begin_tx :: "ws_row list \<Rightarrow> pg_tx" where
  "begin_tx rows = \<lparr>tx_rows = rows, tx_failed = False, tx_count = 0\<rparr>"

section \<open>Column types\<close>

definition pg_error :: "string \<Rightarrow> string \<Rightarrow> go_error" where
  "pg_error msg code =
     ErrForeign ''*pgconn.PgError'' (''ERROR: '' @ msg @ '' (SQLSTATE '' @ code @ '')'') []"

definition pg_aborted :: go_error where
  "pg_aborted = pg_error
     ''current transaction is aborted, commands ignored until end of transaction block'' ''25P02''"

text \<open>The characters of a text, each as its bytes.\<close>

function rune_list :: "string \<Rightarrow> string list" where
  "rune_list s =
     (if s = [] then []
      else take (snd (decode_rune s)) s # rune_list (drop (snd (decode_rune s)) s))"
  by pat_completeness auto
termination
  by (relation "measure length", rule wf_measure, unfold in_measure, rule decode_rune_shorter)

declare rune_list.simps [simp del]

text \<open>A \<open>TEXT\<close> value is UTF-8 without the character NUL.\<close>

definition pg_text :: "string \<Rightarrow> go_error + string" where
  "pg_text s =
     (if utf8_valid s \<and> chr 0 \<notin> set s then Inr s
      else Inl (pg_error ''invalid byte sequence for encoding \"UTF8\"'' ''22021''))"

text \<open>\<open>VARCHAR(n)\<close> counts characters; what exceeds the limit is an error unless it is blanks,
  which are cut off.\<close>

definition pg_varchar :: "nat \<Rightarrow> string \<Rightarrow> go_error + string" where
  "pg_varchar n s =
     (case pg_text s of
        Inl e \<Rightarrow> Inl e
      | Inr _ \<Rightarrow>
          (let cs = rune_list s
           in if length cs \<le> n then Inr s
              else if list_all (\<lambda>c. c = '' '') (drop n cs) then Inr (concat (take n cs))
              else Inl (pg_error (''value too long for type character varying('' @ itoa (int n) @ '')'')
                     ''22001'')))"

fun pg_null :: "(string \<Rightarrow> go_error + string) \<Rightarrow> string option \<Rightarrow> go_error + string option" where
  "pg_null f None = Inr None"
| "pg_null f (Some s) = (case f s of Inl e \<Rightarrow> Inl e | Inr t \<Rightarrow> Inr (Some t))"

text \<open>An \<open>INT\<close> parameter is range-checked by the driver before anything is sent.\<close>

definition int4_ok :: "int \<Rightarrow> bool" where
  "int4_ok i \<longleftrightarrow> - (2 ^ 31) \<le> i \<and> i < 2 ^ 31"

section \<open>Statements\<close>

definition pg_stmt :: "pg_env \<Rightarrow> pg_tx \<Rightarrow> (ws_row list \<Rightarrow> go_error + ('a \<times> ws_row list)) \<Rightarrow>
    (go_error + 'a) \<times> pg_tx" where
  "pg_stmt env tx body =
     (let tx1 = tx\<lparr>tx_count := Suc (tx_count tx)\<rparr>
      in if tx_failed tx then (Inl pg_aborted, tx1)
         else case pg_fault env (tx_count tx) of
           Some e \<Rightarrow> (Inl e, tx1\<lparr>tx_failed := True\<rparr>)
         | None \<Rightarrow>
             (case body (tx_rows tx) of
                Inl e \<Rightarrow> (Inl e, tx1\<lparr>tx_failed := True\<rparr>)
              | Inr (x, rows) \<Rightarrow> (Inr x, tx1\<lparr>tx_rows := rows\<rparr>)))"

text \<open>\<open>INSERT INTO workflow_state (...) VALUES (...) RETURNING id, created_at, updated_at\<close>.\<close>

definition insert_row :: "pg_env \<Rightarrow> nat \<Rightarrow> int64 \<Rightarrow> string \<Rightarrow> string \<Rightarrow> string option \<Rightarrow> string \<Rightarrow>
    string \<Rightarrow> go_error + ws_row" where
  "insert_row env n job_id workflow_type client_id order_id status data =
     (case pg_varchar 50 workflow_type of Inl e \<Rightarrow> Inl e | Inr workflow_type' \<Rightarrow>
     (case pg_varchar 50 client_id of Inl e \<Rightarrow> Inl e | Inr client_id' \<Rightarrow>
     (case pg_null (pg_varchar 50) order_id of Inl e \<Rightarrow> Inl e | Inr order_id' \<Rightarrow>
     (case pg_varchar 20 status of Inl e \<Rightarrow> Inl e | Inr status' \<Rightarrow>
     (case pg_jsonb env data of Inl e \<Rightarrow> Inl e | Inr data' \<Rightarrow>
        Inr \<lparr>row_id = pg_uuid env n, row_job_id = job_id, row_workflow_type = workflow_type',
             row_client_id = client_id', row_order_id = order_id', row_current_step = 0,
             row_status = status', row_error = None, row_data = data',
             row_created_at = pg_now env, row_updated_at = pg_now env\<rparr>)))))"

definition sql_insert :: "pg_env \<Rightarrow> pg_tx \<Rightarrow> int64 \<Rightarrow> string \<Rightarrow> string \<Rightarrow> string option \<Rightarrow> string \<Rightarrow>
    string \<Rightarrow> (go_error + ws_row) \<times> pg_tx" where
  "sql_insert env tx job_id workflow_type client_id order_id status data =
     pg_stmt env tx (\<lambda>rows.
       case insert_row env (tx_count tx) job_id workflow_type client_id order_id status data of
         Inl e \<Rightarrow> Inl e
       | Inr row \<Rightarrow>
           if job_id \<in> set (map row_job_id rows)
           then Inl (pg_error ''duplicate key value violates unique constraint \"workflow_state_job_id_key\"'' ''23505'')
           else if row_id row \<in> set (map row_id rows)
           then Inl (pg_error ''duplicate key value violates unique constraint \"workflow_state_pkey\"'' ''23505'')
           else Inr (row, rows @ [row]))"

text \<open>\<open>SELECT ... FROM workflow_state WHERE job_id = $1\<close>.\<close>

definition find_row :: "ws_row list \<Rightarrow> int64 \<Rightarrow> ws_row option" where
  "find_row rows job_id = find (\<lambda>r. row_job_id r = job_id) rows"

definition sql_select :: "pg_env \<Rightarrow> pg_tx \<Rightarrow> int64 \<Rightarrow> (go_error + ws_row) \<times> pg_tx" where
  "sql_select env tx job_id =
     (case pg_stmt env tx (\<lambda>rows. Inr (find_row rows job_id, rows)) of
        (Inl e, tx') \<Rightarrow> (Inl e, tx')
      | (Inr None, tx') \<Rightarrow> (Inl (ErrSentinel NoRows), tx')
      | (Inr (Some row), tx') \<Rightarrow> (Inr row, tx'))"

text \<open>\<open>UPDATE workflow_state SET ... WHERE job_id = $5\<close>; the result is the number of rows
  affected. The parameters are read as text and JSON first, the length of the status is
  checked where a row takes it.\<close>

definition set_row :: "pg_env \<Rightarrow> int \<Rightarrow> string \<Rightarrow> string option \<Rightarrow> string \<Rightarrow> ws_row \<Rightarrow> ws_row" where
  "set_row env current_step status err data row =
     row\<lparr>row_current_step := current_step, row_status := status, row_error := err,
         row_data := data, row_updated_at := pg_now env\<rparr>"

definition update_rows :: "pg_env \<Rightarrow> int64 \<Rightarrow> int \<Rightarrow> string \<Rightarrow> string option \<Rightarrow> string \<Rightarrow>
    ws_row list \<Rightarrow> go_error + (nat \<times> ws_row list)" where
  "update_rows env job_id current_step status err data rows =
     (case pg_text status of Inl e \<Rightarrow> Inl e | Inr _ \<Rightarrow>
     (case pg_null pg_text err of Inl e \<Rightarrow> Inl e | Inr err' \<Rightarrow>
     (case pg_jsonb env data of Inl e \<Rightarrow> Inl e | Inr data' \<Rightarrow>
        if find_row rows job_id = None then Inr (0, rows)
        else (case pg_varchar 20 status of Inl e \<Rightarrow> Inl e | Inr status' \<Rightarrow>
          Inr (length (filter (\<lambda>r. row_job_id r = job_id) rows),
               map (\<lambda>r. if row_job_id r = job_id
                        then set_row env current_step status' err' data' r else r) rows)))))"

definition sql_update :: "pg_env \<Rightarrow> pg_tx \<Rightarrow> int64 \<Rightarrow> int \<Rightarrow> string \<Rightarrow> string option \<Rightarrow> string \<Rightarrow>
    (go_error + nat) \<times> pg_tx" where
  "sql_update env tx job_id current_step status err data =
     (if \<not> int4_ok current_step
      then (Inl (ErrForeign ''*pgconn.encodeError''
              (itoa current_step @ '' is out of range for int4'') []), tx)
      else pg_stmt env tx (update_rows env job_id current_step status err data))"

section \<open>The table invariant\<close>

text \<open>\<open>job_id\<close> is unique.\<close>

definition rows_ok :: "ws_row list \<Rightarrow> bool" where
  "rows_ok rows \<longleftrightarrow> distinct (map row_job_id rows)"

definition tx_view :: "pg_tx \<Rightarrow> int64 \<Rightarrow> ws_row option" where
  "tx_view tx j = find_row (tx_rows tx) j"

lemma find_row_Nil [simp]: "find_row [] j = None"
  by (simp add: find_row_def)

lemma find_row_Cons [simp]:
  "find_row (r # rows) j = (if row_job_id r = j then Some r else find_row rows j)"
  by (simp add: find_row_def)

lemma find_row_Some: "find_row rows j = Some r \<Longrightarrow> r \<in> set rows \<and> row_job_id r = j"
  by (auto simp: find_row_def find_Some_iff)

lemma find_row_None: "find_row rows j = None \<longleftrightarrow> j \<notin> row_job_id ` set rows"
  by (auto simp: find_row_def find_None_iff)

lemma find_row_append: "find_row (rows @ [r]) j =
    (case find_row rows j of Some x \<Rightarrow> Some x | None \<Rightarrow> if row_job_id r = j then Some r else None)"
  by (induction rows) simp_all

lemma row_job_id_set_row [simp]: "row_job_id (set_row env c s e d r) = row_job_id r"
  by (simp add: set_row_def)

lemma find_row_update:
  "find_row (map (\<lambda>r. if row_job_id r = j then set_row env c s e d r else r) rows) k =
    (if k = j then map_option (set_row env c s e d) (find_row rows k) else find_row rows k)"
  by (induction rows) auto

lemma map_job_ids_update:
  "map row_job_id (map (\<lambda>r. if row_job_id r = j then set_row env c s e d r else r) rows) =
    map row_job_id rows"
  by simp

lemma rows_affected: "length (filter (\<lambda>r. row_job_id r = j) rows) = 0 \<longleftrightarrow> find_row rows j = None"
  by (induction rows) auto

lemma pg_stmt_cases:
  assumes "pg_stmt env tx body = (res, tx')"
  obtains (failed) e where "res = Inl e" "tx_rows tx' = tx_rows tx" "tx_failed tx'"
    | (ok) x rows where "res = Inr x" "body (tx_rows tx) = Inr (x, rows)" "tx_rows tx' = rows"
        "\<not> tx_failed tx" "\<not> tx_failed tx'"
  using assms unfolding pg_stmt_def Let_def
  by (auto split: if_splits option.splits sum.splits)

end
