(* ===== verification/WorkflowState.thy ===== *)
theory WorkflowState
  imports Postgres
begin

text \<open>
  \<open>internal/workflow/state.go\<close>: the workflow state with its JSON accumulator, and
  \<open>PgxRepository\<close>, which keeps it in the table. The \<open>Repository\<close> interface is the record
  \<open>repository\<close> of its three methods and the locale \<open>repository_laws\<close> of what a caller may
  rely on; the interpretation at the end proves these laws of \<open>PgxRepository\<close>.
\<close>

definition StatusPending :: string where "StatusPending = ''pending''"
definition StatusRunning :: string where "StatusRunning = ''running''"
definition StatusCompleted :: string where "StatusCompleted = ''completed''"
definition StatusFailed :: string where "StatusFailed = ''failed''"

lemmas status_defs = StatusPending_def StatusRunning_def StatusCompleted_def StatusFailed_def

definition ErrNotFound :: go_error where
  "ErrNotFound = ErrSentinel NotFound"

text \<open>\<open>Data\<close> is \<open>None\<close> for the nil map.\<close>

record workflow_state =
  ws_ID :: string
  ws_JobID :: int64
  ws_WorkflowType :: string
  ws_ClientID :: string
  ws_OrderID :: string
  ws_CurrentStep :: int
  ws_Status :: string
  ws_Error :: string
  ws_Data :: "string gomap option"
  ws_CreatedAt :: int
  ws_UpdatedAt :: int

text \<open>The zero value; the zero time is \<open>0\<close> here.\<close>

definition zero_state :: workflow_state where
  "zero_state = \<lparr>ws_ID = [], ws_JobID = 0, ws_WorkflowType = [], ws_ClientID = [],
     ws_OrderID = [], ws_CurrentStep = 0, ws_Status = [], ws_Error = [], ws_Data = None,
     ws_CreatedAt = 0, ws_UpdatedAt = 0\<rparr>"

section \<open>The accumulator\<close>

text \<open>Reading a nil map finds nothing.\<close>

definition data_get :: "workflow_state \<Rightarrow> string \<Rightarrow> string option" where
  "data_get s key = (case ws_Data s of None \<Rightarrow> None | Some m \<Rightarrow> gm_get m key)"

definition GetString :: "go_lib \<Rightarrow> workflow_state \<Rightarrow> string \<Rightarrow> string \<times> bool" where
  "GetString U s key =
     (case data_get s key of
        None \<Rightarrow> ([], False)
      | Some raw \<Rightarrow>
          (case json_unmarshal U ''string'' dec_string raw [] of
             (Some _, _) \<Rightarrow> ([], False)
           | (None, v) \<Rightarrow> (v, True)))"

definition GetInt :: "go_lib \<Rightarrow> workflow_state \<Rightarrow> string \<Rightarrow> int64 \<times> bool" where
  "GetInt U s key =
     (case data_get s key of
        None \<Rightarrow> (0, False)
      | Some raw \<Rightarrow>
          (case json_unmarshal U ''int'' dec_int raw 0 of
             (Some _, _) \<Rightarrow> (0, False)
           | (None, v) \<Rightarrow> (v, True)))"

definition Set :: "go_lib \<Rightarrow> workflow_state \<Rightarrow> string \<Rightarrow> go_value \<Rightarrow> go_error option \<times> workflow_state" where
  "Set U s key value =
     (case marshal value of
        Inl e \<Rightarrow> (Some (errorf_w U (''marshal '' @ go_quote U key @ '': '') e), s)
      | Inr raw \<Rightarrow>
          (let m = (case ws_Data s of None \<Rightarrow> [] | Some m \<Rightarrow> m)
           in (None, s\<lparr>ws_Data := Some (gm_set key raw m)\<rparr>)))"

section \<open>\<open>PgxRepository\<close>\<close>

definition null_if_empty :: "string \<Rightarrow> string option" where
  "null_if_empty s = (if s \<noteq> [] then Some s else None)"

definition empty_if_null :: "string option \<Rightarrow> string" where
  "empty_if_null x = (case x of Some s \<Rightarrow> s | None \<Rightarrow> [])"

definition PgxRepository_Create :: "go_lib \<Rightarrow> pg_env \<Rightarrow> pg_tx \<Rightarrow> workflow_state \<Rightarrow>
    go_error option \<times> pg_tx \<times> workflow_state" where
  "PgxRepository_Create U env tx s =
     (case marshal_raw_map U (ws_Data s) of
        Inl e \<Rightarrow> (Some (errorf_w U ''marshal data: '' e), tx, s)
      | Inr data \<Rightarrow>
          (case sql_insert env tx (ws_JobID s) (ws_WorkflowType s) (ws_ClientID s)
                  (null_if_empty (ws_OrderID s)) (ws_Status s) data of
             (Inl e, tx') \<Rightarrow> (Some e, tx', s)
           | (Inr row, tx') \<Rightarrow>
               (None, tx', s\<lparr>ws_ID := row_id row, ws_CreatedAt := row_created_at row,
                             ws_UpdatedAt := row_updated_at row\<rparr>)))"

text \<open>What \<open>Get\<close> makes of a row and its decoded data.\<close>

definition state_of_row :: "ws_row \<Rightarrow> string gomap option \<Rightarrow> workflow_state" where
  "state_of_row row d =
     \<lparr>ws_ID = row_id row, ws_JobID = row_job_id row, ws_WorkflowType = row_workflow_type row,
      ws_ClientID = row_client_id row, ws_OrderID = empty_if_null (row_order_id row),
      ws_CurrentStep = row_current_step row, ws_Status = row_status row,
      ws_Error = empty_if_null (row_error row), ws_Data = d,
      ws_CreatedAt = row_created_at row, ws_UpdatedAt = row_updated_at row\<rparr>"

definition PgxRepository_Get :: "go_lib \<Rightarrow> pg_env \<Rightarrow> pg_tx \<Rightarrow> int64 \<Rightarrow>
    (go_error + workflow_state) \<times> pg_tx" where
  "PgxRepository_Get U env tx jobID =
     (case sql_select env tx jobID of
        (Inl e, tx') \<Rightarrow>
          (Inl (if errors_is NoRows e then ErrNotFound
                else errorf_w U ''query workflow state: '' e), tx')
      | (Inr row, tx') \<Rightarrow>
          (case unmarshal_raw_map U (row_data row) of
             Inl e \<Rightarrow> (Inl (errorf_w U ''unmarshal data: '' e), tx')
           | Inr d \<Rightarrow> (Inr (state_of_row row d), tx')))"

definition PgxRepository_UpdateStep :: "go_lib \<Rightarrow> pg_env \<Rightarrow> pg_tx \<Rightarrow> workflow_state \<Rightarrow>
    go_error option \<times> pg_tx" where
  "PgxRepository_UpdateStep U env tx s =
     (case marshal_raw_map U (ws_Data s) of
        Inl e \<Rightarrow> (Some (errorf_w U ''marshal data: '' e), tx)
      | Inr data \<Rightarrow>
          (case sql_update env tx (ws_JobID s) (ws_CurrentStep s) (ws_Status s)
                  (null_if_empty (ws_Error s)) data of
             (Inl e, tx') \<Rightarrow> (Some e, tx')
           | (Inr n, tx') \<Rightarrow>
               (if n = 0
                then Some (ErrNew (''workflow state row not found for job_id '' @
                                   itoa (sint (ws_JobID s))))
                else None, tx')))"

section \<open>The \<open>Repository\<close> interface\<close>

record 'tx repository =
  repo_Create :: "'tx \<Rightarrow> workflow_state \<Rightarrow> go_error option \<times> 'tx \<times> workflow_state"
  repo_Get :: "'tx \<Rightarrow> int64 \<Rightarrow> (go_error + workflow_state) \<times> 'tx"
  repo_UpdateStep :: "'tx \<Rightarrow> workflow_state \<Rightarrow> go_error option \<times> 'tx"

definition NewPgxRepository :: "go_lib \<Rightarrow> pg_env \<Rightarrow> pg_tx repository" where
  "NewPgxRepository U env =
     \<lparr>repo_Create = PgxRepository_Create U env, repo_Get = PgxRepository_Get U env,
      repo_UpdateStep = PgxRepository_UpdateStep U env\<rparr>"

text \<open>
  The row after \<open>UpdateStep\<close> stored the state \<open>s\<close>, with the text \<open>t\<close> kept for its data, the
  status \<open>st\<close> and the time \<open>u\<close>; a row \<open>Create\<close> made for the state \<open>s\<close>.
\<close>

definition stored_row :: "workflow_state \<Rightarrow> string \<Rightarrow> string \<Rightarrow> int \<Rightarrow> ws_row \<Rightarrow> ws_row" where
  "stored_row s st t u r =
     r\<lparr>row_current_step := ws_CurrentStep s, row_status := st,
       row_error := null_if_empty (ws_Error s), row_data := t, row_updated_at := u\<rparr>"

definition fresh_row :: "workflow_state \<Rightarrow> ws_row \<Rightarrow> bool" where
  "fresh_row s r \<longleftrightarrow>
     row_job_id r = ws_JobID s \<and> row_current_step r = 0 \<and> row_error r = None \<and>
     (length (ws_Status s) \<le> 20 \<longrightarrow> row_status r = ws_Status s) \<and>
     (length (ws_WorkflowType s) \<le> 50 \<longrightarrow> row_workflow_type r = ws_WorkflowType s) \<and>
     (length (ws_ClientID s) \<le> 50 \<longrightarrow> row_client_id r = ws_ClientID s)"

locale repository_laws =
  fixes R :: "'tx repository"
    and view :: "'tx \<Rightarrow> int64 \<Rightarrow> ws_row option"
    and decodes :: "string \<Rightarrow> string gomap option \<Rightarrow> bool"
    and stores :: "string gomap option \<Rightarrow> string \<Rightarrow> bool"
  assumes view_job: "view tx j = Some r \<Longrightarrow> row_job_id r = j"
    and get_found: "repo_Get R tx j = (Inr s, tx') \<Longrightarrow>
      \<exists>r d. view tx j = Some r \<and> s = state_of_row r d \<and> decodes (row_data r) d"
    and get_view: "repo_Get R tx j = (res, tx') \<Longrightarrow> view tx' = view tx"
    and create_ok: "repo_Create R tx s = (None, tx', s') \<Longrightarrow>
      view tx (ws_JobID s) = None \<and>
      (\<exists>r. fresh_row s r \<and> stores (ws_Data s) (row_data r) \<and>
           view tx' = (view tx)(ws_JobID s \<mapsto> r) \<and>
           s' = s\<lparr>ws_ID := row_id r, ws_CreatedAt := row_created_at r,
                  ws_UpdatedAt := row_updated_at r\<rparr>)"
    and create_error: "repo_Create R tx s = (Some e, tx', s') \<Longrightarrow> view tx' = view tx"
    and update_ok: "repo_UpdateStep R tx s = (None, tx') \<Longrightarrow>
      \<exists>r st t u. view tx (ws_JobID s) = Some r \<and>
        (length (ws_Status s) \<le> 20 \<longrightarrow> st = ws_Status s) \<and> stores (ws_Data s) t \<and>
        view tx' = (view tx)(ws_JobID s \<mapsto> stored_row s st t u r)"
    and update_error: "repo_UpdateStep R tx s = (Some e, tx') \<Longrightarrow> view tx' = view tx"
begin

lemma update_other:
  "repo_UpdateStep R tx s = (res, tx') \<Longrightarrow> j \<noteq> ws_JobID s \<Longrightarrow> view tx' j = view tx j"
  using update_ok [of tx s tx'] update_error [of tx s _ tx'] by (cases res) auto

lemma update_this:
  assumes "repo_UpdateStep R tx s = (None, tx')" "length (ws_Status s) \<le> 20"
  obtains r where "view tx' (ws_JobID s) = Some r" "row_status r = ws_Status s"
    "row_current_step r = ws_CurrentStep s" "row_error r = null_if_empty (ws_Error s)"
    "stores (ws_Data s) (row_data r)"
  using update_ok [OF assms(1)] assms(2) by (auto simp: stored_row_def)

end

section \<open>\<open>PgxRepository\<close> obeys the laws\<close>

text \<open>
  A fault of the connection is an error of the driver or of the context, never the answer
  that there is no row.
\<close>

definition faults_ok :: "pg_env \<Rightarrow> bool" where
  "faults_ok env \<longleftrightarrow>
     (\<forall>n e. pg_fault env n = Some e \<longrightarrow> \<not> errors_is NoRows e \<and> \<not> errors_is NotFound e)"

definition pgx_decodes :: "go_lib \<Rightarrow> string \<Rightarrow> string gomap option \<Rightarrow> bool" where
  "pgx_decodes U t d \<longleftrightarrow> unmarshal_raw_map U t = Inr d"

definition pgx_stores :: "go_lib \<Rightarrow> pg_env \<Rightarrow> string gomap option \<Rightarrow> string \<Rightarrow> bool" where
  "pgx_stores U env d t \<longleftrightarrow> (\<exists>t0. marshal_raw_map U d = Inr t0 \<and> pg_jsonb env t0 = Inr t)"

lemma tx_view_rows: "tx_rows tx' = tx_rows tx \<Longrightarrow> tx_view tx' = tx_view tx"
  by (auto simp: tx_view_def)

lemma sql_select_rows: "sql_select env tx j = (res, tx') \<Longrightarrow> tx_rows tx' = tx_rows tx"
  by (auto simp: sql_select_def pg_stmt_def Let_def split: option.splits if_splits)

lemma sql_select_found: "sql_select env tx j = (Inr r, tx') \<Longrightarrow> tx_view tx j = Some r"
  by (auto simp: sql_select_def pg_stmt_def Let_def tx_view_def split: option.splits if_splits)

lemma sql_select_error:
  assumes "sql_select env tx j = (Inl e, tx')" and "faults_ok env"
  shows "errors_is NoRows e \<and> tx_view tx j = None \<or> \<not> errors_is NoRows e \<and> \<not> errors_is NotFound e"
  using assms
  by (auto simp: sql_select_def pg_stmt_def Let_def tx_view_def faults_ok_def pg_aborted_def pg_error_def
      split: option.splits if_splits)

lemma length_rune_list: "length (rune_list s) \<le> length s"
proof (induction s rule: rune_list.induct)
  case (1 s)
  then show ?case
    using decode_rune_shorter [of s] by (subst rune_list.simps) (auto simp del: decode_rune.simps)
qed

lemma pg_varchar_short: "pg_varchar n s = Inr t \<Longrightarrow> length s \<le> n \<Longrightarrow> t = s"
  using length_rune_list [of s]
  by (auto simp: pg_varchar_def Let_def split: sum.splits if_splits)

lemma pg_null_text: "pg_null pg_text x = Inr y \<Longrightarrow> y = x"
  by (cases x) (auto simp: pg_text_def split: sum.splits if_splits)

lemma sql_insert_ok:
  assumes "sql_insert env tx j wt c oid st d = (Inr r, tx')"
  shows "tx_view tx j = None" "insert_row env (tx_count tx) j wt c oid st d = Inr r"
    "tx_rows tx' = tx_rows tx @ [r]" "row_job_id r = j"
proof -
  show i: "insert_row env (tx_count tx) j wt c oid st d = Inr r"
    and "tx_view tx j = None" "tx_rows tx' = tx_rows tx @ [r]"
    using assms unfolding sql_insert_def tx_view_def
    by (auto elim!: pg_stmt_cases simp: find_row_None split: sum.splits if_splits)
  show "row_job_id r = j"
    using i by (auto simp: insert_row_def split: sum.splits)
qed

lemma sql_insert_error: "sql_insert env tx j wt c oid st d = (Inl e, tx') \<Longrightarrow> tx_rows tx' = tx_rows tx"
  unfolding sql_insert_def by (auto elim!: pg_stmt_cases)

lemma sql_update_error: "sql_update env tx j c st err d = (Inl e, tx') \<Longrightarrow> tx_rows tx' = tx_rows tx"
  unfolding sql_update_def by (auto elim!: pg_stmt_cases split: if_splits)

lemma update_rows_ok:
  assumes "update_rows env j c st err d rows = Inr (n, rows')"
  obtains (none) "n = 0" "rows' = rows" "find_row rows j = None"
    | (some) st' t where "n \<noteq> 0" "find_row rows j \<noteq> None" "pg_varchar 20 st = Inr st'" "pg_jsonb env d = Inr t"
        "rows' = map (\<lambda>r. if row_job_id r = j then set_row env c st' err t r else r) rows"
  using assms pg_null_text [of err]
  by (auto simp: update_rows_def rows_affected [symmetric] split: sum.splits if_splits
      dest!: pg_null_text)

lemma sql_update_ok:
  assumes "sql_update env tx j c st err d = (Inr n, tx')"
  obtains (none) "n = 0" "tx_rows tx' = tx_rows tx" "tx_view tx j = None"
    | (some) r st' t where "n \<noteq> 0" "tx_view tx j = Some r" "pg_varchar 20 st = Inr st'" "pg_jsonb env d = Inr t"
        "tx_view tx' = (tx_view tx)(j \<mapsto> set_row env c st' err t r)"
proof -
  from assms obtain rows' where u: "update_rows env j c st err d (tx_rows tx) = Inr (n, rows')"
    and rows': "tx_rows tx' = rows'"
    unfolding sql_update_def by (auto elim!: pg_stmt_cases split: if_splits)
  from u show thesis
  proof (cases rule: update_rows_ok)
    case none
    with rows' that(1) show thesis by (simp add: tx_view_def)
  next
    case (some st' t)
    then obtain r where r: "find_row (tx_rows tx) j = Some r" by auto
    have "tx_view tx' = (tx_view tx)(j \<mapsto> set_row env c st' err t r)"
      using rows' some(5) r by (auto simp: tx_view_def find_row_update)
    with some r that(2) show thesis by (simp add: tx_view_def)
  qed
qed

interpretation pgx: repository_laws "NewPgxRepository U env" tx_view "pgx_decodes U" "pgx_stores U env"
  for U env
proof unfold_locales
  fix tx tx' :: pg_tx and s s' :: workflow_state and j r res e
  let ?R = "NewPgxRepository U env"
  show "tx_view tx j = Some r \<Longrightarrow> row_job_id r = j"
    by (simp add: tx_view_def find_row_Some)
  show "repo_Get ?R tx j = (Inr s, tx') \<Longrightarrow>
      \<exists>r d. tx_view tx j = Some r \<and> s = state_of_row r d \<and> pgx_decodes U (row_data r) d"
    by (auto simp: NewPgxRepository_def PgxRepository_Get_def pgx_decodes_def
        dest!: sql_select_found split: prod.splits sum.splits)
  show "repo_Get ?R tx j = (res, tx') \<Longrightarrow> tx_view tx' = tx_view tx"
    by (auto simp: NewPgxRepository_def PgxRepository_Get_def
        dest!: sql_select_rows intro!: tx_view_rows split: prod.splits sum.splits)
  show "tx_view tx (ws_JobID s) = None \<and>
      (\<exists>r. fresh_row s r \<and> pgx_stores U env (ws_Data s) (row_data r) \<and>
           tx_view tx' = (tx_view tx)(ws_JobID s \<mapsto> r) \<and>
           s' = s\<lparr>ws_ID := row_id r, ws_CreatedAt := row_created_at r,
                  ws_UpdatedAt := row_updated_at r\<rparr>)"
    if "repo_Create ?R tx s = (None, tx', s')"
  proof -
    from that obtain t r where t: "marshal_raw_map U (ws_Data s) = Inr t"
      and r: "sql_insert env tx (ws_JobID s) (ws_WorkflowType s) (ws_ClientID s)
          (null_if_empty (ws_OrderID s)) (ws_Status s) t = (Inr r, tx')"
      and s': "s' = s\<lparr>ws_ID := row_id r, ws_CreatedAt := row_created_at r, ws_UpdatedAt := row_updated_at r\<rparr>"
      by (auto simp: NewPgxRepository_def PgxRepository_Create_def split: prod.splits sum.splits)
    note ins = sql_insert_ok [OF r]
    have "fresh_row s r \<and> pgx_stores U env (ws_Data s) (row_data r)"
      using ins(2) t pg_varchar_short
      by (auto simp: insert_row_def fresh_row_def pgx_stores_def split: sum.splits)
    moreover have "tx_view tx' = (tx_view tx)(ws_JobID s \<mapsto> r)"
      using ins(1,3,4) by (auto simp: tx_view_def find_row_append split: option.splits)
    ultimately show ?thesis using ins(1) s' by blast
  qed
  show "repo_Create ?R tx s = (Some e, tx', s') \<Longrightarrow> tx_view tx' = tx_view tx"
    by (auto simp: NewPgxRepository_def PgxRepository_Create_def
        dest!: sql_insert_error intro!: tx_view_rows split: prod.splits sum.splits)
  show "\<exists>r st t u. tx_view tx (ws_JobID s) = Some r \<and>
      (length (ws_Status s) \<le> 20 \<longrightarrow> st = ws_Status s) \<and> pgx_stores U env (ws_Data s) t \<and>
      tx_view tx' = (tx_view tx)(ws_JobID s \<mapsto> stored_row s st t u r)"
    if "repo_UpdateStep ?R tx s = (None, tx')"
  proof -
    from that obtain t n where t: "marshal_raw_map U (ws_Data s) = Inr t" and n: "n \<noteq> 0"
      and u: "sql_update env tx (ws_JobID s) (ws_CurrentStep s) (ws_Status s)
          (null_if_empty (ws_Error s)) t = (Inr n, tx')"
      by (auto simp: NewPgxRepository_def PgxRepository_UpdateStep_def split: prod.splits sum.splits if_splits)
    from u n t show ?thesis
      by (cases rule: sql_update_ok)
        (auto simp: stored_row_def set_row_def pgx_stores_def dest: pg_varchar_short)
  qed
  show "repo_UpdateStep ?R tx s = (Some e, tx') \<Longrightarrow> tx_view tx' = tx_view tx"
    by (auto simp: NewPgxRepository_def PgxRepository_UpdateStep_def
        dest!: sql_update_error elim!: sql_update_ok intro!: tx_view_rows
        split: prod.splits sum.splits if_splits)
qed

section \<open>Lemmas on the accumulator\<close>

definition data_wf :: "workflow_state \<Rightarrow> bool" where
  "data_wf s \<longleftrightarrow> (case ws_Data s of None \<Rightarrow> True | Some m \<Rightarrow> gm_wf m)"

text \<open>What a key reads as depends only on the value its text denotes.\<close>

lemma GetString_parse: "GetString U s k =
    (case data_get s k of
       None \<Rightarrow> ([], False)
     | Some raw \<Rightarrow> (case json_parse raw of
                      Some (JStr t) \<Rightarrow> (t, True) | Some JNull \<Rightarrow> ([], True) | _ \<Rightarrow> ([], False)))"
  by (auto simp: GetString_def json_unmarshal_def split: option.splits json.splits)

lemma GetInt_parse: "GetInt U s k =
    (case data_get s k of
       None \<Rightarrow> (0, False)
     | Some raw \<Rightarrow> (case json_parse raw of
                      Some (JNum l) \<Rightarrow> (case parse_int64 l of Some i \<Rightarrow> (i, True) | None \<Rightarrow> (0, False))
                    | Some JNull \<Rightarrow> (0, True) | _ \<Rightarrow> (0, False)))"
  by (auto simp: GetInt_def json_unmarshal_def split: option.splits json.splits)

definition value_at :: "workflow_state \<Rightarrow> string \<Rightarrow> json option option" where
  "value_at s k = map_option json_parse (data_get s k)"

lemma reads_agree:
  assumes "value_at s k = value_at s' k"
  shows "GetString U s k = GetString U s' k" "GetInt U s k = GetInt U s' k"
  using assms unfolding GetString_parse GetInt_parse value_at_def
  by (cases "data_get s k"; cases "data_get s' k"; simp)+

lemma data_get_Set:
  assumes "data_wf s" "marshal v = Inr t"
  shows "data_get (snd (Set U s k v)) k' = (if k' = k then Some t else data_get s k')"
  using assms
  by (cases "ws_Data s") (auto simp: Set_def data_get_def data_wf_def Let_def gm_get_set gm_get_Nil gm_get_def [of "[_]"])

lemma marshal_parse: "marshal v = Inr t \<Longrightarrow> json_parse t = Some (json_of v)"
  using scalar_text_parse [OF marshal_scalar_text] .

section \<open>Properties\<close>

text \<open>The accumulator behaves as a typed map. \<open>Set\<close> fails exactly on a value JSON cannot
  represent, and then leaves the state as it was; otherwise what was set under a key is
  what \<open>GetString\<close> or \<open>GetInt\<close> reads there (a string with its ill-formed bytes replaced by
  U+FFFD, an integer exactly), the reader of the other type reports that it is not there,
  and no other key changes.\<close>

theorem Set_then_Get:
  assumes "data_wf s"
  shows "(\<forall>ty. fst (Set U s k (GUnsupported ty)) \<noteq> None \<and> snd (Set U s k (GUnsupported ty)) = s) \<and>
    fst (Set U s k (GStr t)) = None \<and>
    GetString U (snd (Set U s k (GStr t))) k = (to_valid t, True) \<and>
    GetInt U (snd (Set U s k (GStr t))) k = (0, False) \<and>
    fst (Set U s k (GInt i)) = None \<and>
    GetInt U (snd (Set U s k (GInt i))) k = (i, True) \<and>
    GetString U (snd (Set U s k (GInt i))) k = ([], False) \<and>
    (\<forall>k' v. k' \<noteq> k \<longrightarrow>
       GetString U (snd (Set U s k v)) k' = GetString U s k' \<and>
       GetInt U (snd (Set U s k v)) k' = GetInt U s k') \<and>
    data_wf (snd (Set U s k (GStr t))) \<and> data_wf (snd (Set U s k (GInt i)))"
proof -
  have str: "json_parse (enc_string t) = Some (JStr (to_valid t))" using marshal_parse [of "GStr t"] by simp
  have int: "json_parse (itoa (sint i)) = Some (JNum (itoa (sint i)))" using marshal_parse [of "GInt i"] by simp
  have other: "GetString U (snd (Set U s k v)) k' = GetString U s k' \<and>
       GetInt U (snd (Set U s k v)) k' = GetInt U s k'" if "k' \<noteq> k" for k' v
  proof (cases "marshal v")
    case (Inl e)
    then show ?thesis by (simp add: Set_def)
  next
    case (Inr x)
    then have "value_at (snd (Set U s k v)) k' = value_at s k'"
      using that data_get_Set [OF assms Inr] by (simp add: value_at_def)
    then show ?thesis using reads_agree by blast
  qed
  have wf: "data_wf (snd (Set U s k v))" for v
    using assms by (cases "ws_Data s")
      (auto simp: data_wf_def Set_def Let_def gm_wf_set gm_wf_Cons split: sum.splits)
  have t: "fst (Set U s k (GStr t)) = None \<and> GetString U (snd (Set U s k (GStr t))) k = (to_valid t, True) \<and>
      GetInt U (snd (Set U s k (GStr t))) k = (0, False)"
    by (simp add: GetString_parse GetInt_parse data_get_Set [OF assms, of "GStr t"] str) (simp add: Set_def)
  have i: "fst (Set U s k (GInt i)) = None \<and> GetInt U (snd (Set U s k (GInt i))) k = (i, True) \<and>
      GetString U (snd (Set U s k (GInt i))) k = ([], False)"
    by (simp add: GetString_parse GetInt_parse data_get_Set [OF assms, of "GInt i"] int parse_int64_itoa_sint)
      (simp add: Set_def)
  have "\<forall>ty. fst (Set U s k (GUnsupported ty)) \<noteq> None \<and> snd (Set U s k (GUnsupported ty)) = s"
    by (simp add: Set_def)
  with wf t i other show ?thesis by blast
qed

definition sample_state :: workflow_state where
  "sample_state = zero_state\<lparr>ws_JobID := 7, ws_Status := StatusRunning, ws_CurrentStep := 2,
     ws_Data := Some [(''crm_id'', enc_string ''acme'')]\<rparr>"

lemma Set_then_Get_witness:
  "GetString ascii_tables (snd (Set ascii_tables sample_state ''org_id'' (GStr ''o1''))) ''org_id'' = (''o1'', True) \<and>
   GetInt ascii_tables (snd (Set ascii_tables sample_state ''org_id'' (GInt 5))) ''org_id'' = (5, True)"
proof -
  have w: "data_wf sample_state" by (simp add: sample_state_def data_wf_def gm_wf_def)
  have "to_valid ''o1'' = ''o1''" by (rule to_valid_id) (simp add: utf8_valid_ascii)
  with Set_then_Get [OF w, of ascii_tables "''org_id''" "''o1''" 5] show ?thesis by simp
qed

text \<open>A key whose value is JSON \<open>null\<close> is reported as present, with the zero value, by both
  readers, although it is neither a string nor a number.\<close>

theorem Get_null_is_present:
  assumes "data_get s k = Some ''null''"
  shows "GetString U s k = ([], True) \<and> GetInt U s k = (0, True)"
  using assms marshal_parse [of GNil "''null''"] by (simp add: GetString_parse GetInt_parse)

lemma Get_null_is_present_witness:
  "GetString ascii_tables (snd (Set ascii_tables sample_state ''org_id'' GNil)) ''org_id'' = ([], True)"
proof -
  have "data_wf sample_state" by (simp add: sample_state_def data_wf_def gm_wf_def)
  then have "data_get (snd (Set ascii_tables sample_state ''org_id'' GNil)) ''org_id'' = Some ''null''"
    by (simp add: data_get_Set)
  from Get_null_is_present [OF this, of ascii_tables] show ?thesis by simp
qed

text \<open>
  The documented behaviour of \<open>JSONB\<close> the program relies on, stated for the documents it
  writes: an object of scalars comes back as an object with the same keys and values, in
  whatever order and spelling, and \<open>null\<close> comes back as \<open>null\<close>.
\<close>

definition jsonb_faithful :: "go_lib \<Rightarrow> pg_env \<Rightarrow> bool" where
  "jsonb_faithful U env \<longleftrightarrow>
     (\<forall>m t. scalar_map m \<longrightarrow> pg_jsonb env (enc_object m) = Inr t \<longrightarrow>
        (\<exists>m'. unmarshal_raw_map U t = Inr (Some m') \<and>
              (\<forall>k. map_option json_parse (gm_get m' k) = map_option json_parse (gm_get m k)))) \<and>
     (\<forall>t. pg_jsonb env ''null'' = Inr t \<longrightarrow> unmarshal_raw_map U t = Inr None)"

definition scalar_data :: "workflow_state \<Rightarrow> bool" where
  "scalar_data s \<longleftrightarrow> (case ws_Data s of None \<Rightarrow> True | Some m \<Rightarrow> scalar_map m)"

lemma stored_data:
  assumes "jsonb_faithful U env" "scalar_data s" "pgx_stores U env (ws_Data s) t"
  shows "\<exists>d. unmarshal_raw_map U t = Inr d \<and>
    (\<forall>s' k. ws_Data s' = d \<longrightarrow> value_at s' k = value_at s k)"
proof (cases "ws_Data s")
  case None
  with assms show ?thesis
    by (auto simp: pgx_stores_def marshal_raw_map_def jsonb_faithful_def value_at_def data_get_def)
next
  case (Some m)
  with assms(2,3) have "scalar_map m" "pg_jsonb env (enc_object m) = Inr t"
    by (auto simp: scalar_data_def pgx_stores_def marshal_unmarshal_raw_map)
  with assms(1) obtain m' where "unmarshal_raw_map U t = Inr (Some m')"
    "\<forall>k. map_option json_parse (gm_get m' k) = map_option json_parse (gm_get m k)"
    unfolding jsonb_faithful_def by blast
  with Some show ?thesis by (simp add: value_at_def data_get_def)
qed

lemma empty_null_empty [simp]: "empty_if_null (null_if_empty x) = x"
  by (simp add: empty_if_null_def null_if_empty_def)

lemma UpdateStep_not_failed:
  "PgxRepository_UpdateStep U env tx s = (None, tx') \<Longrightarrow> \<not> tx_failed tx'"
  by (auto simp: PgxRepository_UpdateStep_def sql_update_def elim!: pg_stmt_cases
      split: sum.splits if_splits prod.splits)

text \<open>C11: what \<open>UpdateStep\<close> stored, \<open>Get\<close> reads back: the same step counter, status and error
  text (an empty error is stored as NULL and read as empty again), and an accumulator
  in which every key reads, through \<open>GetString\<close> and \<open>GetInt\<close>, as it did in the state that
  was stored. The hypotheses are that the column type keeps JSON values and that the
  \<open>SELECT\<close> itself does not fail.\<close>

theorem UpdateStep_then_Get:
  assumes jsonb: "jsonb_faithful U env" and data: "scalar_data s" and len: "length (ws_Status s) \<le> 20"
    and upd: "PgxRepository_UpdateStep U env tx s = (None, tx')"
    and live: "pg_fault env (tx_count tx') = None"
  shows "\<exists>s'. fst (PgxRepository_Get U env tx' (ws_JobID s)) = Inr s' \<and>
    ws_JobID s' = ws_JobID s \<and> ws_CurrentStep s' = ws_CurrentStep s \<and>
    ws_Status s' = ws_Status s \<and> ws_Error s' = ws_Error s \<and>
    (\<forall>k. GetString U s' k = GetString U s k \<and> GetInt U s' k = GetInt U s k)"
proof -
  have "repo_UpdateStep (NewPgxRepository U env) tx s = (None, tx')"
    using upd by (simp add: NewPgxRepository_def)
  from pgx.update_this [OF this len] obtain r where r: "tx_view tx' (ws_JobID s) = Some r" "row_status r = ws_Status s"
    "row_current_step r = ws_CurrentStep s" "row_error r = null_if_empty (ws_Error s)"
    "pgx_stores U env (ws_Data s) (row_data r)"
 .
  obtain d where d: "unmarshal_raw_map U (row_data r) = Inr d"
    "\<And>s' k. ws_Data s' = d \<Longrightarrow> value_at s' k = value_at s k"
    using stored_data [OF jsonb data r(5)] by blast
  have "sql_select env tx' (ws_JobID s) = (Inr r, tx'\<lparr>tx_count := Suc (tx_count tx')\<rparr>)"
    using r(1) live UpdateStep_not_failed [OF upd]
    by (simp add: sql_select_def pg_stmt_def Let_def tx_view_def)
  then have get: "fst (PgxRepository_Get U env tx' (ws_JobID s)) = Inr (state_of_row r d)"
    by (simp add: PgxRepository_Get_def d(1))
  have "value_at (state_of_row r d) k = value_at s k" for k
    by (rule d(2)) (simp add: state_of_row_def)
  then have reads: "GetString U (state_of_row r d) k = GetString U s k \<and> GetInt U (state_of_row r d) k = GetInt U s k" for k
    by (intro conjI reads_agree)
  have "ws_JobID (state_of_row r d) = ws_JobID s" "ws_CurrentStep (state_of_row r d) = ws_CurrentStep s"
    "ws_Status (state_of_row r d) = ws_Status s" "ws_Error (state_of_row r d) = ws_Error s"
    using r(2-4) pgx.view_job [OF r(1)] by (simp_all add: state_of_row_def)
  with get reads show ?thesis by blast
qed

text \<open>A server that keeps JSON documents as they are and never fails.\<close>

definition plain_env :: pg_env where
  "plain_env = \<lparr>pg_fault = (\<lambda>_. None), pg_uuid = (\<lambda>n. ''uuid-'' @ itoa (int n)), pg_now = 1,
     pg_jsonb = Inr\<rparr>"

lemma plain_env_ok: "jsonb_faithful U plain_env" "faults_ok plain_env"
proof -
  have "json_parse ''null'' = Some JNull" using marshal_parse [of GNil "''null''"] by simp
  then show "jsonb_faithful U plain_env"
    by (simp add: jsonb_faithful_def plain_env_def marshal_unmarshal_raw_map) (simp add: unmarshal_raw_map_def)
qed (simp add: faults_ok_def plain_env_def)

definition sample_row :: "string \<Rightarrow> ws_row" where
  "sample_row data = \<lparr>row_id = ''u'', row_job_id = 7, row_workflow_type = ''onboard_org'',
     row_client_id = ''acme'', row_order_id = None, row_current_step = 1, row_status = ''running'',
     row_error = None, row_data = data, row_created_at = 0, row_updated_at = 0\<rparr>"

lemma rune_list_ascii: "ascii s \<Longrightarrow> rune_list s = map (\<lambda>c. [c]) s"
  by (induction s) (simp_all add: rune_list.simps [of "[]"] rune_list.simps [of "_ # _"])

lemma pg_varchar_ascii: "ascii s \<Longrightarrow> chr 0 \<notin> set s \<Longrightarrow> length s \<le> n \<Longrightarrow> pg_varchar n s = Inr s"
  by (simp add: pg_varchar_def pg_text_def utf8_valid_ascii rune_list_ascii)

lemma scalar_map_sample: "scalar_map [(''crm_id'', enc_string ''acme'')]"
  by (auto simp: scalar_map_def gm_wf_def utf8_valid_ascii intro: exI [of _ "GStr ''acme''"])

lemma UpdateStep_then_Get_witness:
  "\<exists>s'. fst (PgxRepository_Get ascii_tables plain_env
          (snd (PgxRepository_UpdateStep ascii_tables plain_env (begin_tx [sample_row ''{}'']) sample_state)) 7) = Inr s' \<and>
     ws_CurrentStep s' = 2 \<and> GetString ascii_tables s' ''crm_id'' = GetString ascii_tables sample_state ''crm_id''"
proof -
  let ?upd = "PgxRepository_UpdateStep ascii_tables plain_env (begin_tx [sample_row ''{}'']) sample_state"
  have "pg_varchar 20 ''running'' = Inr ''running''" by (rule pg_varchar_ascii) (simp_all add: chr_eval)
  then have "fst ?upd = None"
    by (simp add: PgxRepository_UpdateStep_def sample_state_def zero_state_def status_defs plain_env_def
        marshal_unmarshal_raw_map scalar_map_sample sql_update_def int4_ok_def pg_stmt_def begin_tx_def
        update_rows_def pg_text_def utf8_valid_ascii chr_eval sample_row_def null_if_empty_def)
  then have u: "?upd = (None, snd ?upd)" by (metis prod.collapse)
  have "scalar_data sample_state" "length (ws_Status sample_state) \<le> 20"
    by (simp_all add: scalar_data_def sample_state_def scalar_map_sample status_defs)
  from UpdateStep_then_Get [OF plain_env_ok(1) this u] show ?thesis
    by (auto simp: sample_state_def plain_env_def)
qed

text \<open>\<open>Get\<close> answers with an error that is \<open>ErrNotFound\<close> exactly when the statement was
  carried out and no row has the job id; every other failure (a fault, an aborted
  transaction, data that is no JSON object) is an error that is not, so the runner does not
  create a second row for it.\<close>

theorem Get_not_found:
  assumes "faults_ok env"
  shows "(\<exists>e. fst (PgxRepository_Get U env tx j) = Inl e \<and> errors_is NotFound e) \<longleftrightarrow>
    \<not> tx_failed tx \<and> pg_fault env (tx_count tx) = None \<and> tx_view tx j = None"
proof -
  have u: "unmarshal_raw_map U t = Inl e \<Longrightarrow> \<not> errors_is NotFound e" for t e
    by (auto simp: unmarshal_raw_map_def json_syntax_error_def json_type_error_def
        split: option.splits json.splits)
  show ?thesis
  proof (cases "sql_select env tx j")
    case (Pair res tx')
    show ?thesis
    proof (cases res)
      case (Inl e)
      have "errors_is NoRows e \<longleftrightarrow>
          \<not> tx_failed tx \<and> pg_fault env (tx_count tx) = None \<and> tx_view tx j = None"
        using Pair Inl assms
        by (auto simp: sql_select_def pg_stmt_def Let_def tx_view_def faults_ok_def pg_aborted_def pg_error_def
            split: option.splits if_splits)
      with Pair Inl sql_select_error [OF _ assms, of tx j e tx'] show ?thesis
        by (auto simp: PgxRepository_Get_def ErrNotFound_def err_simps)
    next
      case (Inr r)
      with Pair sql_select_found [of env tx j r tx'] u show ?thesis
        by (auto simp: PgxRepository_Get_def err_simps split: sum.splits)
    qed
  qed
qed

lemma Get_not_found_witness:
  "\<exists>e. fst (PgxRepository_Get ascii_tables plain_env (begin_tx [sample_row ''{}'']) 8) = Inl e \<and>
       errors_is NotFound e"
  using Get_not_found [OF plain_env_ok(2), of ascii_tables "begin_tx [sample_row ''{}'']" 8]
  by (simp add: begin_tx_def plain_env_def tx_view_def sample_row_def)

text \<open>The repository keeps \<open>job_id\<close> unique and works on one row. From a table whose job ids
  are distinct every operation leads to such a table; the rows of other jobs stay as
  they were; an operation that returns an error, and \<open>Get\<close> always, changes no row; and
  \<open>Create\<close> succeeds only where the job had no row.\<close>

theorem PgxRepository_frame:
  assumes "rows_ok (tx_rows tx)"
  shows "rows_ok (tx_rows (fst (snd (PgxRepository_Create U env tx s)))) \<and>
    rows_ok (tx_rows (snd (PgxRepository_UpdateStep U env tx s))) \<and>
    tx_rows (snd (PgxRepository_Get U env tx j)) = tx_rows tx \<and>
    (j \<noteq> ws_JobID s \<longrightarrow>
       tx_view (fst (snd (PgxRepository_Create U env tx s))) j = tx_view tx j \<and>
       tx_view (snd (PgxRepository_UpdateStep U env tx s)) j = tx_view tx j) \<and>
    (fst (PgxRepository_Create U env tx s) \<noteq> None \<longrightarrow>
       tx_view (fst (snd (PgxRepository_Create U env tx s))) = tx_view tx) \<and>
    (fst (PgxRepository_UpdateStep U env tx s) \<noteq> None \<longrightarrow>
       tx_view (snd (PgxRepository_UpdateStep U env tx s)) = tx_view tx) \<and>
    (fst (PgxRepository_Create U env tx s) = None \<longrightarrow> tx_view tx (ws_JobID s) = None)"
proof -
  obtain c tx1 s1 where c: "PgxRepository_Create U env tx s = (c, tx1, s1)"
    by (metis prod_cases3)
  obtain u tx2 where u: "PgxRepository_UpdateStep U env tx s = (u, tx2)" by fastforce
  obtain g tx3 where g: "PgxRepository_Get U env tx j = (g, tx3)" by fastforce
  have R: "repo_Create (NewPgxRepository U env) tx s = (c, tx1, s1)"
    "repo_UpdateStep (NewPgxRepository U env) tx s = (u, tx2)"
    using c u by (simp_all add: NewPgxRepository_def)
  have "tx_rows tx3 = tx_rows tx"
    using g by (auto simp: PgxRepository_Get_def dest!: sql_select_rows split: prod.splits sum.splits)
  moreover have "rows_ok (tx_rows tx1)"
  proof -
    have ins: "rows_ok (rows @ [r])" if "find_row rows (row_job_id r) = None" "rows_ok rows" for rows r
      using that by (auto simp: rows_ok_def find_row_None)
    show ?thesis
      using c assms
      by (auto simp: PgxRepository_Create_def dest: sql_insert_error split: sum.splits prod.splits)
        (metis ins sql_insert_ok(1,3,4) tx_view_def)
  qed
  moreover have "rows_ok (tx_rows tx2)"
  proof -
    have "map row_job_id (tx_rows tx2) = map row_job_id (tx_rows tx)"
      using u by (auto simp: PgxRepository_UpdateStep_def sql_update_def map_job_ids_update simp del: map_map
          elim!: pg_stmt_cases update_rows_ok split: sum.splits prod.splits if_splits)
    with assms show ?thesis by (simp add: rows_ok_def)
  qed
  moreover have "c \<noteq> None \<longrightarrow> tx_view tx1 = tx_view tx" "u \<noteq> None \<longrightarrow> tx_view tx2 = tx_view tx"
    "c = None \<longrightarrow> tx_view tx (ws_JobID s) = None"
    using R pgx.create_error pgx.update_error pgx.create_ok by blast+
  moreover have "j \<noteq> ws_JobID s \<longrightarrow> tx_view tx1 j = tx_view tx j \<and> tx_view tx2 j = tx_view tx j"
    using R pgx.update_other [of U env tx s u tx2 j] pgx.create_ok [of U env tx s tx1 s1]
      pgx.create_error [of U env tx s _ tx1 s1] by (cases c) auto
  ultimately show ?thesis by (simp add: c u g)
qed

lemma PgxRepository_frame_witness:
  "rows_ok (tx_rows (snd (PgxRepository_UpdateStep ascii_tables plain_env
     (begin_tx [sample_row ''{}'']) sample_state)))"
  using PgxRepository_frame [of "begin_tx [sample_row ''{}'']" ascii_tables plain_env sample_state]
  by (simp add: begin_tx_def rows_ok_def)

text \<open>\<open>UpdateStep\<close> for a job without a row is not silent: it changes nothing and returns
  the error that names the job id.\<close>

theorem UpdateStep_missing_row:
  assumes "tx_view tx (ws_JobID s) = None"
  shows "\<exists>e. fst (PgxRepository_UpdateStep U env tx s) = Some e \<and>
    tx_rows (snd (PgxRepository_UpdateStep U env tx s)) = tx_rows tx \<and>
    (\<not> tx_failed tx \<and> pg_fault env (tx_count tx) = None \<and> pgx_stores U env (ws_Data s) t \<and>
     int4_ok (ws_CurrentStep s) \<and> pg_text (ws_Status s) = Inr (ws_Status s) \<and>
     pg_text (ws_Error s) = Inr (ws_Error s) \<longrightarrow>
       e = ErrNew (''workflow state row not found for job_id '' @ itoa (sint (ws_JobID s))))"
proof -
  obtain u tx2 where u: "PgxRepository_UpdateStep U env tx s = (u, tx2)" by fastforce
  have "u \<noteq> None"
    using pgx.update_ok [of U env tx s tx2] u assms by (auto simp: NewPgxRepository_def)
  moreover have "tx_rows tx2 = tx_rows tx"
    using u assms
    by (auto simp: PgxRepository_UpdateStep_def dest: sql_update_error elim!: sql_update_ok
        split: sum.splits prod.splits if_splits)
  moreover have "u = Some (ErrNew (''workflow state row not found for job_id '' @ itoa (sint (ws_JobID s))))"
    if live: "\<not> tx_failed tx" "pg_fault env (tx_count tx) = None" "pgx_stores U env (ws_Data s) t"
     "int4_ok (ws_CurrentStep s)" "pg_text (ws_Status s) = Inr (ws_Status s)"
     "pg_text (ws_Error s) = Inr (ws_Error s)"
  proof -
    have "pg_null pg_text (null_if_empty (ws_Error s)) = Inr (null_if_empty (ws_Error s))"
      using live(6) by (simp add: null_if_empty_def)
    then show ?thesis
      using u live assms
      by (auto simp: PgxRepository_UpdateStep_def pgx_stores_def sql_update_def pg_stmt_def Let_def
          update_rows_def tx_view_def)
  qed
  ultimately show ?thesis by (auto simp: u)
qed

lemma UpdateStep_missing_row_witness:
  "fst (PgxRepository_UpdateStep ascii_tables plain_env (begin_tx []) sample_state) =
    Some (ErrNew ''workflow state row not found for job_id 7'')"
proof -
  have "pg_text ''running'' = Inr ''running''"
    by (simp add: pg_text_def utf8_valid_ascii chr_eval)
  moreover have "pgx_stores ascii_tables plain_env (ws_Data sample_state) (enc_object [(''crm_id'', enc_string ''acme'')])"
    by (simp add: pgx_stores_def sample_state_def plain_env_def marshal_unmarshal_raw_map scalar_map_sample)
  ultimately show ?thesis
    using UpdateStep_missing_row [of "begin_tx []" sample_state ascii_tables plain_env "enc_object [(''crm_id'', enc_string ''acme'')]"]
    by (auto simp: begin_tx_def tx_view_def plain_env_def sample_state_def zero_state_def int4_ok_def status_defs
        pg_text_def itoa_def show_nat.simps digit_char_def)
qed

end
