(* ===== verification/Runner.thy ===== *)
theory Runner
  imports WorkflowState
begin

text \<open>
  \<open>internal/workflow/runner.go\<close> and the step interface of \<open>step.go\<close>. A step acts on the
  state and on the outside world (the type variable \<open>'w\<close>); it returns nil, an error, or
  panics. The runner is generic in the repository, as in the code. The relation \<open>run_spec\<close>
  is the abstract description of a run: which steps are executed, how the run ends and
  what the row then records; the last section proves that the runner follows it.
\<close>

record 'w step =
  step_Name :: string
  step_Run :: "workflow_state \<Rightarrow> 'w \<Rightarrow> go_error option go_result \<times> workflow_state \<times> 'w"

record ('w, 'tx) runner =
  runner_repo :: "'tx repository"
  runner_steps :: "'w step list"

definition NewRunner :: "'tx repository \<Rightarrow> 'w step list \<Rightarrow> ('w, 'tx) runner" where
  "NewRunner repo steps = \<lparr>runner_repo = repo, runner_steps = steps\<rparr>"

section \<open>The runner\<close>

text \<open>\<open>fmt.Errorf("update failed state: %w (step error: %w)", updateErr, err)\<close>.\<close>

definition update_failed_error :: "go_lib \<Rightarrow> go_error \<Rightarrow> go_error \<Rightarrow> go_error" where
  "update_failed_error U ue e =
     ErrWrap (''update failed state: '' @ fmt_error U ue @ '' (step error: '' @ fmt_error U e @ '')'')
       [ue, e]"

text \<open>Loads the row of the job or creates it.\<close>

definition load_or_create :: "go_lib \<Rightarrow> 'tx repository \<Rightarrow> 'tx \<Rightarrow> int64 \<Rightarrow> string \<Rightarrow> string \<Rightarrow>
    string gomap option \<Rightarrow> (go_error + workflow_state) \<times> 'tx" where
  "load_or_create U R tx jobID workflowType clientID initialData =
     (case repo_Get R tx jobID of
        (Inr s, tx') \<Rightarrow> (Inr s, tx')
      | (Inl e, tx') \<Rightarrow>
          if \<not> errors_is NotFound e then (Inl (errorf_w U ''load workflow state: '' e), tx')
          else
            (let s = zero_state\<lparr>ws_JobID := jobID, ws_WorkflowType := workflowType,
                       ws_ClientID := clientID, ws_Status := StatusPending, ws_Data := initialData\<rparr>
             in case repo_Create R tx' s of
                  (Some ce, tx'', _) \<Rightarrow> (Inl (errorf_w U ''create workflow state: '' ce), tx'')
                | (None, tx'', s') \<Rightarrow> (Inr s', tx'')))"

text \<open>
  The loop over the steps from index \<open>i\<close> on: \<open>Inl\<close> is an early return (or a panic) of
  \<open>Run\<close>, \<open>Inr\<close> the state after the last step.
\<close>

fun run_steps :: "go_lib \<Rightarrow> 'tx repository \<Rightarrow> nat \<Rightarrow> 'w step list \<Rightarrow> 'tx \<Rightarrow> workflow_state \<Rightarrow> 'w \<Rightarrow>
    (go_error option go_result + workflow_state) \<times> 'tx \<times> 'w" where
  "run_steps U R i [] tx s w = (Inr s, tx, w)"
| "run_steps U R i (st # sts) tx s w =
     (if int i < ws_CurrentStep s then run_steps U R (Suc i) sts tx s w
      else case step_Run st s w of
        (Panics m, s', w') \<Rightarrow> (Inl (Panics m), tx, w')
      | (Returns (Some e), s', w') \<Rightarrow>
          (case err_text U e of
             Panics m \<Rightarrow> (Inl (Panics m), tx, w')
           | Returns t \<Rightarrow>
               (case repo_UpdateStep R tx (s'\<lparr>ws_Status := StatusFailed, ws_Error := t\<rparr>) of
                  (Some ue, tx') \<Rightarrow> (Inl (Returns (Some (update_failed_error U ue e))), tx', w')
                | (None, tx') \<Rightarrow> (Inl (Returns (Some e)), tx', w')))
      | (Returns None, s', w') \<Rightarrow>
          (let s1 = s'\<lparr>ws_CurrentStep := int i + 1\<rparr>
           in case repo_UpdateStep R tx s1 of
                (Some ue, tx') \<Rightarrow>
                  (Inl (Returns (Some (errorf_w U (''update step '' @ itoa (int i) @ '': '') ue))), tx', w')
              | (None, tx') \<Rightarrow> run_steps U R (Suc i) sts tx' s1 w'))"

definition Runner_Run :: "go_lib \<Rightarrow> ('w, 'tx) runner \<Rightarrow> 'tx \<Rightarrow> int64 \<Rightarrow> string \<Rightarrow> string \<Rightarrow>
    string gomap option \<Rightarrow> 'w \<Rightarrow> go_error option go_result \<times> 'tx \<times> 'w" where
  "Runner_Run U r tx jobID workflowType clientID initialData w =
     (let R = runner_repo r
      in case load_or_create U R tx jobID workflowType clientID initialData of
        (Inl e, tx1) \<Rightarrow> (Returns (Some e), tx1, w)
      | (Inr s, tx1) \<Rightarrow>
          (let s1 = s\<lparr>ws_Status := StatusRunning, ws_Error := []\<rparr>
           in case repo_UpdateStep R tx1 s1 of
                (Some e, tx2) \<Rightarrow> (Returns (Some (errorf_w U ''update status to running: '' e)), tx2, w)
              | (None, tx2) \<Rightarrow>
                  (case run_steps U R 0 (runner_steps r) tx2 s1 w of
                     (Inl out, tx3, w') \<Rightarrow> (out, tx3, w')
                   | (Inr s2, tx3, w') \<Rightarrow>
                       (case repo_UpdateStep R tx3 (s2\<lparr>ws_Status := StatusCompleted\<rparr>) of
                          (Some e, tx4) \<Rightarrow>
                            (Returns (Some (errorf_w U ''update status to completed: '' e)), tx4, w')
                        | (None, tx4) \<Rightarrow> (Returns None, tx4, w')))))"

section \<open>What a run does\<close>

text \<open>
  The contract of a step: it may change the accumulator and the outside world, but not the
  job id, the step counter, the status or the error, which are the runner's.
\<close>

definition step_ok :: "'w step \<Rightarrow> bool" where
  "step_ok st \<longleftrightarrow>
     (\<forall>s w r s' w'. step_Run st s w = (r, s', w') \<longrightarrow>
        ws_JobID s' = ws_JobID s \<and> ws_CurrentStep s' = ws_CurrentStep s \<and>
        ws_Status s' = ws_Status s \<and> ws_Error s' = ws_Error s)"

text \<open>
  Running the first \<open>k\<close> of a list of steps, all of which succeed, without any database: the
  first of them has index \<open>i\<close>, and after each the counter is one beyond its index.
\<close>

fun exec_steps :: "nat \<Rightarrow> 'w step list \<Rightarrow> nat \<Rightarrow> workflow_state \<Rightarrow> 'w \<Rightarrow> (workflow_state \<times> 'w) option" where
  "exec_steps i sts 0 s w = Some (s, w)"
| "exec_steps i [] (Suc k) s w = None"
| "exec_steps i (st # sts) (Suc k) s w =
     (case step_Run st s w of
        (Returns None, s', w') \<Rightarrow> exec_steps (Suc i) sts k (s'\<lparr>ws_CurrentStep := int i + 1\<rparr>) w'
      | _ \<Rightarrow> None)"

text \<open>The errors with which the repository may refuse to store a state.\<close>

definition refuses :: "'tx repository \<Rightarrow> workflow_state \<Rightarrow> go_error \<Rightarrow> bool" where
  "refuses R s e \<longleftrightarrow> (\<exists>tx tx'. repo_UpdateStep R tx s = (Some e, tx'))"

text \<open>
  The possible ends of running the steps \<open>sts\<close>, of which the first has index \<open>c\<close>, from a
  state and a world: the outcome of the run, the world it leaves, and the status, error
  and step counter of the row, unless the repository failed or the run panicked. When the
  repository refuses to store a result, the error of the run is the repository's one for just
  the state that was to be stored, under the runner's prefix.
\<close>

inductive run_spec :: "(workflow_state \<Rightarrow> go_error \<Rightarrow> bool) \<Rightarrow> go_lib \<Rightarrow> nat \<Rightarrow> 'w step list \<Rightarrow> workflow_state \<Rightarrow> 'w \<Rightarrow>
    go_error option go_result \<Rightarrow> 'w \<Rightarrow> (string \<times> string \<times> int) option \<Rightarrow> bool"
  for F :: "workflow_state \<Rightarrow> go_error \<Rightarrow> bool" and U :: go_lib and c :: nat and sts :: "'w step list"
    and s :: workflow_state and w :: 'w where
  completed: "exec_steps c sts (length sts) s w = Some (s1, w1) \<Longrightarrow>
    run_spec F U c sts s w (Returns None) w1 (Some (StatusCompleted, [], ws_CurrentStep s1))"
| step_failed: "exec_steps c sts k s w = Some (s1, w1) \<Longrightarrow> k < length sts \<Longrightarrow>
    step_Run (sts ! k) s1 w1 = (Returns (Some e), s2, w2) \<Longrightarrow> err_text U e = Returns t \<Longrightarrow>
    run_spec F U c sts s w (Returns (Some e)) w2 (Some (StatusFailed, t, ws_CurrentStep s1))"
| step_panicked: "exec_steps c sts k s w = Some (s1, w1) \<Longrightarrow> k < length sts \<Longrightarrow>
    step_Run (sts ! k) s1 w1 = (Panics m, s2, w2) \<Longrightarrow>
    run_spec F U c sts s w (Panics m) w2 None"
| error_panicked: "exec_steps c sts k s w = Some (s1, w1) \<Longrightarrow> k < length sts \<Longrightarrow>
    step_Run (sts ! k) s1 w1 = (Returns (Some e), s2, w2) \<Longrightarrow> err_text U e = Panics m \<Longrightarrow>
    run_spec F U c sts s w (Panics m) w2 None"
| failure_not_recorded: "exec_steps c sts k s w = Some (s1, w1) \<Longrightarrow> k < length sts \<Longrightarrow>
    step_Run (sts ! k) s1 w1 = (Returns (Some e), s2, w2) \<Longrightarrow> err_text U e = Returns t \<Longrightarrow>
    F (s2\<lparr>ws_Status := StatusFailed, ws_Error := t\<rparr>) ue \<Longrightarrow>
    run_spec F U c sts s w (Returns (Some (update_failed_error U ue e))) w2 None"
| success_not_recorded: "exec_steps c sts (Suc k) s w = Some (s1, w1) \<Longrightarrow> F s1 ue \<Longrightarrow>
    run_spec F U c sts s w
      (Returns (Some (errorf_w U (''update step '' @ itoa (int (c + k)) @ '': '') ue))) w1 None"
| completion_not_recorded: "exec_steps c sts (length sts) s w = Some (s1, w1) \<Longrightarrow>
    F (s1\<lparr>ws_Status := StatusCompleted\<rparr>) ue \<Longrightarrow>
    run_spec F U c sts s w (Returns (Some (errorf_w U ''update status to completed: '' ue))) w1 None"

inductive_cases run_spec_success: "run_spec F U c sts s w (Returns None) w' fin"
inductive_cases run_spec_recorded: "run_spec F U c sts s w out w' (Some x)"

text \<open>What the row of the job records.\<close>

fun recorded :: "ws_row option \<Rightarrow> string \<times> string \<times> int \<Rightarrow> bool" where
  "recorded None _ = False"
| "recorded (Some r) (st, e, c) =
     (row_status r = st \<and> empty_if_null (row_error r) = e \<and> row_current_step r = c)"

lemma step_okD:
  assumes "step_ok st" "step_Run st s w = (r, s', w')"
  shows "ws_JobID s' = ws_JobID s" "ws_CurrentStep s' = ws_CurrentStep s"
    "ws_Status s' = ws_Status s" "ws_Error s' = ws_Error s"
  using assms unfolding step_ok_def by blast+

lemma exec_steps_state:
  "exec_steps i sts k s w = Some (s', w') \<Longrightarrow> list_all step_ok sts \<Longrightarrow>
    ws_JobID s' = ws_JobID s \<and> ws_Status s' = ws_Status s \<and> ws_Error s' = ws_Error s \<and>
    ws_CurrentStep s' = (if k = 0 then ws_CurrentStep s else int (i + k)) \<and> k \<le> length sts"
proof (induction i sts k s w rule: exec_steps.induct)
  case (3 i st sts k s w)
  from "3.prems" obtain s1 w1 where st: "step_Run st s w = (Returns None, s1, w1)"
    and ex: "exec_steps (Suc i) sts k (s1\<lparr>ws_CurrentStep := int i + 1\<rparr>) w1 = Some (s', w')"
    by (auto split: prod.splits go_result.splits option.splits)
  show ?case
    using "3.IH" [OF st [symmetric] refl refl refl ex] "3.prems"(2) step_okD [OF _ st] by auto
qed auto

text \<open>Where the steps first fail is unique: what runs further is a run of all the steps before.\<close>

lemma exec_steps_Suc: "exec_steps i sts (Suc k) s w =
    (case exec_steps i sts k s w of
       None \<Rightarrow> None
     | Some (s1, w1) \<Rightarrow>
         if k < length sts then
           (case step_Run (sts ! k) s1 w1 of
              (Returns None, s', w') \<Rightarrow> Some (s'\<lparr>ws_CurrentStep := int (i + k) + 1\<rparr>, w')
            | _ \<Rightarrow> None)
         else None)"
proof (induction i sts k s w rule: exec_steps.induct)
  case (1 i sts s w)
  show ?case by (cases sts) (auto split: prod.splits go_result.splits option.splits)
next
  case (3 i st sts k s w)
  show ?case
  proof (cases "\<exists>s' w'. step_Run st s w = (Returns None, s', w')")
    case True
    then obtain s' w' where st: "step_Run st s w = (Returns None, s', w')" by blast
    have e: "exec_steps i (st # sts) (Suc n) s w = exec_steps (Suc i) sts n (s'\<lparr>ws_CurrentStep := int i + 1\<rparr>) w'" for n
      by (simp add: st)
    have n: "(st # sts) ! Suc k = sts ! k" "Suc k < length (st # sts) \<longleftrightarrow> k < length sts" "i + Suc k = Suc i + k"
      by simp_all
    show ?thesis unfolding e n by (rule "3.IH" [OF st [symmetric] refl refl refl])
  qed (auto split: prod.splits go_result.splits option.splits)
qed simp

lemma exec_steps_prefix:
  assumes "exec_steps i sts k s w = Some x" "k' \<le> k"
  shows "exec_steps i sts k' s w \<noteq> None"
  using assms(2,1)
proof (induction k arbitrary: x rule: dec_induct)
  case (step n)
  then show ?case by (cases "exec_steps i sts n s w") (simp_all add: exec_steps_Suc del: exec_steps.simps)
qed simp

lemma failing_step_unique:
  assumes "exec_steps i sts k s w = Some (s1, w1)" "step_Run (sts ! k) s1 w1 = (r, s2, w2)" "r \<noteq> Returns None"
  shows "exec_steps i sts n s w = Some x \<Longrightarrow> n \<le> k"
    and "exec_steps i sts n s w = Some (a, b) \<Longrightarrow> step_Run (sts ! n) a b = (r', a', b') \<Longrightarrow>
      r' \<noteq> Returns None \<Longrightarrow> n = k \<and> a = s1 \<and> b = w1 \<and> r' = r"
proof -
  have fails: "exec_steps i sts (Suc m) s w = None"
    if "exec_steps i sts m s w = Some (a, b)" "step_Run (sts ! m) a b = (q, a', b')" "q \<noteq> Returns None" for m a b q a' b'
    using that by (auto simp: exec_steps_Suc split: go_result.splits option.splits simp del: exec_steps.simps)
  have le: "n \<le> m"
    if "exec_steps i sts m s w = Some (a, b)" "step_Run (sts ! m) a b = (q, a', b')" "q \<noteq> Returns None"
      "exec_steps i sts n s w = Some x" for m a b q a' b' n x
    using exec_steps_prefix [OF that(4), of "Suc m"] fails [OF that(1-3)] by (meson not_less_eq_eq)
  show "exec_steps i sts n s w = Some x \<Longrightarrow> n \<le> k" using le [OF assms] .
  assume n: "exec_steps i sts n s w = Some (a, b)" "step_Run (sts ! n) a b = (r', a', b')" "r' \<noteq> Returns None"
  have "n = k" using le [OF assms n(1)] le [OF n assms(1)] by simp
  with assms n show "n = k \<and> a = s1 \<and> b = w1 \<and> r' = r" by simp
qed

text \<open>A first step that succeeds may be put in front of a run.\<close>

lemma run_spec_Cons:
  assumes st: "step_Run st s w = (Returns None, s', w')"
    and spec: "run_spec F U (Suc i) sts (s'\<lparr>ws_CurrentStep := int i + 1\<rparr>) w' out w'' fin"
  shows "run_spec F U i (st # sts) s w out w'' fin"
proof -
  have ex: "exec_steps i (st # sts) (Suc k) s w =
      exec_steps (Suc i) sts k (s'\<lparr>ws_CurrentStep := int i + 1\<rparr>) w'" for k
    by (simp add: st)
  from spec show ?thesis
  proof cases
    case (completed s1)
    then show ?thesis using run_spec.completed [of i "st # sts" s w] ex by simp
  next
    case (step_failed k s1 w1 e s2 t)
    then show ?thesis using run_spec.step_failed [of i "st # sts" "Suc k" s w] ex by simp
  next
    case (step_panicked k s1 w1 m s2)
    then show ?thesis using run_spec.step_panicked [of i "st # sts" "Suc k" s w] ex by simp
  next
    case (error_panicked k s1 w1 e s2 m)
    then show ?thesis using run_spec.error_panicked [of i "st # sts" "Suc k" s w] ex by simp
  next
    case (failure_not_recorded k s1 w1 e s2 t ue)
    then show ?thesis using run_spec.failure_not_recorded [of i "st # sts" "Suc k" s w] ex by simp
  next
    case (success_not_recorded k s1 ue)
    then show ?thesis using run_spec.success_not_recorded [of i "st # sts" "Suc k" s w] ex by simp
  next
    case (completion_not_recorded s1 ue)
    then show ?thesis using run_spec.completion_not_recorded [of i "st # sts" s w] ex by simp
  qed
qed

text \<open>Steps below the counter are skipped without being called.\<close>

lemma run_steps_skip:
  "(\<And>d. d < m \<Longrightarrow> int (i + d) < ws_CurrentStep s) \<Longrightarrow>
    run_steps U R i sts tx s w = run_steps U R (i + m) (drop m sts) tx s w"
proof (induction m arbitrary: i sts)
  case (Suc m)
  show ?case
  proof (cases sts)
    case (Cons st sts')
    have "int i < ws_CurrentStep s" using Suc.prems [of 0] by simp
    moreover have "run_steps U R (Suc i) sts' tx s w = run_steps U R (Suc i + m) (drop m sts') tx s w"
    proof (rule Suc.IH)
      fix d assume "d < m"
      then show "int (Suc i + d) < ws_CurrentStep s" using Suc.prems [of "Suc d"] by simp
    qed
    ultimately show ?thesis using Cons by simp
  qed simp
qed simp

text \<open>The ends of a run before the first step: reading the row fails otherwise than by its absence,
  creating the absent row fails, or the row cannot be set to running.\<close>

definition new_state :: "int64 \<Rightarrow> string \<Rightarrow> string \<Rightarrow> string gomap option \<Rightarrow> workflow_state" where
  "new_state j wt cid d = zero_state\<lparr>ws_JobID := j, ws_WorkflowType := wt, ws_ClientID := cid,
     ws_Status := StatusPending, ws_Data := d\<rparr>"

inductive setup_failed :: "go_lib \<Rightarrow> 'tx repository \<Rightarrow> 'tx \<Rightarrow> int64 \<Rightarrow> string \<Rightarrow> string \<Rightarrow>
    string gomap option \<Rightarrow> go_error option go_result \<Rightarrow> bool"
  for U :: go_lib and R :: "'tx repository" and tx :: 'tx and j :: int64 and wt :: string
    and cid :: string and d :: "string gomap option" where
  load: "repo_Get R tx j = (Inl e, tx1) \<Longrightarrow> \<not> errors_is NotFound e \<Longrightarrow>
    setup_failed U R tx j wt cid d (Returns (Some (errorf_w U ''load workflow state: '' e)))"
| create: "repo_Get R tx j = (Inl e, tx1) \<Longrightarrow> errors_is NotFound e \<Longrightarrow>
    repo_Create R tx1 (new_state j wt cid d) = (Some ce, tx2, s) \<Longrightarrow>
    setup_failed U R tx j wt cid d (Returns (Some (errorf_w U ''create workflow state: '' ce)))"
| running: "load_or_create U R tx j wt cid d = (Inr s0, tx1) \<Longrightarrow>
    repo_UpdateStep R tx1 (s0\<lparr>ws_Status := StatusRunning, ws_Error := []\<rparr>) = (Some e, tx2) \<Longrightarrow>
    setup_failed U R tx j wt cid d (Returns (Some (errorf_w U ''update status to running: '' e)))"

inductive_cases setup_success: "setup_failed U R tx j wt cid d (Returns None)"

lemma setup_failed_load:
  "load_or_create U R tx j wt cid d = (Inl e, tx') \<Longrightarrow> setup_failed U R tx j wt cid d (Returns (Some e))"
  unfolding load_or_create_def new_state_def [symmetric]
  by (auto simp: Let_def intro: setup_failed.intros split: prod.splits sum.splits if_splits option.splits)

context repository_laws
begin

lemma update_recorded:
  assumes "repo_UpdateStep R tx s = (None, tx')" "length (ws_Status s) \<le> 20"
  shows "recorded (view tx' (ws_JobID s)) (ws_Status s, ws_Error s, ws_CurrentStep s)"
  by (rule update_this [OF assms]) simp

lemma run_steps_spec:
  assumes "run_steps U R i sts tx s w = (out, tx', w')" "list_all step_ok sts"
    "ws_CurrentStep s \<le> int i"
  shows "case out of
      Inr s' \<Rightarrow> exec_steps i sts (length sts) s w = Some (s', w')
    | Inl res \<Rightarrow> \<exists>fin. run_spec (refuses R) U i sts s w res w' fin \<and>
                 (\<forall>x. fin = Some x \<longrightarrow> recorded (view tx' (ws_JobID s)) x)"
  using assms
proof (induction sts arbitrary: i tx s w)
  case (Cons st sts)
  have ok: "step_ok st" using Cons.prems(2) by simp
  have run: "\<not> int i < ws_CurrentStep s" using Cons.prems(3) by simp
  obtain r s1 w1 where st: "step_Run st s w = (r, s1, w1)" by (metis prod_cases3)
  note same = step_okD [OF ok st]
  have z: "exec_steps i (st # sts) 0 s w = Some (s, w)" by simp
  show ?case
  proof (cases r)
    case (Panics m)
    then have "out = Inl (Panics m)" "w' = w1" using Cons.prems(1) run st by auto
    moreover have "run_spec (refuses R) U i (st # sts) s w (Panics m) w1 None"
      using run_spec.step_panicked [OF z] st Panics by simp
    ultimately show ?thesis by auto
  next
    case (Returns x)
    show ?thesis
    proof (cases x)
      case (Some e)
      show ?thesis
      proof (cases "err_text U e")
        case (Panics m)
        then have "out = Inl (Panics m)" "w' = w1" using Cons.prems(1) run st Returns Some by auto
        moreover have "run_spec (refuses R) U i (st # sts) s w (Panics m) w1 None"
          using run_spec.error_panicked [OF z] st Returns Some Panics by simp
        ultimately show ?thesis by auto
      next
        case t: (Returns t)
        let ?s = "s1\<lparr>ws_Status := StatusFailed, ws_Error := t\<rparr>"
        obtain ue tx1 where up: "repo_UpdateStep R tx ?s = (ue, tx1)" by fastforce
        show ?thesis
        proof (cases ue)
          case None
          have "out = Inl (Returns (Some e))" "w' = w1" "tx' = tx1"
            using Cons.prems(1) run st Returns Some t up None by auto
          moreover have "recorded (view tx1 (ws_JobID s)) (StatusFailed, t, ws_CurrentStep s)"
            using update_recorded [OF up [unfolded None]] same by (simp add: status_defs)
          moreover have "run_spec (refuses R) U i (st # sts) s w (Returns (Some e)) w1 (Some (StatusFailed, t, ws_CurrentStep s))"
            using run_spec.step_failed [OF z] st Returns Some t by simp
          ultimately show ?thesis by auto
        next
          case ue: (Some u)
          have "out = Inl (Returns (Some (update_failed_error U u e)))" "w' = w1"
            using Cons.prems(1) run st Returns Some t up ue by auto
          moreover have "refuses R ?s u" using up ue by (auto simp: refuses_def)
          then have "run_spec (refuses R) U i (st # sts) s w (Returns (Some (update_failed_error U u e))) w1 None"
            using run_spec.failure_not_recorded [OF z] st Returns Some t by simp
          ultimately show ?thesis by auto
        qed
      qed
    next
      case None
      let ?s = "s1\<lparr>ws_CurrentStep := int i + 1\<rparr>"
      have st': "step_Run st s w = (Returns None, s1, w1)" using st Returns None by simp
      obtain ue tx1 where up: "repo_UpdateStep R tx ?s = (ue, tx1)" by fastforce
      show ?thesis
      proof (cases ue)
        case (Some u)
        have "out = Inl (Returns (Some (errorf_w U (''update step '' @ itoa (int i) @ '': '') u)))" "w' = w1"
          using Cons.prems(1) run st' up Some by (auto simp: Let_def)
        moreover have "exec_steps i (st # sts) (Suc 0) s w = Some (?s, w1)" using st' by simp
        moreover have "refuses R ?s u" using up Some by (auto simp: refuses_def)
        ultimately show ?thesis using run_spec.success_not_recorded [of i "st # sts" 0 s w] by fastforce
      next
        case ue: None
        have rest: "run_steps U R (Suc i) sts tx1 ?s w1 = (out, tx', w')"
          using Cons.prems(1) run st' up ue by (simp add: Let_def)
        have "case out of
            Inr s' \<Rightarrow> exec_steps (Suc i) sts (length sts) ?s w1 = Some (s', w')
          | Inl res \<Rightarrow> \<exists>fin. run_spec (refuses R) U (Suc i) sts ?s w1 res w' fin \<and>
              (\<forall>x. fin = Some x \<longrightarrow> recorded (view tx' (ws_JobID ?s)) x)"
          using rest Cons.prems(2) by (intro Cons.IH) simp_all
        then show ?thesis
          using st' same(1) run_spec_Cons [OF st'] by (cases out) (simp, blast, simp)
      qed
    qed
  qed
qed auto

lemma load_job:
  assumes "load_or_create U R tx j wt cid d = (Inr s, tx')"
  shows "ws_JobID s = j"
proof (cases "repo_Get R tx j")
  case (Pair res tx1)
  show ?thesis
  proof (cases res)
    case (Inr s0)
    then have "repo_Get R tx j = (Inr s, tx')" using assms Pair by (simp add: load_or_create_def)
    from get_found [OF this] show ?thesis using view_job by (auto simp: state_of_row_def)
  next
    case (Inl e)
    let ?s = "zero_state\<lparr>ws_JobID := j, ws_WorkflowType := wt, ws_ClientID := cid,
      ws_Status := StatusPending, ws_Data := d\<rparr>"
    from Inl have "repo_Create R tx1 ?s = (None, tx', s)"
      using assms Pair by (auto simp: load_or_create_def split: if_splits prod.splits option.splits)
    from create_ok [OF this] show ?thesis by auto
  qed
qed

lemma run_steps_from_start:
  assumes "run_steps U R 0 steps tx s w = (out, tx', w')" "list_all step_ok steps"
  defines "c \<equiv> nat (ws_CurrentStep s)"
  shows "case out of
      Inr s' \<Rightarrow> exec_steps c (drop c steps) (length (drop c steps)) s w = Some (s', w')
    | Inl res \<Rightarrow> \<exists>fin. run_spec (refuses R) U c (drop c steps) s w res w' fin \<and>
                 (\<forall>x. fin = Some x \<longrightarrow> recorded (view tx' (ws_JobID s)) x)"
proof (cases "c \<le> length steps")
  case True
  have "run_steps U R 0 steps tx s w = run_steps U R (0 + c) (drop c steps) tx s w"
    by (rule run_steps_skip) (simp add: c_def)
  then have run: "run_steps U R c (drop c steps) tx s w = (out, tx', w')" using assms(1) by simp
  have "list_all step_ok (drop c steps)"
    using assms(2) by (auto simp: list_all_iff dest: in_set_dropD)
  moreover have "ws_CurrentStep s \<le> int c" by (simp add: c_def)
  ultimately show ?thesis by (rule run_steps_spec [OF run])
next
  case False
  have "run_steps U R 0 steps tx s w = run_steps U R (0 + length steps) (drop (length steps) steps) tx s w"
    by (rule run_steps_skip) (use False in \<open>simp add: c_def\<close>)
  then show ?thesis using assms(1) False by auto
qed

lemma Run_spec:
  assumes run: "Runner_Run U (NewRunner R steps) tx j wt cid d w = (out, tx', w')"
    and ok: "list_all step_ok steps"
  shows "(setup_failed U R tx j wt cid d out \<and> w' = w) \<or>
    (\<exists>s0 c fin. fst (load_or_create U R tx j wt cid d) = Inr s0 \<and> ws_JobID s0 = j \<and>
       c = nat (ws_CurrentStep s0) \<and>
       run_spec (refuses R) U c (drop c steps) (s0\<lparr>ws_Status := StatusRunning, ws_Error := []\<rparr>) w out w' fin \<and>
       (\<forall>x. fin = Some x \<longrightarrow> recorded (view tx' j) x))"
proof -
  obtain l tx1 where l: "load_or_create U R tx j wt cid d = (l, tx1)" by fastforce
  show ?thesis
  proof (cases l)
    case (Inl e)
    then have "out = Returns (Some e)" "w' = w" using run l by (auto simp: Runner_Run_def NewRunner_def)
    moreover have "setup_failed U R tx j wt cid d (Returns (Some e))"
      by (rule setup_failed_load [OF l [unfolded Inl]])
    ultimately show ?thesis by simp
  next
    case (Inr s0)
    let ?s = "s0\<lparr>ws_Status := StatusRunning, ws_Error := []\<rparr>"
    have j: "ws_JobID s0 = j" using load_job l Inr by blast
    obtain u tx2 where u: "repo_UpdateStep R tx1 ?s = (u, tx2)" by fastforce
    show ?thesis
    proof (cases u)
      case (Some e)
      then have "out = Returns (Some (errorf_w U ''update status to running: '' e))" "w' = w"
        using run l Inr u by (auto simp: Runner_Run_def NewRunner_def Let_def)
      with setup_failed.running [OF l [unfolded Inr] u [unfolded Some]] show ?thesis by simp
    next
      case None
      let ?c = "nat (ws_CurrentStep s0)"
      obtain o' tx3 w3 where r: "run_steps U R 0 steps tx2 ?s w = (o', tx3, w3)" by (metis prod_cases3)
      note spec = run_steps_from_start [OF r ok]
      show ?thesis
      proof (cases o')
        case Inl': (Inl res)
        then have "out = res" "tx' = tx3" "w' = w3"
          using run l Inr u None r by (auto simp: Runner_Run_def NewRunner_def Let_def)
        with spec Inl' j l Inr show ?thesis by auto
      next
        case Inr': (Inr s2)
        have ex: "exec_steps ?c (drop ?c steps) (length (drop ?c steps)) ?s w = Some (s2, w3)"
          using spec Inr' by simp
        have same: "ws_JobID s2 = j" "ws_Error s2 = []"
          using exec_steps_state [OF ex] ok j by (auto simp: list_all_iff dest: in_set_dropD)
        obtain v tx4 where v: "repo_UpdateStep R tx3 (s2\<lparr>ws_Status := StatusCompleted\<rparr>) = (v, tx4)" by fastforce
        show ?thesis
        proof (cases v)
          case None': None
          have "out = Returns None" "tx' = tx4" "w' = w3"
            using run l Inr u None r Inr' v None' by (auto simp: Runner_Run_def NewRunner_def Let_def)
          moreover have "recorded (view tx4 j) (StatusCompleted, [], ws_CurrentStep s2)"
            using update_recorded [OF v [unfolded None']] same by (simp add: status_defs)
          ultimately show ?thesis using run_spec.completed [OF ex, of "refuses R" U] j l Inr by auto
        next
          case Some': (Some e)
          have "out = Returns (Some (errorf_w U ''update status to completed: '' e))" "w' = w3"
            using run l Inr u None r Inr' v Some' by (auto simp: Runner_Run_def NewRunner_def Let_def)
          moreover have "refuses R (s2\<lparr>ws_Status := StatusCompleted\<rparr>) e"
            using v Some' by (auto simp: refuses_def)
          ultimately show ?thesis using run_spec.completion_not_recorded [OF ex, of "refuses R" e U] j l Inr by auto
        qed
      qed
    qed
  qed
qed

lemma load_other:
  assumes "load_or_create U R tx j wt cid d = (res, tx')" "i \<noteq> j"
  shows "view tx' i = view tx i"
proof (cases "repo_Get R tx j")
  case (Pair g tx1)
  then have v: "view tx1 = view tx" using get_view by blast
  let ?s = "zero_state\<lparr>ws_JobID := j, ws_WorkflowType := wt, ws_ClientID := cid,
      ws_Status := StatusPending, ws_Data := d\<rparr>"
  obtain c tx2 s' where c: "repo_Create R tx1 ?s = (c, tx2, s')" by (metis prod_cases3)
  have "view tx2 i = view tx1 i"
    using c create_ok [of tx1 ?s tx2 s'] create_error [of tx1 ?s _ tx2 s'] assms(2) by (cases c) auto
  with v Pair c assms(1) show ?thesis
    by (auto simp: load_or_create_def split: sum.splits if_splits option.splits)
qed

lemma run_steps_other:
  "run_steps U R i sts tx s w = (out, tx', w') \<Longrightarrow> list_all step_ok sts \<Longrightarrow> k \<noteq> ws_JobID s \<Longrightarrow>
    view tx' k = view tx k \<and> (\<forall>s'. out = Inr s' \<longrightarrow> ws_JobID s' = ws_JobID s)"
proof (induction sts arbitrary: i tx s w)
  case (Cons st sts)
  show ?case
  proof (cases "int i < ws_CurrentStep s")
    case True
    with Cons show ?thesis by (metis list.pred_inject(2) run_steps.simps(2))
  next
    case False
    obtain r s1 w1 where st: "step_Run st s w = (r, s1, w1)" by (metis prod_cases3)
    have id: "ws_JobID s1 = ws_JobID s" using step_okD(1) [OF _ st] Cons.prems(2) by simp
    have upd: "view tx1 k = view tx k" if "repo_UpdateStep R tx t = (u, tx1)" "ws_JobID t = ws_JobID s" for t u tx1
      using update_other [OF that(1)] that(2) Cons.prems(3) by simp
    have rest: "view tx' k = view tx1 k \<and> (\<forall>s'. out = Inr s' \<longrightarrow> ws_JobID s' = ws_JobID s)"
      if "run_steps U R (Suc i) sts tx1 t w1 = (out, tx', w')" "ws_JobID t = ws_JobID s" for tx1 t
      using Cons.IH [OF that(1)] Cons.prems(2,3) that(2) by simp
    show ?thesis
    proof (cases r)
      case (Panics m)
      then show ?thesis using Cons.prems(1) False st by auto
    next
      case (Returns x)
      show ?thesis
      proof (cases x)
        case None
        let ?t = "s1\<lparr>ws_CurrentStep := int i + 1\<rparr>"
        obtain u tx1 where u: "repo_UpdateStep R tx ?t = (u, tx1)" by fastforce
        have t: "ws_JobID ?t = ws_JobID s" using id by simp
        show ?thesis
          using Cons.prems(1) False st Returns None u upd [OF u t] rest [OF _ t, of tx1]
          by (cases u) (auto simp: Let_def)
      next
        case (Some e)
        let ?t = "s1\<lparr>ws_Status := StatusFailed, ws_Error := (case err_text U e of Returns t \<Rightarrow> t)\<rparr>"
        obtain u tx1 where u: "repo_UpdateStep R tx ?t = (u, tx1)" by fastforce
        have t: "ws_JobID ?t = ws_JobID s" using id by simp
        show ?thesis
          using Cons.prems(1) False st Returns Some u upd [OF u t]
          by (cases "err_text U e"; cases u) auto
      qed
    qed
  qed
qed auto

lemma Run_other:
  assumes run: "Runner_Run U (NewRunner R steps) tx j wt cid d w = (out, tx', w')"
    and ok: "list_all step_ok steps" and k: "k \<noteq> j"
  shows "view tx' k = view tx k"
proof -
  obtain l tx1 where l: "load_or_create U R tx j wt cid d = (l, tx1)" by fastforce
  have v1: "view tx1 k = view tx k" using load_other [OF l k] .
  show ?thesis
  proof (cases l)
    case (Inl e)
    then show ?thesis using run l v1 by (auto simp: Runner_Run_def NewRunner_def)
  next
    case (Inr s0)
    have j: "ws_JobID s0 = j" using load_job l Inr by blast
    let ?s = "s0\<lparr>ws_Status := StatusRunning, ws_Error := []\<rparr>"
    obtain u tx2 where u: "repo_UpdateStep R tx1 ?s = (u, tx2)" by fastforce
    have v2: "view tx2 k = view tx k" using update_other [OF u] v1 j k by simp
    obtain o' tx3 w3 where r: "run_steps U R 0 steps tx2 ?s w = (o', tx3, w3)" by (metis prod_cases3)
    have v3: "view tx3 k = view tx k" "\<forall>s'. o' = Inr s' \<longrightarrow> ws_JobID s' = j"
      using run_steps_other [OF r ok, of k] v2 j k by auto
    have v4: "view tx4 k = view tx3 k" if "repo_UpdateStep R tx3 (s2\<lparr>ws_Status := StatusCompleted\<rparr>) = (v, tx4)"
      "o' = Inr s2" for s2 v tx4
      using update_other [OF that(1)] v3(2) that(2) k by simp
    show ?thesis
      using run l Inr u r v2 v3 v4
      by (auto simp: Runner_Run_def NewRunner_def Let_def split: option.splits sum.splits prod.splits)
  qed
qed

end

section \<open>Runs that cannot fail\<close>

text \<open>
  A database on which no statement fails for a reason of its own; an accumulator of scalars whose
  text its \<open>JSONB\<close> column takes (which refuses the character NUL and numbers out of range, for
  instance); and a step that succeeds on every state with such an accumulator and leaves one.
\<close>

definition good_env :: "pg_env \<Rightarrow> bool" where
  "good_env env \<longleftrightarrow> (\<forall>n. pg_fault env n = None)"

definition accepts :: "pg_env \<Rightarrow> string gomap option \<Rightarrow> bool" where
  "accepts env d \<longleftrightarrow>
     (case d of
        None \<Rightarrow> \<exists>t. pg_jsonb env ''null'' = Inr t
      | Some m \<Rightarrow> scalar_map m \<and> (\<exists>t. pg_jsonb env (enc_object m) = Inr t))"

definition step_total :: "pg_env \<Rightarrow> 'w step \<Rightarrow> bool" where
  "step_total env st \<longleftrightarrow> step_ok st \<and>
     (\<forall>s w. accepts env (ws_Data s) \<longrightarrow>
        (\<exists>s' w'. step_Run st s w = (Returns None, s', w') \<and> accepts env (ws_Data s')))"

lemma accepts_text:
  assumes "accepts env d"
  obtains t t' where "marshal_raw_map U d = Inr t" "pg_jsonb env t = Inr t'"
  using assms
  by (cases d) (auto simp: accepts_def marshal_raw_map_def [of _ None] marshal_unmarshal_raw_map)

lemma status_varchar:
  assumes "st \<in> {StatusPending, StatusRunning, StatusCompleted, StatusFailed}"
  shows "pg_varchar 20 st = Inr st" "pg_text st = Inr st"
  using assms by (auto simp: status_defs chr_eval pg_text_def utf8_valid_ascii intro!: pg_varchar_ascii)

lemma pg_text_Nil [simp]: "pg_text [] = Inr []"
  by (simp add: pg_text_def)

lemma pg_null_error: "pg_text t = Inr t \<Longrightarrow> pg_null pg_text (null_if_empty t) = Inr (null_if_empty t)"
  by (simp add: null_if_empty_def)

lemma good_UpdateStep:
  assumes "good_env env" "accepts env (ws_Data s)" "int4_ok (ws_CurrentStep s)"
    and err: "pg_text (ws_Error s) = Inr (ws_Error s)" and "ws_Status s \<in> {StatusPending, StatusRunning, StatusCompleted, StatusFailed}"
    and "\<not> tx_failed tx" "tx_view tx (ws_JobID s) \<noteq> None"
  shows "\<exists>tx'. repo_UpdateStep (NewPgxRepository U env) tx s = (None, tx') \<and> \<not> tx_failed tx' \<and>
    tx_view tx' (ws_JobID s) \<noteq> None"
proof -
  obtain t t' where t: "marshal_raw_map U (ws_Data s) = Inr t" "pg_jsonb env t = Inr t'"
    by (rule accepts_text [OF assms(2)])
  have "fst (repo_UpdateStep (NewPgxRepository U env) tx s) = None"
    using assms t status_varchar [OF assms(5)] pg_null_error [OF err]
    by (auto simp: NewPgxRepository_def PgxRepository_UpdateStep_def sql_update_def pg_stmt_def Let_def
        good_env_def update_rows_def null_if_empty_def tx_view_def rows_affected [unfolded length_0_conv]
        filter_empty_conv find_row_None)
  then obtain tx' where u: "repo_UpdateStep (NewPgxRepository U env) tx s = (None, tx')" by (metis prod.collapse)
  moreover have "\<not> tx_failed tx'"
    using u UpdateStep_not_failed by (auto simp: NewPgxRepository_def)
  moreover have "tx_view tx' (ws_JobID s) \<noteq> None"
    using pgx.update_ok [OF u] by auto
  ultimately show ?thesis by blast
qed

lemma good_run_steps:
  assumes "good_env env"
  shows "list_all (step_total env) sts \<Longrightarrow> accepts env (ws_Data s) \<Longrightarrow> int (i + length sts) < 2 ^ 31 \<Longrightarrow> 0 \<le> ws_CurrentStep s \<Longrightarrow>
    int4_ok (ws_CurrentStep s) \<Longrightarrow> ws_Error s = [] \<Longrightarrow> ws_Status s = StatusRunning \<Longrightarrow> \<not> tx_failed tx \<Longrightarrow>
    tx_view tx (ws_JobID s) \<noteq> None \<Longrightarrow>
    \<exists>s' tx' w'. run_steps U (NewPgxRepository U env) i sts tx s w = (Inr s', tx', w') \<and>
      accepts env (ws_Data s') \<and> int4_ok (ws_CurrentStep s') \<and> ws_Error s' = [] \<and> \<not> tx_failed tx' \<and>
      tx_view tx' (ws_JobID s') \<noteq> None"
proof (induction sts arbitrary: i tx s w)
  case (Cons st sts)
  show ?case
  proof (cases "int i < ws_CurrentStep s")
    case True
    have "\<exists>s' tx' w'. run_steps U (NewPgxRepository U env) (Suc i) sts tx s w = (Inr s', tx', w') \<and>
      accepts env (ws_Data s') \<and> int4_ok (ws_CurrentStep s') \<and> ws_Error s' = [] \<and> \<not> tx_failed tx' \<and>
      tx_view tx' (ws_JobID s') \<noteq> None"
      using Cons.prems by (intro Cons.IH) simp_all
    with True show ?thesis by simp
  next
    case False
    from Cons.prems(1,2) obtain s1 w1 where st: "step_Run st s w = (Returns None, s1, w1)" "accepts env (ws_Data s1)"
      unfolding step_total_def list.pred_inject by meson
    have "step_ok st" using Cons.prems(1) by (simp add: step_total_def)
    note same = step_okD [OF this st(1)]
    let ?t = "s1\<lparr>ws_CurrentStep := int i + 1\<rparr>"
    have sd: "accepts env (ws_Data ?t)" using st(2) by simp
    have "int4_ok (ws_CurrentStep ?t)" using Cons.prems(3) by (simp add: int4_ok_def)
    then obtain tx1 where u: "repo_UpdateStep (NewPgxRepository U env) tx ?t = (None, tx1)" "\<not> tx_failed tx1"
      "tx_view tx1 (ws_JobID ?t) \<noteq> None"
      using good_UpdateStep [OF assms sd, of tx U] same Cons.prems by auto
    have "\<exists>s' tx' w'. run_steps U (NewPgxRepository U env) (Suc i) sts tx1 ?t w1 = (Inr s', tx', w') \<and>
      accepts env (ws_Data s') \<and> int4_ok (ws_CurrentStep s') \<and> ws_Error s' = [] \<and> \<not> tx_failed tx' \<and>
      tx_view tx' (ws_JobID s') \<noteq> None"
      using Cons.prems same sd u by (intro Cons.IH) (simp_all add: int4_ok_def)
    with False st(1) u show ?thesis by (simp add: Let_def)
  qed
qed auto

lemma good_create:
  assumes env: "good_env env" and new: "tx_view tx j = None" and live: "\<not> tx_failed tx"
    and uuid: "pg_uuid env (Suc (tx_count tx)) \<notin> set (map row_id (tx_rows tx))"
    and cols: "pg_varchar 50 wt = Inr wt'" "pg_varchar 50 cid = Inr cid'"
    and d: "accepts env d"
  shows "\<exists>s tx'. load_or_create U (NewPgxRepository U env) tx j wt cid d = (Inr s, tx') \<and>
    ws_JobID s = j \<and> ws_CurrentStep s = 0 \<and> ws_Data s = d \<and> \<not> tx_failed tx' \<and> tx_view tx' j \<noteq> None"
proof -
  let ?s = "zero_state\<lparr>ws_JobID := j, ws_WorkflowType := wt, ws_ClientID := cid,
      ws_Status := StatusPending, ws_Data := d\<rparr>"
  let ?tx = "tx\<lparr>tx_count := Suc (tx_count tx)\<rparr>"
  have get: "repo_Get (NewPgxRepository U env) tx j = (Inl ErrNotFound, ?tx)"
    using env new live
    by (simp add: NewPgxRepository_def PgxRepository_Get_def sql_select_def pg_stmt_def Let_def good_env_def tx_view_def)
  obtain t t' where t: "marshal_raw_map U d = Inr t" "pg_jsonb env t = Inr t'"
    by (rule accepts_text [OF d])
  have job: "j \<notin> row_job_id ` set (tx_rows tx)" using new by (simp add: tx_view_def find_row_None)
  obtain row where row: "insert_row env (Suc (tx_count tx)) j wt cid None StatusPending t = Inr row"
    "row_id row = pg_uuid env (Suc (tx_count tx))"
    using cols t status_varchar(1) [of StatusPending] by (simp add: insert_row_def)
  have "sql_insert env ?tx j wt cid None StatusPending t =
      (Inr row, tx\<lparr>tx_count := Suc (Suc (tx_count tx)), tx_rows := tx_rows tx @ [row]\<rparr>)"
    using env live row uuid job by (simp add: sql_insert_def pg_stmt_def Let_def good_env_def)
  then obtain tx' s' where c: "repo_Create (NewPgxRepository U env) ?tx ?s = (None, tx', s')" "\<not> tx_failed tx'"
    using t live by (simp add: NewPgxRepository_def PgxRepository_Create_def zero_state_def null_if_empty_def)
  have "load_or_create U (NewPgxRepository U env) tx j wt cid d = (Inr s', tx')"
    using get c by (simp add: load_or_create_def ErrNotFound_def)
  moreover from pgx.create_ok [OF c(1)] have "ws_JobID s' = j" "ws_CurrentStep s' = 0" "ws_Data s' = d"
    "tx_view tx' j \<noteq> None"
    by (auto simp: zero_state_def)
  ultimately show ?thesis using c(2) by blast
qed

lemma good_run:
  assumes env: "good_env env" and new: "tx_view tx j = None" and live: "\<not> tx_failed tx"
    and uuid: "pg_uuid env (Suc (tx_count tx)) \<notin> set (map row_id (tx_rows tx))"
    and cols: "pg_varchar 50 wt = Inr wt'" "pg_varchar 50 cid = Inr cid'"
    and d: "accepts env d"
    and steps: "list_all (step_total env) steps" "int (length steps) < 2 ^ 31"
  shows "\<exists>tx' w'. Runner_Run U (NewRunner (NewPgxRepository U env) steps) tx j wt cid d w = (Returns None, tx', w')"
proof -
  let ?R = "NewPgxRepository U env"
  obtain s tx1 where l: "load_or_create U ?R tx j wt cid d = (Inr s, tx1)" and s: "ws_JobID s = j"
    "ws_CurrentStep s = 0" "ws_Data s = d" "\<not> tx_failed tx1" "tx_view tx1 j \<noteq> None"
    using good_create [OF env new live uuid cols d] by blast
  let ?s = "s\<lparr>ws_Status := StatusRunning, ws_Error := []\<rparr>"
  have sd: "accepts env (ws_Data ?s)" using s(3) d by simp
  obtain tx2 where u: "repo_UpdateStep ?R tx1 ?s = (None, tx2)" "\<not> tx_failed tx2" "tx_view tx2 j \<noteq> None"
    using good_UpdateStep [OF env sd, of tx1 U] s by (auto simp: int4_ok_def)
  obtain s' tx3 w' where r: "run_steps U ?R 0 steps tx2 ?s w = (Inr s', tx3, w')" "accepts env (ws_Data s')"
    "int4_ok (ws_CurrentStep s')" "ws_Error s' = []" "\<not> tx_failed tx3" "tx_view tx3 (ws_JobID s') \<noteq> None"
    using good_run_steps [OF env steps(1) sd, of 0 tx2 U w] steps(2) s u by (auto simp: int4_ok_def)
  let ?s' = "s'\<lparr>ws_Status := StatusCompleted\<rparr>"
  have "accepts env (ws_Data ?s')" using r(2) by simp
  then obtain tx4 where "repo_UpdateStep ?R tx3 ?s' = (None, tx4)"
    using good_UpdateStep [OF env, of ?s' tx3 U] r by auto
  with l u(1) r(1) show ?thesis by (simp add: Runner_Run_def NewRunner_def Let_def)
qed

lemma Run_success_rows:
  assumes run: "Runner_Run U (NewRunner (NewPgxRepository U env) steps) tx j wt cid d w = (Returns None, tx', w')"
    and ok: "list_all step_ok steps"
  shows "\<exists>s0 s1. fst (load_or_create U (NewPgxRepository U env) tx j wt cid d) = Inr s0 \<and>
    exec_steps (nat (ws_CurrentStep s0)) (drop (nat (ws_CurrentStep s0)) steps)
      (length steps - nat (ws_CurrentStep s0)) (s0\<lparr>ws_Status := StatusRunning, ws_Error := []\<rparr>) w = Some (s1, w') \<and>
    recorded (tx_view tx' j) (StatusCompleted, [],
      if nat (ws_CurrentStep s0) < length steps then int (length steps) else ws_CurrentStep s0)"
proof -
  from pgx.Run_spec [OF run ok] obtain s0 c fin
    where l: "fst (load_or_create U (NewPgxRepository U env) tx j wt cid d) = Inr s0" and c: "c = nat (ws_CurrentStep s0)"
      and spec: "run_spec (refuses (NewPgxRepository U env)) U c (drop c steps) (s0\<lparr>ws_Status := StatusRunning, ws_Error := []\<rparr>) w (Returns None) w' fin"
      and rec: "\<forall>x. fin = Some x \<longrightarrow> recorded (tx_view tx' j) x"
    by (blast elim: setup_success)
  from spec obtain s1 where ex: "exec_steps c (drop c steps) (length (drop c steps))
      (s0\<lparr>ws_Status := StatusRunning, ws_Error := []\<rparr>) w = Some (s1, w')"
    and fin: "fin = Some (StatusCompleted, [], ws_CurrentStep s1)"
    by (rule run_spec_success)
  have "list_all step_ok (drop c steps)"
    using ok by (auto simp: list_all_iff dest: in_set_dropD)
  from exec_steps_state [OF ex this]
  have "ws_CurrentStep s1 = (if c < length steps then int (length steps) else ws_CurrentStep s0)"
    by auto
  with l ex fin rec c show ?thesis by auto
qed

lemma run_steps_not_nil: "run_steps U R i sts tx s w \<noteq> (Inl (Returns None), tx', w')"
  by (induction sts arbitrary: i tx s w)
    (auto simp: Let_def split: if_splits go_result.splits option.splits prod.splits)

lemma Run_success_not_failed:
  assumes "Runner_Run U (NewRunner (NewPgxRepository U env) steps) tx j wt cid d w = (Returns None, tx', w')"
  shows "\<not> tx_failed tx'"
proof -
  have upd: "\<not> tx_failed t'" if "repo_UpdateStep (NewPgxRepository U env) t s = (None, t')" for t s t'
    using that UpdateStep_not_failed by (auto simp: NewPgxRepository_def)
  from assms show ?thesis
    by (auto simp: Runner_Run_def NewRunner_def Let_def run_steps_not_nil
        split: sum.splits option.splits prod.splits dest: upd)
qed

section \<open>Properties\<close>

text \<open>C1: the runner implements its specification, whatever the steps do within their contract
  and whatever the database answers. Either it ends before the first step, with the error of the
  read, of the insertion or of the update to running under the runner's prefix, or the row of the
  job was loaded or created and the run is one of \<open>run_spec\<close> over the steps from the row's
  \<open>current_step\<close> on, in order, each at most once: all succeed and the row is completed; or one
  fails, its error is returned unchanged, and the row is failed with that error's text and the
  index of the failed step; or a step or the text of its error panics; or the repository refuses
  to store just that result, and the error is the refusal under a prefix with the step's index,
  together with the step's own error.\<close>

theorem Run_refines_spec:
  assumes "Runner_Run U (NewRunner (NewPgxRepository U env) steps) tx j wt cid d w = (out, tx', w')"
    and "list_all step_ok steps"
  shows "(setup_failed U (NewPgxRepository U env) tx j wt cid d out \<and> w' = w) \<or>
    (\<exists>s0 c fin. fst (load_or_create U (NewPgxRepository U env) tx j wt cid d) = Inr s0 \<and>
       ws_JobID s0 = j \<and> c = nat (ws_CurrentStep s0) \<and>
       run_spec (refuses (NewPgxRepository U env)) U c (drop c steps) (s0\<lparr>ws_Status := StatusRunning, ws_Error := []\<rparr>) w out w' fin \<and>
       (\<forall>x. fin = Some x \<longrightarrow> recorded (tx_view tx' j) x))"
  by (rule pgx.Run_spec [OF assms])

text \<open>C10: a run that returns nil has completed the workflow: every step from the row's
  \<open>current_step\<close> on was executed successfully and in order, and the row says completed,
  without an error, with the counter beyond the last step.\<close>

theorem Run_success:
  assumes run: "Runner_Run U (NewRunner (NewPgxRepository U env) steps) tx j wt cid d w = (Returns None, tx', w')"
    and ok: "list_all step_ok steps"
  shows "\<exists>s0 s1. fst (load_or_create U (NewPgxRepository U env) tx j wt cid d) = Inr s0 \<and>
    exec_steps (nat (ws_CurrentStep s0)) (drop (nat (ws_CurrentStep s0)) steps)
      (length steps - nat (ws_CurrentStep s0)) (s0\<lparr>ws_Status := StatusRunning, ws_Error := []\<rparr>) w = Some (s1, w') \<and>
    recorded (tx_view tx' j) (StatusCompleted, [],
      if nat (ws_CurrentStep s0) < length steps then int (length steps) else ws_CurrentStep s0)"
  by (rule Run_success_rows [OF assms])

text \<open>A workflow that is complete stays so. When the row's counter has reached the number
  of steps (the job was processed, but River runs it again) no step is called, so the
  outside world is left alone, and a run without error marks the row completed again with
  the same counter.\<close>

theorem Run_completed_is_noop:
  assumes row: "fst (load_or_create U (NewPgxRepository U env) tx j wt cid d) = Inr s0"
    and past: "int (length steps) \<le> ws_CurrentStep s0" and ok: "list_all step_ok steps"
    and run: "Runner_Run U (NewRunner (NewPgxRepository U env) steps) tx j wt cid d w = (out, tx', w')"
  shows "w' = w \<and> returned out \<and>
    (out = Returns None \<longrightarrow> recorded (tx_view tx' j) (StatusCompleted, [], ws_CurrentStep s0))"
proof -
  have nil: "drop (nat (ws_CurrentStep s0)) steps = []" using past by simp
  from pgx.Run_spec [OF run ok] show ?thesis
  proof (elim disjE exE conjE)
    assume "setup_failed U (NewPgxRepository U env) tx j wt cid d out" "w' = w"
    then show ?thesis by (auto elim: setup_failed.cases)
  next
    fix s1 c fin
    assume "fst (load_or_create U (NewPgxRepository U env) tx j wt cid d) = Inr s1" "c = nat (ws_CurrentStep s1)"
      and spec: "run_spec (refuses (NewPgxRepository U env)) U c (drop c steps) (s1\<lparr>ws_Status := StatusRunning, ws_Error := []\<rparr>) w out w' fin"
      and rec: "\<forall>x. fin = Some x \<longrightarrow> recorded (tx_view tx' j) x"
    with row nil have "drop c steps = []" "s1 = s0" by auto
    with spec rec show ?thesis by (auto elim!: run_spec.cases elim: exec_steps.elims)
  qed
qed

text \<open>C29: a run concerns its own job: the rows of all other jobs are what they were, however
  the run ends.\<close>

theorem Run_frame:
  assumes "Runner_Run U (NewRunner (NewPgxRepository U env) steps) tx j wt cid d w = (out, tx', w')"
    and "list_all step_ok steps" and "k \<noteq> j"
  shows "tx_view tx' k = tx_view tx k"
  by (rule pgx.Run_other [OF assms])

text \<open>C28: a first run completes. For a job without a row, on a database that carries out its
  statements, with steps that succeed, columns that fit and a payload of scalars whose text the
  \<open>JSONB\<close> column takes, \<open>Run\<close> returns nil (and not an error or a panic).\<close>

theorem Run_completes:
  assumes env: "good_env env" and new: "tx_view tx j = None" and live: "\<not> tx_failed tx"
    and uuid: "pg_uuid env (Suc (tx_count tx)) \<notin> set (map row_id (tx_rows tx))"
    and cols: "pg_varchar 50 wt = Inr wt'" "pg_varchar 50 cid = Inr cid'"
    and d: "accepts env d"
    and steps: "list_all (step_total env) steps" "int (length steps) < 2 ^ 31"
  shows "\<exists>tx' w'. Runner_Run U (NewRunner (NewPgxRepository U env) steps) tx j wt cid d w = (Returns None, tx', w')"
  by (rule good_run [OF assms])

section \<open>Witnesses\<close>

text \<open>Steps that log their name in the outside world, one of which fails.\<close>

definition log_step :: "string \<Rightarrow> string list step" where
  "log_step n = \<lparr>step_Name = n, step_Run = (\<lambda>s w. (Returns None, s, w @ [n]))\<rparr>"

definition fail_step :: "string list step" where
  "fail_step = \<lparr>step_Name = ''fail'', step_Run = (\<lambda>s w. (Returns (Some (ErrNew ''boom'')), s, w))\<rparr>"

lemma log_step_ok: "step_ok (log_step n)" "step_total env (log_step n)" "step_ok fail_step"
  by (simp_all add: step_ok_def step_total_def log_step_def fail_step_def)

lemma plain_good: "good_env plain_env"
  by (simp add: good_env_def plain_env_def)

lemma sample_cols: "pg_varchar 50 ''onboard_org'' = Inr ''onboard_org''" "pg_varchar 50 ''acme'' = Inr ''acme''"
  by (rule pg_varchar_ascii; simp add: chr_eval)+

abbreviation demo_run :: "string list step list \<Rightarrow> go_error option go_result \<times> pg_tx \<times> string list" where
  "demo_run steps \<equiv> Runner_Run ascii_tables (NewRunner (NewPgxRepository ascii_tables plain_env) steps)
     (begin_tx []) 7 ''onboard_org'' ''acme'' (Some []) []"

lemma demo_fresh: "tx_view (begin_tx []) 7 = None" "\<not> tx_failed (begin_tx [])"
  "pg_uuid plain_env (Suc (tx_count (begin_tx []))) \<notin> set (map row_id (tx_rows (begin_tx [])))"
  by (simp_all add: begin_tx_def tx_view_def)

lemma plain_accepts: "case d of None \<Rightarrow> True | Some m \<Rightarrow> scalar_map m \<Longrightarrow> accepts plain_env d"
  by (auto simp: accepts_def plain_env_def split: option.splits)

lemma accepts_Nil: "accepts plain_env (Some [])"
  by (rule plain_accepts) (simp add: scalar_map_def)

lemma demo_run_ok:
  "\<exists>tx' w'. demo_run [log_step ''a'', log_step ''b''] = (Returns None, tx', w')"
  by (rule good_run [OF plain_good demo_fresh sample_cols accepts_Nil]) (simp_all add: log_step_ok)

lemma Run_completes_witness:
  "\<exists>tx' w'. demo_run [log_step ''a'', log_step ''b'', log_step ''c''] = (Returns None, tx', w')"
  by (rule Run_completes [OF plain_good demo_fresh sample_cols accepts_Nil]) (simp_all add: log_step_ok)

lemma Run_success_witness:
  "\<exists>tx'. demo_run [log_step ''a'', log_step ''b''] = (Returns None, tx', [''a'', ''b'']) \<and>
     recorded (tx_view tx' 7) (StatusCompleted, [], 2)"
proof -
  obtain tx' w' where run: "demo_run [log_step ''a'', log_step ''b''] = (Returns None, tx', w')"
    using demo_run_ok by blast
  obtain s tx1 where l: "load_or_create ascii_tables (NewPgxRepository ascii_tables plain_env) (begin_tx []) 7
      ''onboard_org'' ''acme'' (Some []) = (Inr s, tx1)" "ws_CurrentStep s = 0"
    using good_create [OF plain_good demo_fresh(1,2,3) sample_cols accepts_Nil] by blast
  from Run_success [OF run] l show ?thesis
    by (auto simp: log_step_ok run) (simp add: log_step_def)
qed

lemma Run_refines_spec_witness:
  "\<exists>out tx' w'. demo_run [log_step ''a'', fail_step] = (out, tx', w') \<and>
    ((setup_failed ascii_tables (NewPgxRepository ascii_tables plain_env) (begin_tx []) 7
       ''onboard_org'' ''acme'' (Some []) out \<and> w' = []) \<or>
     (\<exists>s0 c fin. ws_JobID s0 = 7 \<and> c = nat (ws_CurrentStep s0) \<and>
        run_spec (refuses (NewPgxRepository ascii_tables plain_env)) ascii_tables c (drop c [log_step ''a'', fail_step])
          (s0\<lparr>ws_Status := StatusRunning, ws_Error := []\<rparr>) [] out w' fin \<and>
        (\<forall>x. fin = Some x \<longrightarrow> recorded (tx_view tx' 7) x)))"
proof -
  obtain out tx' w' where run: "demo_run [log_step ''a'', fail_step] = (out, tx', w')" by (metis prod_cases3)
  have "list_all step_ok [log_step ''a'', fail_step]" by (simp add: log_step_ok)
  from Run_refines_spec [OF run this] run show ?thesis by blast
qed

lemma Run_frame_witness:
  "tx_view (fst (snd (Runner_Run ascii_tables (NewRunner (NewPgxRepository ascii_tables plain_env) [log_step ''a'', fail_step])
     (begin_tx [sample_row ''{}'']) 8 ''onboard_org'' ''acme'' (Some []) []))) 7 = Some (sample_row ''{}'')"
proof -
  obtain out tx' w' where run: "Runner_Run ascii_tables (NewRunner (NewPgxRepository ascii_tables plain_env) [log_step ''a'', fail_step])
     (begin_tx [sample_row ''{}'']) 8 ''onboard_org'' ''acme'' (Some []) [] = (out, tx', w')" by (metis prod_cases3)
  have "list_all step_ok [log_step ''a'', fail_step]" by (simp add: log_step_ok)
  from Run_frame [OF run this, of 7] have "tx_view tx' 7 = tx_view (begin_tx [sample_row ''{}'']) 7" by simp
  also have "\<dots> = Some (sample_row ''{}'')"
    by (simp add: begin_tx_def tx_view_def) (simp add: sample_row_def)
  finally show ?thesis by (simp only: run fst_conv snd_conv)
qed

lemma Run_completed_is_noop_witness:
  "snd (snd (Runner_Run ascii_tables (NewRunner (NewPgxRepository ascii_tables plain_env) [log_step ''a''])
     (begin_tx [sample_row (enc_object [])]) 7 ''onboard_org'' ''acme'' (Some []) [])) = []"
proof -
  let ?tx = "begin_tx [sample_row (enc_object [])]"
  obtain out tx' w' where run: "Runner_Run ascii_tables (NewRunner (NewPgxRepository ascii_tables plain_env) [log_step ''a''])
     ?tx 7 ''onboard_org'' ''acme'' (Some []) [] = (out, tx', w')" by (metis prod_cases3)
  have "scalar_map []" by (simp add: scalar_map_def)
  then have l: "fst (load_or_create ascii_tables (NewPgxRepository ascii_tables plain_env) ?tx 7 ''onboard_org'' ''acme'' (Some [])) =
      Inr (state_of_row (sample_row (enc_object [])) (Some []))"
    by (simp add: load_or_create_def NewPgxRepository_def PgxRepository_Get_def sql_select_def pg_stmt_def
        begin_tx_def plain_env_def sample_row_def marshal_unmarshal_raw_map)
  have "int (length [log_step ''a'']) \<le> ws_CurrentStep (state_of_row (sample_row (enc_object [])) (Some []))"
    by (simp add: state_of_row_def sample_row_def)
  from Run_completed_is_noop [OF l this _ run] show ?thesis by (simp add: run log_step_ok)
qed

end
