(* ===== verification/Jobs.thy ===== *)
theory Jobs
  imports Runner
begin

text \<open>
  \<open>internal/jobs\<close>: the argument types of the River jobs with their kinds, the conversion of
  the arguments into the workflow's initial data, the onboarding worker with its seven
  (stub) steps and its transaction, and the registry of workers. A worker acts on the
  committed rows of \<open>workflow_state\<close>; beginning and committing the transaction are where the
  database decides, and a commit that fails may have been applied or not.
\<close>

section \<open>Job arguments (\<open>args.go\<close>)\<close>

record OnboardOrgArgs =
  oa_ClientID :: string
  oa_OrganizationName :: string
  oa_ClientUsername :: string
  oa_ClientFirstName :: string
  oa_ClientLastName :: string
  oa_ClientEmail :: string
  oa_AccountID :: int64
  oa_Country :: string
  oa_State :: string
  oa_PostalCode :: string
  oa_MaxZertoStorage :: int64
  oa_MaxZertoVMs :: int64
  oa_Bandwidth :: string
  oa_ProductID :: string

definition zero_onboard_args :: OnboardOrgArgs where
  "zero_onboard_args = \<lparr>oa_ClientID = [], oa_OrganizationName = [], oa_ClientUsername = [],
     oa_ClientFirstName = [], oa_ClientLastName = [], oa_ClientEmail = [], oa_AccountID = 0,
     oa_Country = [], oa_State = [], oa_PostalCode = [], oa_MaxZertoStorage = 0,
     oa_MaxZertoVMs = 0, oa_Bandwidth = [], oa_ProductID = []\<rparr>"

record DeboardOrgArgs =
  da_ClientID :: string
  da_OrganizationName :: string

record AddContactArgs =
  aa_ClientID :: string
  aa_ContactID :: string
  aa_FirstName :: string
  aa_LastName :: string
  aa_Email :: string

record DeleteContactArgs =
  ca_ClientID :: string
  ca_ContactID :: string

record UpdatePwArgs =
  pa_ClientID :: string
  pa_ContactID :: string
  pa_NewPassword :: string

record UpdateBandwidthArgs =
  ba_ClientID :: string
  ba_OrderID :: string
  ba_Bandwidth :: string

text \<open>The interface \<open>river.JobArgs\<close> is the kind and the JSON form of the arguments.\<close>

datatype job_args =
    OnboardOrg OnboardOrgArgs
  | DeboardOrg DeboardOrgArgs
  | AddContact AddContactArgs
  | DeleteContact DeleteContactArgs
  | UpdatePw UpdatePwArgs
  | UpdateBandwidth UpdateBandwidthArgs

fun Kind :: "job_args \<Rightarrow> string" where
  "Kind (OnboardOrg _) = ''onboard_org''"
| "Kind (DeboardOrg _) = ''deboard_org''"
| "Kind (AddContact _) = ''onboard_contact''"
| "Kind (DeleteContact _) = ''deboard_contact''"
| "Kind (UpdatePw _) = ''update_pw''"
| "Kind (UpdateBandwidth _) = ''update_bandwidth''"

text \<open>The members of the JSON form, in the order and under the names of the struct tags.\<close>

definition onboard_fields :: "OnboardOrgArgs \<Rightarrow> (string \<times> go_value) list" where
  "onboard_fields a =
     [(''crm_id'', GStr (oa_ClientID a)),
      (''organization_name'', GStr (oa_OrganizationName a)),
      (''client_username'', GStr (oa_ClientUsername a)),
      (''client_first_name'', GStr (oa_ClientFirstName a)),
      (''client_last_name'', GStr (oa_ClientLastName a)),
      (''client_email'', GStr (oa_ClientEmail a)),
      (''account_id'', GInt (oa_AccountID a)),
      (''country'', GStr (oa_Country a)),
      (''state'', GStr (oa_State a)),
      (''postal_code'', GStr (oa_PostalCode a)),
      (''max_zerto_storage'', GInt (oa_MaxZertoStorage a)),
      (''max_zerto_vms'', GInt (oa_MaxZertoVMs a)),
      (''bandwidth'', GStr (oa_Bandwidth a)),
      (''product_id'', GStr (oa_ProductID a))]"

fun args_fields :: "job_args \<Rightarrow> (string \<times> go_value) list" where
  "args_fields (OnboardOrg a) = onboard_fields a"
| "args_fields (DeboardOrg a) =
     [(''client_id'', GStr (da_ClientID a)), (''organization_name'', GStr (da_OrganizationName a))]"
| "args_fields (AddContact a) =
     [(''client_id'', GStr (aa_ClientID a)), (''contact_id'', GStr (aa_ContactID a)),
      (''first_name'', GStr (aa_FirstName a)), (''last_name'', GStr (aa_LastName a)),
      (''email'', GStr (aa_Email a))]"
| "args_fields (DeleteContact a) =
     [(''client_id'', GStr (ca_ClientID a)), (''contact_id'', GStr (ca_ContactID a))]"
| "args_fields (UpdatePw a) =
     [(''client_id'', GStr (pa_ClientID a)), (''contact_id'', GStr (pa_ContactID a)),
      (''new_password'', GStr (pa_NewPassword a))]"
| "args_fields (UpdateBandwidth a) =
     [(''client_id'', GStr (ba_ClientID a)), (''order_id'', GStr (ba_OrderID a)),
      (''bandwidth'', GStr (ba_Bandwidth a))]"

definition argsToData :: "go_lib \<Rightarrow> OnboardOrgArgs \<Rightarrow> go_error + string gomap option" where
  "argsToData U args =
     (case marshal_struct (onboard_fields args) of
        Inl e \<Rightarrow> Inl e
      | Inr raw \<Rightarrow>
          (case unmarshal_raw_map U raw of
             Inl e \<Rightarrow> Inl e
           | Inr data \<Rightarrow> Inr data))"

text \<open>Reading the arguments back into the struct, as River does before it calls the worker.\<close>

definition onboard_args_decoder :: "go_lib \<Rightarrow> OnboardOrgArgs decoder" where
  "onboard_args_decoder U = dec_struct U
     [(''crm_id'', on_field oa_ClientID oa_ClientID_update dec_string),
      (''organization_name'', on_field oa_OrganizationName oa_OrganizationName_update dec_string),
      (''client_username'', on_field oa_ClientUsername oa_ClientUsername_update dec_string),
      (''client_first_name'', on_field oa_ClientFirstName oa_ClientFirstName_update dec_string),
      (''client_last_name'', on_field oa_ClientLastName oa_ClientLastName_update dec_string),
      (''client_email'', on_field oa_ClientEmail oa_ClientEmail_update dec_string),
      (''account_id'', on_field oa_AccountID oa_AccountID_update dec_int),
      (''country'', on_field oa_Country oa_Country_update dec_string),
      (''state'', on_field oa_State oa_State_update dec_string),
      (''postal_code'', on_field oa_PostalCode oa_PostalCode_update dec_string),
      (''max_zerto_storage'', on_field oa_MaxZertoStorage oa_MaxZertoStorage_update dec_int),
      (''max_zerto_vms'', on_field oa_MaxZertoVMs oa_MaxZertoVMs_update dec_int),
      (''bandwidth'', on_field oa_Bandwidth oa_Bandwidth_update dec_string),
      (''product_id'', on_field oa_ProductID oa_ProductID_update dec_string)]"

section \<open>The onboarding worker (\<open>onboard_org.go\<close>)\<close>

text \<open>The stub steps: each returns nil and does nothing.\<close>

definition stub_step :: "string \<Rightarrow> 'w step" where
  "stub_step name = \<lparr>step_Name = name, step_Run = (\<lambda>s w. (Returns None, s, w))\<rparr>"

definition checkOrgStep :: "'w step" where "checkOrgStep = stub_step ''check_org''"
definition networkConfigStep :: "'w step" where "networkConfigStep = stub_step ''network_config''"
definition samlConfigStep :: "'w step" where "samlConfigStep = stub_step ''saml_config''"
definition zertoSetupStep :: "'w step" where "zertoSetupStep = stub_step ''zerto_setup''"
definition ldapUpdateStep :: "'w step" where "ldapUpdateStep = stub_step ''ldap_update''"
definition keycloakSyncStep :: "'w step" where "keycloakSyncStep = stub_step ''keycloak_sync''"
definition vappTemplateStep :: "'w step" where "vappTemplateStep = stub_step ''vapp_template''"

lemmas stub_defs = stub_step_def checkOrgStep_def networkConfigStep_def samlConfigStep_def
  zertoSetupStep_def ldapUpdateStep_def keycloakSyncStep_def vappTemplateStep_def

definition onboard_steps :: "'w step list" where
  "onboard_steps =
     [checkOrgStep, networkConfigStep, samlConfigStep, zertoSetupStep, ldapUpdateStep,
      keycloakSyncStep, vappTemplateStep]"

text \<open>
  What the database decides about one call of \<open>Work\<close>: whether \<open>Begin\<close> fails, the statements,
  and whether \<open>Commit\<close> fails and was applied nevertheless.
\<close>

record work_env =
  we_begin :: "go_error option"
  we_pg :: pg_env
  we_commit :: "(go_error \<times> bool) option"

definition ErrTxCommitRollback :: go_error where
  "ErrTxCommitRollback = ErrNew ''commit unexpectedly resulted in rollback''"

definition commit_tx :: "(go_error \<times> bool) option \<Rightarrow> pg_tx \<Rightarrow> ws_row list \<Rightarrow> go_error option \<times> ws_row list" where
  "commit_tx fault tx db =
     (if tx_failed tx then (Some ErrTxCommitRollback, db)
      else case fault of
             None \<Rightarrow> (None, tx_rows tx)
           | Some (e, applied) \<Rightarrow> (Some e, if applied then tx_rows tx else db))"

text \<open>
  \<open>Work\<close> for a given list of steps. Every return and every panic before the commit leaves
  through the deferred \<open>Rollback\<close>, so the committed rows are then those from before.
\<close>

definition work_with :: "go_lib \<Rightarrow> work_env \<Rightarrow> 'w step list \<Rightarrow> ws_row list \<Rightarrow> int64 \<Rightarrow> OnboardOrgArgs \<Rightarrow> 'w \<Rightarrow>
    go_error option go_result \<times> ws_row list \<times> 'w" where
  "work_with U env steps db jobID args w =
     (case we_begin env of
        Some e \<Rightarrow> (Returns (Some (errorf_w U ''begin tx: '' e)), db, w)
      | None \<Rightarrow>
          (case argsToData U args of
             Inl e \<Rightarrow> (Returns (Some (errorf_w U ''marshal args: '' e)), db, w)
           | Inr initialData \<Rightarrow>
               (let runner = NewRunner (NewPgxRepository U (we_pg env)) steps
                in case Runner_Run U runner (begin_tx db) jobID ''onboard_org'' (oa_ClientID args) initialData w of
                     (Panics m, tx, w') \<Rightarrow> (Panics m, db, w')
                   | (Returns (Some e), tx, w') \<Rightarrow> (Returns (Some e), db, w')
                   | (Returns None, tx, w') \<Rightarrow>
                       (case commit_tx (we_commit env) tx db of (e, db') \<Rightarrow> (Returns e, db', w')))))"

definition OnboardOrgWorker_Work :: "go_lib \<Rightarrow> work_env \<Rightarrow> ws_row list \<Rightarrow> int64 \<Rightarrow> OnboardOrgArgs \<Rightarrow> 'w \<Rightarrow>
    go_error option go_result \<times> ws_row list \<times> 'w" where
  "OnboardOrgWorker_Work U env db jobID args w = work_with U env onboard_steps db jobID args w"

section \<open>The registry (\<open>workers.go\<close>)\<close>

text \<open>A registry maps a kind to its worker; \<open>river.AddWorker\<close> panics on a kind that has one.\<close>

datatype worker = OnboardOrgWorker

definition add_worker :: "string \<Rightarrow> worker \<Rightarrow> (string \<times> worker) list \<Rightarrow> (string \<times> worker) list go_result" where
  "add_worker kind wk ws =
     (if kind \<in> set (map fst ws) then Panics (''worker for kind '' @ kind @ '' is already registered'')
      else Returns (ws @ [(kind, wk)]))"

definition Register :: "(string \<times> worker) list go_result" where
  "Register = add_worker (Kind (OnboardOrg zero_onboard_args)) OnboardOrgWorker []"

section \<open>Lemmas\<close>

lemma onboard_fields_ok: "list_all (\<lambda>(k, v). representable v \<and> utf8_valid k) (onboard_fields a)"
  by (simp add: onboard_fields_def utf8_valid_ascii)

lemma argsToData_eq:
  "argsToData U a = Inr (Some (gm_of_list (map (\<lambda>(k, v). (k, text_of v)) (onboard_fields a))))"
proof -
  have "list_all (\<lambda>(k, v). representable v) (onboard_fields a)"
    using onboard_fields_ok [of a] by (auto simp: list_all_iff)
  then show ?thesis
    by (simp add: argsToData_def marshal_struct_scalars unmarshal_struct [OF onboard_fields_ok])
qed

lemma argsToData_scalar: "argsToData U a = Inr d \<Longrightarrow> case d of None \<Rightarrow> True | Some m \<Rightarrow> scalar_map m"
  by (auto simp: argsToData_eq scalar_map_of_list [OF onboard_fields_ok])

lemma stub_step_total: "step_total env (stub_step n)" "step_ok (stub_step n)"
  by (simp_all add: step_total_def step_ok_def stub_step_def)

lemma onboard_steps_total: "list_all (step_total env) onboard_steps" "list_all step_ok onboard_steps"
  by (simp_all add: onboard_steps_def stub_defs stub_step_total [unfolded stub_step_def])

text \<open>The rows after \<open>Work\<close> are those from before or those the transaction saw at its end.\<close>

lemma work_with_cases:
  assumes "work_with U env steps db j args w = (out, db', w')"
  obtains (unchanged) "db' = db"
    | (committed) d tx where "argsToData U args = Inr d"
        "Runner_Run U (NewRunner (NewPgxRepository U (we_pg env)) steps) (begin_tx db) j ''onboard_org''
           (oa_ClientID args) d w = (Returns None, tx, w')"
        "db' = tx_rows tx" "out = Returns None \<or> we_commit env \<noteq> None"
proof (cases "we_begin env")
  case Some
  with assms unchanged show thesis by (simp add: work_with_def)
next
  case nobegin: None
  obtain d where d: "argsToData U args = Inr d" by (simp add: argsToData_eq)
  obtain res tx w1 where r: "Runner_Run U (NewRunner (NewPgxRepository U (we_pg env)) steps) (begin_tx db) j
      ''onboard_org'' (oa_ClientID args) d w = (res, tx, w1)" by (metis prod_cases3)
  show thesis
  proof (cases "res = Returns None")
    case True
    then have w: "(Returns (fst (commit_tx (we_commit env) tx db)), snd (commit_tx (we_commit env) tx db), w1) = (out, db', w')"
      using assms nobegin d r by (simp add: work_with_def case_prod_beta)
    show thesis
    proof (cases "db' = db")
      case False
      with w have "db' = tx_rows tx" "out = Returns None \<or> we_commit env \<noteq> None"
        by (auto simp: commit_tx_def split: if_splits option.splits)
      with committed [OF d, of tx] r True w show thesis by simp
    qed (rule unchanged)
  next
    case False
    then have "db' = db"
      using assms nobegin d r by (auto simp: work_with_def split: go_result.splits option.splits)
    then show thesis by (rule unchanged)
  qed
qed

lemma work_with_failed:
  assumes "work_with U env steps db j args w = (out, db', w')" "out \<noteq> Returns None"
    and "\<And>e. we_commit env \<noteq> Some (e, True)"
  shows "db' = db"
proof (cases "we_begin env")
  case Some
  with assms(1) show ?thesis by (simp add: work_with_def)
next
  case None
  obtain d where "argsToData U args = Inr d" by (simp add: argsToData_eq)
  with None assms show ?thesis
    by (fastforce simp: work_with_def commit_tx_def Let_def split: prod.splits go_result.splits option.splits if_splits)
qed

lemma work_with_other:
  assumes "work_with U env steps db i args w = (out, db', w')" "list_all step_ok steps" "j \<noteq> i"
  shows "find_row db' j = find_row db j"
  using assms(1)
proof (cases rule: work_with_cases)
  case (committed d tx)
  from pgx.Run_other [OF committed(2) assms(2,3)] show ?thesis
    by (simp add: committed(3) tx_view_def begin_tx_def)
qed simp

section \<open>Durable states\<close>

text \<open>
  The committed tables that calls of \<open>Work\<close> can lead to, from the empty one: any jobs, any
  arguments, any number of attempts, any answers of the database, and any behaviour of the
  steps within their contract. A crash of the process in the middle of an attempt leaves
  the table as it was, so it adds nothing.
\<close>

inductive durable :: "go_lib \<Rightarrow> 'w step list \<Rightarrow> ws_row list \<Rightarrow> bool"
  for U :: go_lib and steps :: "'w step list" where
  initial: "durable U steps []"
| attempt: "durable U steps db \<Longrightarrow> work_with U env steps db j args w = (out, db', w') \<Longrightarrow>
    durable U steps db'"

definition all_completed :: "nat \<Rightarrow> ws_row list \<Rightarrow> bool" where
  "all_completed n db \<longleftrightarrow>
     (\<forall>j r. find_row db j = Some r \<longrightarrow> recorded (Some r) (StatusCompleted, [], int n))"

lemma load_step_counter:
  assumes "fst (load_or_create U (NewPgxRepository U env) tx j wt cid d) = Inr s"
  shows "ws_CurrentStep s = (case tx_view tx j of Some r \<Rightarrow> row_current_step r | None \<Rightarrow> 0)"
proof (cases "repo_Get (NewPgxRepository U env) tx j")
  case (Pair g tx1)
  show ?thesis
  proof (cases g)
    case (Inr s')
    with assms Pair have "s' = s" by (simp add: load_or_create_def)
    with pgx.get_found [of U env tx j s' tx1] Pair Inr show ?thesis by (auto simp: state_of_row_def)
  next
    case (Inl e)
    let ?s = "zero_state\<lparr>ws_JobID := j, ws_WorkflowType := wt, ws_ClientID := cid,
        ws_Status := StatusPending, ws_Data := d\<rparr>"
    from Inl Pair assms obtain tx2 where c: "repo_Create (NewPgxRepository U env) tx1 ?s = (None, tx2, s)"
      by (auto simp: load_or_create_def split: if_splits option.splits prod.splits)
    from pgx.create_ok [OF c] pgx.get_view [OF Pair] show ?thesis by (auto simp: zero_state_def)
  qed
qed

lemma work_keeps_completed:
  assumes inv: "all_completed (length steps) db" and ok: "list_all step_ok steps"
    and work: "work_with U env steps db j args w = (out, db', w')"
  shows "all_completed (length steps) db'"
  using work
proof (cases rule: work_with_cases)
  case unchanged
  with inv show ?thesis by simp
next
  case (committed d tx)
  let ?load = "load_or_create U (NewPgxRepository U (we_pg env)) (begin_tx db) j ''onboard_org'' (oa_ClientID args) d"
  from Run_success_rows [OF committed(2) ok] obtain s0 where l: "fst ?load = Inr s0"
    and r: "recorded (tx_view tx j) (StatusCompleted, [],
      if nat (ws_CurrentStep s0) < length steps then int (length steps) else ws_CurrentStep s0)"
    by blast
  have "tx_view (begin_tx db) k = find_row db k" for k by (simp add: tx_view_def begin_tx_def)
  with load_step_counter [OF l] inv have "ws_CurrentStep s0 = 0 \<or> ws_CurrentStep s0 = int (length steps)"
    by (auto simp: all_completed_def split: option.splits)
  with r have j: "recorded (find_row db' j) (StatusCompleted, [], int (length steps))"
    by (auto simp: committed(3) tx_view_def split: if_splits)
  note other = work_with_other [OF work ok]
  show ?thesis
    unfolding all_completed_def
  proof (intro allI impI)
    fix k r assume "find_row db' k = Some r"
    with j other inv show "recorded (Some r) (StatusCompleted, [], int (length steps))"
      by (cases "k = j") (simp_all add: all_completed_def)
  qed
qed

section \<open>Failing attempts\<close>

text \<open>On a database that carries out its statements, a first attempt whose first step fails
  returns that step's error.\<close>

lemma first_step_fails:
  assumes env: "good_env env" and new: "tx_view tx j = None" and live: "\<not> tx_failed tx"
    and uuid: "pg_uuid env (Suc (tx_count tx)) \<notin> set (map row_id (tx_rows tx))"
    and cols: "pg_varchar 50 wt = Inr wt'" "pg_varchar 50 cid = Inr cid'"
    and d: "accepts env d"
    and st: "\<And>s w. step_Run st s w = (Returns (Some e), s, w)" and e: "err_text U e = Returns t"
      "pg_text t = Inr t"
  shows "\<exists>tx'. Runner_Run U (NewRunner (NewPgxRepository U env) (st # sts)) tx j wt cid d w =
    (Returns (Some e), tx', w)"
proof -
  let ?R = "NewPgxRepository U env"
  obtain s tx1 where l: "load_or_create U ?R tx j wt cid d = (Inr s, tx1)" and s: "ws_JobID s = j"
    "ws_CurrentStep s = 0" "ws_Data s = d" "\<not> tx_failed tx1" "tx_view tx1 j \<noteq> None"
    using good_create [OF env new live uuid cols d] by blast
  let ?s = "s\<lparr>ws_Status := StatusRunning, ws_Error := []\<rparr>"
  have sd: "accepts env (ws_Data ?s)" using s(3) d by simp
  obtain tx2 where u: "repo_UpdateStep ?R tx1 ?s = (None, tx2)" "\<not> tx_failed tx2" "tx_view tx2 j \<noteq> None"
    using good_UpdateStep [OF env sd, of tx1 U] s by (auto simp: int4_ok_def)
  let ?f = "s\<lparr>ws_Status := StatusFailed, ws_Error := t\<rparr>"
  have "accepts env (ws_Data ?f)" using s(3) d by simp
  then obtain tx3 where "repo_UpdateStep ?R tx2 ?f = (None, tx3)"
    using good_UpdateStep [OF env, of ?f tx2 U] s u e(2) by (auto simp: int4_ok_def)
  then have "run_steps U ?R 0 (st # sts) tx2 ?s w = (Inl (Returns (Some e)), tx3, w)"
    using s(2) st e(1) by simp
  with l u(1) show ?thesis by (simp add: Runner_Run_def NewRunner_def Let_def del: run_steps.simps)
qed

text \<open>Sequences of attempts in which those of job \<open>j\<close> fail: their outcome is an error or a panic,
  and it is not that of a commit which was applied nevertheless.\<close>

inductive failing_attempts :: "go_lib \<Rightarrow> 'w step list \<Rightarrow> int64 \<Rightarrow> ws_row list \<Rightarrow> ws_row list \<Rightarrow> bool"
  for U :: go_lib and steps :: "'w step list" and j :: int64 and db0 :: "ws_row list" where
  start: "failing_attempts U steps j db0 db0"
| failing: "failing_attempts U steps j db0 db \<Longrightarrow> work_with U env steps db j args w = (out, db', w') \<Longrightarrow>
    out \<noteq> Returns None \<Longrightarrow> (\<And>e. we_commit env \<noteq> Some (e, True)) \<Longrightarrow> failing_attempts U steps j db0 db'"
| other: "failing_attempts U steps j db0 db \<Longrightarrow> j \<noteq> i \<Longrightarrow>
    work_with U env steps db i args w = (out, db', w') \<Longrightarrow> failing_attempts U steps j db0 db'"

lemma failing_attempts_no_row:
  assumes "failing_attempts U steps j db0 db" "list_all step_ok steps" "find_row db0 j = None"
  shows "find_row db j = None"
  using assms(1)
proof induction
  case failing
  from work_with_failed [OF failing.hyps(2-4)] failing.IH show ?case by simp
next
  case other
  from work_with_other [OF other.hyps(3) assms(2) other.hyps(2)] other.IH show ?case by simp
qed (rule assms(3))

text \<open>River gives a job up when the error of its worker is or wraps a \<open>JobCancelError\<close>. An error that
  is neither of that kind nor permanent is plain; the errors of the database are supposed to be.\<close>

definition cancels :: "go_error \<Rightarrow> bool" where
  "cancels e \<longleftrightarrow> has_foreign ''*rivertype.JobCancelError'' e"

definition plain_error :: "go_error \<Rightarrow> bool" where
  "plain_error e \<longleftrightarrow> \<not> cancels e \<and> \<not> has_permanent e"

definition plain_db :: "work_env \<Rightarrow> bool" where
  "plain_db env \<longleftrightarrow>
     (\<forall>e. we_begin env = Some e \<longrightarrow> plain_error e) \<and>
     (\<forall>n e. pg_fault (we_pg env) n = Some e \<longrightarrow> plain_error e) \<and>
     (\<forall>t e. pg_jsonb (we_pg env) t = Inl e \<longrightarrow> plain_error e)"

lemma plain_error_simps [simp]:
  "plain_error (ErrNew t)" "plain_error (errorf_w U pre e) = plain_error e" "plain_error (pg_error m c)"
  by (simp_all add: plain_error_def cancels_def err_simps pg_error_def)

lemma plain_update_failed:
  "plain_error ue \<Longrightarrow> cancels (update_failed_error U ue e) = cancels e"
  "plain_error ue \<Longrightarrow> has_permanent (update_failed_error U ue e) = has_permanent e"
  by (simp_all add: plain_error_def cancels_def update_failed_error_def)

lemma marshal_raw_map_plain: "marshal_raw_map U m = Inl e \<Longrightarrow> plain_error e"
proof -
  have "marshal_raws U kvs = Inl e \<Longrightarrow> plain_error e" for kvs
    by (induction kvs) (auto simp: marshal_raw_def plain_error_def cancels_def split: if_splits sum.splits)
  then show "marshal_raw_map U m = Inl e \<Longrightarrow> plain_error e"
    by (auto simp: marshal_raw_map_def split: option.splits sum.splits)
qed

lemma pg_column_plain:
  "pg_text t = Inl e \<Longrightarrow> plain_error e" "pg_varchar n t = Inl e \<Longrightarrow> plain_error e"
  "pg_null pg_text x = Inl e \<Longrightarrow> plain_error e"
  by (auto simp: pg_text_def pg_varchar_def Let_def split: if_splits sum.splits)
    (cases x; auto simp: pg_text_def split: if_splits)

lemma not_permanent_end:
  "plain_error e \<Longrightarrow> has_permanent e0 \<Longrightarrow>
    \<not> has_permanent e \<and> \<not> cancels e \<and> e \<noteq> e0 \<and> (\<forall>ue. e \<noteq> update_failed_error U ue e0)"
  by (auto simp: plain_error_def update_failed_error_def)

text \<open>So are the errors of \<open>UpdateStep\<close>.\<close>

lemma refused_plain:
  assumes "plain_db env" and "refuses (NewPgxRepository U (we_pg env)) s e"
  shows "plain_error e"
proof -
  let ?E = "we_pg env"
  have body: "plain_error m" if "update_rows ?E j c st x t rows = Inl m" for j c st x t rows m
    using that assms(1)
    by (auto simp: update_rows_def plain_db_def split: sum.splits if_splits dest: pg_column_plain)
  have stmt: "plain_error m" if "sql_update ?E tx j c st x t = (Inl m, tx')" for tx j c st x t tx' m
    using that assms(1)
    by (auto simp: sql_update_def pg_stmt_def Let_def plain_db_def pg_aborted_def split: if_splits option.splits sum.splits dest: body)
      (simp add: plain_error_def cancels_def)
  from assms(2) obtain tx tx' where u: "PgxRepository_UpdateStep U ?E tx s = (Some e, tx')"
    by (auto simp: refuses_def NewPgxRepository_def)
  show ?thesis
  proof (cases "marshal_raw_map U (ws_Data s)")
    case (Inl m)
    with u marshal_raw_map_plain [OF Inl] show ?thesis by (auto simp: PgxRepository_UpdateStep_def)
  next
    case (Inr t)
    obtain q tx1 where q: "sql_update ?E tx (ws_JobID s) (ws_CurrentStep s) (ws_Status s)
      (null_if_empty (ws_Error s)) t = (q, tx1)" by fastforce
    show ?thesis
    proof (cases q)
      case (Inl m)
      with u Inr q stmt [OF q [unfolded Inl]] show ?thesis by (simp add: PgxRepository_UpdateStep_def)
    next
      case (Inr n)
      with u \<open>marshal_raw_map U (ws_Data s) = Inr t\<close> q have "\<exists>m. e = ErrNew m"
        by (auto simp: PgxRepository_UpdateStep_def split: if_splits)
      then show ?thesis by auto
    qed
  qed
qed

text \<open>The ends of a run in which step \<open>k\<close> fails with \<open>e\<close>, or which does not get there.\<close>

lemma run_spec_failing:
  assumes "exec_steps c sts k s w = Some (s1, w1)" "k < length sts"
    and "step_Run (sts ! k) s1 w1 = (Returns (Some e), s2, w2)" and "run_spec F U c sts s w out w' fin"
  shows "out = Returns (Some e) \<or> (\<exists>x ue. F x ue \<and> out = Returns (Some (update_failed_error U ue e))) \<or>
    (\<exists>m. err_text U e = Panics m \<and> out = Panics m) \<or>
    (\<exists>pre x ue. F x ue \<and> out = Returns (Some (errorf_w U pre ue)))"
proof -
  note only = failing_step_unique [OF assms(1,3), simplified]
  from assms(4) show ?thesis
  proof cases
    case (completed a)
    with only(1) assms(2) show ?thesis by fastforce
  next
    case (completion_not_recorded a)
    with only(1) assms(2) show ?thesis by fastforce
  next
    case (step_failed n a b e' a' t)
    with only(2) [OF step_failed(3,5)] show ?thesis by simp
  next
    case (step_panicked n a b m a')
    with only(2) [OF step_panicked(3,5)] show ?thesis by simp
  next
    case (error_panicked n a b e' a' m)
    with only(2) [OF error_panicked(3,5)] show ?thesis by simp
  next
    case (failure_not_recorded n a b e' a' t ue)
    with only(2) [OF failure_not_recorded(3,5)] show ?thesis by auto
  next
    case (success_not_recorded n a ue)
    then show ?thesis by blast
  qed
qed

lemma onboard_type_ok: "pg_varchar 50 ''onboard_org'' = Inr ''onboard_org''"
  by (rule sample_cols)

lemma work_completes_rows:
  assumes env: "we_begin env = None" "good_env (we_pg env)" "we_commit env = None"
    and new: "find_row db j = None" and uuid: "pg_uuid (we_pg env) 1 \<notin> set (map row_id db)"
    and cid: "pg_varchar 50 (oa_ClientID args) = Inr cid"
    and data: "\<And>d. argsToData U args = Inr d \<Longrightarrow> accepts (we_pg env) d"
  shows "\<exists>db'. work_with U env onboard_steps db j args w = (Returns None, db', w) \<and>
    recorded (find_row db' j) (StatusCompleted, [], 7)"
proof -
  let ?R = "NewPgxRepository U (we_pg env)"
  obtain d where d: "argsToData U args = Inr d" by (simp add: argsToData_eq)
  have tx: "tx_view (begin_tx db) j = None" "\<not> tx_failed (begin_tx db)"
    "pg_uuid (we_pg env) (Suc (tx_count (begin_tx db))) \<notin> set (map row_id (tx_rows (begin_tx db)))"
    using new uuid by (simp_all add: tx_view_def begin_tx_def)
  obtain tx' w' where run: "Runner_Run U (NewRunner ?R onboard_steps) (begin_tx db) j ''onboard_org''
      (oa_ClientID args) d w = (Returns None, tx', w')"
    using good_run [OF env(2) tx onboard_type_ok cid data [OF d] onboard_steps_total(1), of U w]
    by (auto simp: onboard_steps_def)
  obtain s0 tx1 where l: "load_or_create U ?R (begin_tx db) j ''onboard_org'' (oa_ClientID args) d = (Inr s0, tx1)"
    "ws_CurrentStep s0 = 0"
    using good_create [OF env(2) tx onboard_type_ok cid data [OF d]] by blast
  from Run_success_rows [OF run onboard_steps_total(2)] l
  have w: "w' = w" and r: "recorded (tx_view tx' j) (StatusCompleted, [], 7)"
    by (auto simp: onboard_steps_def stub_defs eval_nat_numeral)
  obtain e db' where c: "commit_tx (we_commit env) tx' db = (e, db')" by fastforce
  have "\<not> tx_failed tx'" using Run_success_not_failed [OF run] .
  with c env(3) have "e = None" "db' = tx_rows tx'" by (auto simp: commit_tx_def)
  with r show ?thesis
    using env(1) d run w c
    by (auto simp: work_with_def tx_view_def)
qed

fun utf8_value :: "go_value \<Rightarrow> bool" where
  "utf8_value (GStr t) = utf8_valid t"
| "utf8_value _ = True"

lemma argsToData_string:
  assumes "argsToData U a = Inr (Some m)" and "ws_Data s = Some m" and "(k, GStr t) \<in> set (onboard_fields a)"
  shows "GetString U s k = (to_valid t, True)"
proof -
  let ?kvs = "map (\<lambda>(k, v). (k, text_of v)) (onboard_fields a)"
  have "distinct (map fst ?kvs)" by (simp add: onboard_fields_def)
  then have "gm_get (gm_of_list ?kvs) k = Some (text_of (GStr t))"
    unfolding gm_get_of_list using assms(3) by (intro map_of_is_SomeI) (force simp: rev_map [symmetric])+
  moreover have "json_parse (text_of (GStr t)) = Some (JStr (to_valid t))"
    using marshal_parse [of "GStr t"] by (simp add: text_of_def)
  ultimately show ?thesis using assms(1,2) by (simp add: argsToData_eq GetString_parse data_get_def)
qed

section \<open>Properties\<close>

text \<open>The initial data of a workflow is the job's arguments. \<open>argsToData\<close> never fails, and
  whatever state starts from its result reads, under each of the fourteen struct tags, the
  argument of that field (a string with its ill-formed bytes replaced), while every other
  key is absent; the map is one of scalars, as the repository's round trip wants it.\<close>

theorem argsToData_reads_back:
  "\<exists>m. argsToData U a = Inr (Some m) \<and> scalar_map m \<and>
    (\<forall>s. ws_Data s = Some m \<longrightarrow>
      (\<forall>k t. (k, GStr t) \<in> set (onboard_fields a) \<longrightarrow> GetString U s k = (to_valid t, True)) \<and>
      (\<forall>k i. (k, GInt i) \<in> set (onboard_fields a) \<longrightarrow> GetInt U s k = (i, True)) \<and>
      (\<forall>k. k \<notin> fst ` set (onboard_fields a) \<longrightarrow> GetString U s k = ([], False) \<and> GetInt U s k = (0, False)))"
proof -
  let ?m = "gm_of_list (map (\<lambda>(k, v). (k, text_of v)) (onboard_fields a))"
  have dist: "distinct (map fst (map (\<lambda>(k, v). (k, text_of v)) (onboard_fields a)))"
    by (simp add: onboard_fields_def)
  have get: "gm_get ?m k = map_of (map (\<lambda>(k, v). (k, text_of v)) (onboard_fields a)) k" for k
    unfolding gm_get_of_list by (subst map_of_inject_set [THEN iffD2]) (use dist in \<open>simp_all add: rev_map [symmetric]\<close>)
  have some: "gm_get ?m k = Some (text_of v)" if "(k, v) \<in> set (onboard_fields a)" for k v
    unfolding get using dist that by (intro map_of_is_SomeI) force+
  have none: "gm_get ?m k = None" if "k \<notin> fst ` set (onboard_fields a)" for k
    unfolding get using that by (auto simp: map_of_eq_None_iff image_image case_prod_beta)
  have str: "json_parse (text_of (GStr t)) = Some (JStr (to_valid t))" for t
    using marshal_parse [of "GStr t"] by (simp add: text_of_def)
  have int: "json_parse (text_of (GInt i)) = Some (JNum (itoa (sint i)))" for i
    using marshal_parse [of "GInt i"] by (simp add: text_of_def)
  show ?thesis
    by (rule exI [of _ ?m])
      (auto simp: argsToData_eq scalar_map_of_list [OF onboard_fields_ok] GetString_parse GetInt_parse
        data_get_def some none str int parse_int64_itoa_sint)
qed

text \<open>The arguments survive the queue: decoding the JSON form of a job's arguments into the
  struct gives the arguments back, when their texts are UTF-8.\<close>

theorem job_args_round_trip:
  assumes "list_all (\<lambda>(k, v). utf8_value v) (onboard_fields a)"
  shows "\<exists>raw. marshal_struct (args_fields (OnboardOrg a)) = Inr raw \<and>
    json_unmarshal U ty (onboard_args_decoder U) raw zero_onboard_args = (None, a)"
proof -
  have ok: "list_all (\<lambda>(k, v). representable v) (onboard_fields a)"
    using onboard_fields_ok [of a] by (auto simp: list_all_iff)
  from assms have vs: "json_of (GStr (f a)) = JStr (f a)"
    if "f \<in> {oa_ClientID, oa_OrganizationName, oa_ClientUsername, oa_ClientFirstName, oa_ClientLastName,
      oa_ClientEmail, oa_Country, oa_State, oa_PostalCode, oa_Bandwidth, oa_ProductID}" for f
    using that by (auto simp: onboard_fields_def to_valid_id)
  have "json_unmarshal U ty (onboard_args_decoder U)
      (enc_object (member_texts (member_triples (onboard_fields a)))) zero_onboard_args = (None, a)"
    unfolding json_unmarshal_def json_parse_struct [OF onboard_fields_ok]
    by (simp add: onboard_args_decoder_def onboard_fields_def find_field_def on_field_def zero_onboard_args_def
        dec_int_itoa vs del: dec_int.simps(1) json_of.simps(1))
  with marshal_struct_scalars(1) [OF ok] show ?thesis by simp
qed

definition sample_args :: OnboardOrgArgs where
  "sample_args = zero_onboard_args\<lparr>oa_ClientID := ''acme'', oa_AccountID := 12, oa_Bandwidth := ''1G''\<rparr>"

lemma argsToData_reads_back_witness:
  "\<exists>m. argsToData ascii_tables sample_args = Inr (Some m) \<and>
    GetString ascii_tables (zero_state\<lparr>ws_Data := Some m\<rparr>) ''crm_id'' = (''acme'', True) \<and>
    GetInt ascii_tables (zero_state\<lparr>ws_Data := Some m\<rparr>) ''account_id'' = (12, True)"
proof -
  obtain m where m: "argsToData ascii_tables sample_args = Inr (Some m)"
    "\<And>s k t. ws_Data s = Some m \<Longrightarrow> (k, GStr t) \<in> set (onboard_fields sample_args) \<Longrightarrow>
       GetString ascii_tables s k = (to_valid t, True)"
    "\<And>s k i. ws_Data s = Some m \<Longrightarrow> (k, GInt i) \<in> set (onboard_fields sample_args) \<Longrightarrow>
       GetInt ascii_tables s k = (i, True)"
    using argsToData_reads_back [of ascii_tables sample_args] by blast
  have "(''crm_id'', GStr ''acme'') \<in> set (onboard_fields sample_args)"
    "(''account_id'', GInt 12) \<in> set (onboard_fields sample_args)"
    by (simp_all add: onboard_fields_def sample_args_def)
  moreover have "to_valid ''acme'' = ''acme''" by (rule to_valid_id) (simp add: utf8_valid_ascii)
  ultimately show ?thesis
    using m(1) m(2) [of "zero_state\<lparr>ws_Data := Some m\<rparr>" "''crm_id''" "''acme''"]
      m(3) [of "zero_state\<lparr>ws_Data := Some m\<rparr>" "''account_id''" 12] by simp
qed

lemma job_args_round_trip_witness:
  "\<exists>raw. marshal_struct (args_fields (OnboardOrg sample_args)) = Inr raw \<and>
    json_unmarshal ascii_tables ''args'' (onboard_args_decoder ascii_tables) raw zero_onboard_args = (None, sample_args)"
  by (rule job_args_round_trip)
    (simp add: onboard_fields_def sample_args_def zero_onboard_args_def utf8_valid_ascii)

text \<open>C8: only completed workflows are durable. In every table that attempts can lead to, each
  row is completed, without an error, with the counter beyond the last step: because the
  status, the error and the progress of a failing attempt are written in the transaction
  that its deferred \<open>Rollback\<close> undoes, the states pending, running and failed and the
  intermediate counters are never committed.\<close>

theorem only_completed_rows_are_durable:
  assumes "durable U steps db" and "list_all step_ok steps" and "find_row db j = Some r"
  shows "row_status r = StatusCompleted \<and> row_error r \<in> {None, Some []} \<and>
    row_current_step r = int (length steps)"
proof -
  from assms(1) have "all_completed (length steps) db"
  proof induction
    case attempt
    show ?case by (rule work_keeps_completed [OF attempt.IH assms(2) attempt.hyps(2)])
  qed (simp add: all_completed_def)
  with assms(3) have "recorded (Some r) (StatusCompleted, [], int (length steps))"
    unfolding all_completed_def by blast
  then show ?thesis by (cases "row_error r") (simp_all add: empty_if_null_def)
qed

text \<open>C18: an attempt is never resumed. Take a job without a row, and any sequence of attempts in which
  those of this job end in an error or a panic, after however many successful steps, none by
  a commit that was applied although it failed; attempts of other jobs may be in between
  and end in any way. Then the job has still no row, and the next attempt that gets as far as
  loading or creating it starts from step 0.\<close>

theorem failed_attempt_restarts_from_zero:
  assumes "failing_attempts U steps j db db'" and "list_all step_ok steps" and "find_row db j = None"
  shows "find_row db' j = None \<and>
    (\<forall>env wt cid d s. fst (load_or_create U (NewPgxRepository U env) (begin_tx db') j wt cid d) = Inr s \<longrightarrow>
       ws_CurrentStep s = 0)"
proof -
  have "find_row db' j = None" by (rule failing_attempts_no_row [OF assms])
  then show ?thesis by (auto simp: tx_view_def begin_tx_def dest!: load_step_counter)
qed

text \<open>Onboarding with the steps of this version completes. For a new job, on a database that
  carries out its statements, takes the arguments as \<open>JSONB\<close> and commits, with a client id that
  fits its column, \<open>Work\<close> returns nil, the outside world is untouched (the steps are stubs) and
  the row is completed at step 7.\<close>

theorem Work_completes:
  assumes env: "we_begin env = None" "good_env (we_pg env)" "we_commit env = None"
    and new: "find_row db j = None" and uuid: "pg_uuid (we_pg env) 1 \<notin> set (map row_id db)"
    and cid: "pg_varchar 50 (oa_ClientID args) = Inr cid"
    and data: "\<And>d. argsToData U args = Inr d \<Longrightarrow> accepts (we_pg env) d"
  shows "\<exists>db'. OnboardOrgWorker_Work U env db j args w = (Returns None, db', w) \<and>
    recorded (find_row db' j) (StatusCompleted, [], 7)"
  unfolding OnboardOrgWorker_Work_def by (rule work_completes_rows [OF assms])

text \<open>C19: a permanent error is retried like any other. Take any attempt, first or resumed, and any step
  it comes to: the row was loaded or created, the steps before succeed, and this one returns a
  permanent error. Whatever the database does then or did before, \<open>Work\<close> commits nothing and
  does not return nil, and a panic is one of the error's own text. An error that it returns
  is permanent exactly if it is the step's error, alone or under the runner's ``update failed
  state''; and it never cancels the job unless the step's error itself holds River's
  \<open>JobCancelError\<close>, which \<open>PermanentError\<close> does not add. So River retries the job.
  The errors of the database are supposed to be neither permanent nor cancelling.\<close>

theorem permanent_error_is_retried:
  assumes work: "work_with U env steps db j args w = (out, db', w')"
    and ok: "list_all step_ok steps" and db: "plain_db env" and data: "argsToData U args = Inr d"
    and load: "fst (load_or_create U (NewPgxRepository U (we_pg env)) (begin_tx db) j ''onboard_org''
      (oa_ClientID args) d) = Inr s0"
    and run: "exec_steps (nat (ws_CurrentStep s0)) (drop (nat (ws_CurrentStep s0)) steps) k
      (s0\<lparr>ws_Status := StatusRunning, ws_Error := []\<rparr>) w = Some (s1, w1)"
    and k: "nat (ws_CurrentStep s0) + k < length steps"
    and step: "step_Run (steps ! (nat (ws_CurrentStep s0) + k)) s1 w1 = (Returns (Some e0), s2, w2)"
    and perm: "IsPermanent (Some e0)"
  shows "db' = db \<and> out \<noteq> Returns None \<and> (\<forall>m. out = Panics m \<longrightarrow> err_text U e0 = Panics m) \<and>
    (\<forall>e. out = Returns (Some e) \<longrightarrow>
      (IsPermanent (Some e) \<longleftrightarrow> e = e0 \<or> (\<exists>ue. e = update_failed_error U ue e0)) \<and>
      (cancels e \<longrightarrow> cancels e0))"
proof (cases "we_begin env")
  case (Some b)
  then have "out = Returns (Some (errorf_w U ''begin tx: '' b))" "db' = db" "plain_error (errorf_w U ''begin tx: '' b)"
    using work db by (auto simp: work_with_def plain_db_def)
  then show ?thesis using not_permanent_end [of _ e0 U] perm by (simp add: IsPermanent_def)
next
  case None
  let ?R = "NewPgxRepository U (we_pg env)" and ?c = "nat (ws_CurrentStep s0)"
  obtain out1 tx w3 where r: "Runner_Run U (NewRunner ?R steps) (begin_tx db) j ''onboard_org''
      (oa_ClientID args) d w = (out1, tx, w3)" by (metis prod_cases3)
  have nth: "drop ?c steps ! k = steps ! (?c + k)" "k < length (drop ?c steps)" using k by simp_all
  have ends: "out1 = Returns (Some e0) \<or> (\<exists>ue. plain_error ue \<and> out1 = Returns (Some (update_failed_error U ue e0))) \<or>
      (\<exists>m. err_text U e0 = Panics m \<and> out1 = Panics m) \<or> (\<exists>e. plain_error e \<and> out1 = Returns (Some e))"
    using pgx.Run_spec [OF r ok]
  proof (elim disjE exE conjE)
    assume "setup_failed U ?R (begin_tx db) j ''onboard_org'' (oa_ClientID args) d out1"
    then show ?thesis
    proof cases
      case (running s3 tx1 e tx2)
      then have "refuses ?R (s3\<lparr>ws_Status := StatusRunning, ws_Error := []\<rparr>) e" by (auto simp: refuses_def)
      with running(1) refused_plain [OF db this] show ?thesis by auto
    qed (use load in \<open>auto simp: load_or_create_def new_state_def Let_def\<close>)
  next
    fix s3 c fin
    assume "fst (load_or_create U ?R (begin_tx db) j ''onboard_org'' (oa_ClientID args) d) = Inr s3"
      "c = nat (ws_CurrentStep s3)"
      and "run_spec (refuses ?R) U c (drop c steps) (s3\<lparr>ws_Status := StatusRunning, ws_Error := []\<rparr>) w out1 w3 fin"
    with load have "run_spec (refuses ?R) U ?c (drop ?c steps)
        (s0\<lparr>ws_Status := StatusRunning, ws_Error := []\<rparr>) w out1 w3 fin" by simp
    from run_spec_failing [OF run nth(2) _ this, unfolded nth(1), OF step] show ?thesis
      using refused_plain [OF db] by fastforce
  qed
  then have "out1 \<noteq> Returns None" by auto
  then have same: "out = out1" "db' = db"
    using work None data r by (auto simp: work_with_def split: go_result.splits option.splits)
  from ends show ?thesis
    unfolding same using perm not_permanent_end [of _ e0 U] plain_update_failed [of _ U e0]
    by (auto simp: IsPermanent_def)
qed

text \<open>The insertion of the row fails, so no step is reached.\<close>

lemma long_client_id_fails:
  assumes cid: "pg_varchar 50 (oa_ClientID args) = Inl e" and new: "find_row db j = None"
  shows "\<exists>e'. work_with U env steps db j args w = (Returns (Some e'), db, w)"
proof (cases "we_begin env")
  case None
  let ?R = "NewPgxRepository U (we_pg env)"
  obtain d where d: "argsToData U args = Inr d" by (simp add: argsToData_eq)
  obtain l tx1 where l: "load_or_create U ?R (begin_tx db) j ''onboard_org'' (oa_ClientID args) d = (l, tx1)"
    by fastforce
  have "\<exists>e'. l = Inl e'"
  proof (rule ccontr)
    assume "\<nexists>e'. l = Inl e'"
    then obtain s where s: "l = Inr s" by (cases l) auto
    obtain g tx2 where g: "repo_Get ?R (begin_tx db) j = (g, tx2)" by fastforce
    have "\<not> (\<exists>s'. g = Inr s')"
      using pgx.get_found [of U "we_pg env" "begin_tx db" j _ tx2] g new by (auto simp: tx_view_def begin_tx_def)
    then obtain s' where "repo_Create ?R tx2 (zero_state\<lparr>ws_JobID := j, ws_WorkflowType := ''onboard_org'',
        ws_ClientID := oa_ClientID args, ws_Status := StatusPending, ws_Data := d\<rparr>) = (None, tx1, s')"
      using l s g by (cases g) (auto simp: load_or_create_def split: if_splits option.splits prod.splits)
    then obtain t r where "sql_insert (we_pg env) tx2 j ''onboard_org'' (oa_ClientID args) None StatusPending t = (Inr r, tx1)"
      by (auto simp: NewPgxRepository_def PgxRepository_Create_def zero_state_def null_if_empty_def
          split: sum.splits prod.splits)
    from sql_insert_ok(2) [OF this] cid show False by (simp add: insert_row_def split: sum.splits)
  qed
  then show ?thesis using None d l by (auto simp: work_with_def Runner_Run_def NewRunner_def)
qed (simp add: work_with_def)

text \<open>A client id that does not fit its column (\<open>VARCHAR(50)\<close>) can never be onboarded: for a job
  without a row every attempt, whatever the database answers, ends in an error before a
  step runs and commits nothing.\<close>

theorem long_client_id_never_starts:
  assumes cid: "pg_varchar 50 (oa_ClientID args) = Inl e" and new: "find_row db j = None"
  shows "\<exists>e'. work_with U env steps db j args w = (Returns (Some e'), db, w)"
  by (rule long_client_id_fails [OF assms])

section \<open>Witnesses\<close>

definition good_work_env :: work_env where
  "good_work_env = \<lparr>we_begin = None, we_pg = plain_env, we_commit = None\<rparr>"

definition permanent_step :: "unit step" where
  "permanent_step = \<lparr>step_Name = ''perm'',
     step_Run = (\<lambda>s w. (Returns (Some (ErrPermanent (Some (ErrNew ''bad'')))), s, w))\<rparr>"

lemma good_work_env_simps [simp]: "we_begin good_work_env = None" "we_pg good_work_env = plain_env"
  "we_commit good_work_env = None"
  by (simp_all add: good_work_env_def)

lemma sample_args_cid: "pg_varchar 50 (oa_ClientID sample_args) = Inr ''acme''"
  using sample_cols(2) by (simp add: sample_args_def zero_onboard_args_def)

lemma sample_data: "argsToData ascii_tables a = Inr d \<Longrightarrow> accepts (we_pg good_work_env) d"
  using plain_accepts [OF argsToData_scalar] by simp

lemma Work_completes_witness:
  "\<exists>db'. OnboardOrgWorker_Work ascii_tables good_work_env [] 7 sample_args () = (Returns None, db', ()) \<and>
    recorded (find_row db' 7) (StatusCompleted, [], 7)"
  by (rule Work_completes [OF _ _ _ _ _ sample_args_cid sample_data]) (simp_all add: plain_good)

lemma failed_text: "pg_text ''permanent: bad'' = Inr ''permanent: bad''"
  by (simp add: pg_text_def utf8_valid_ascii chr_eval)

lemma permanent_step_ok: "list_all step_ok [permanent_step]"
  by (simp add: step_ok_def permanent_step_def)

lemma sample_load:
  obtains d s0 tx1 where "argsToData ascii_tables sample_args = Inr d" "ws_CurrentStep s0 = 0"
    "load_or_create ascii_tables (NewPgxRepository ascii_tables plain_env) (begin_tx []) 7 ''onboard_org''
      (oa_ClientID sample_args) d = (Inr s0, tx1)"
proof -
  obtain d where d: "argsToData ascii_tables sample_args = Inr d" by (simp add: argsToData_eq)
  from good_create [OF plain_good demo_fresh onboard_type_ok sample_args_cid sample_data [OF d, simplified]] d that
  show thesis by blast
qed

text \<open>The second step fails.\<close>

lemma permanent_error_is_retried_witness:
  "\<exists>out. work_with ascii_tables good_work_env [stub_step ''a'', permanent_step] [] 7 sample_args () = (out, [], ()) \<and>
    (\<exists>e. out = Returns (Some e) \<and> \<not> cancels e)"
proof -
  let ?e = "ErrPermanent (Some (ErrNew ''bad''))"
  obtain out db' u where w: "work_with ascii_tables good_work_env [stub_step ''a'', permanent_step] [] 7 sample_args () =
      (out, db', u)" by (metis prod_cases3)
  obtain d s0 tx1 where l: "argsToData ascii_tables sample_args = Inr d" "ws_CurrentStep s0 = 0"
    "load_or_create ascii_tables (NewPgxRepository ascii_tables plain_env) (begin_tx []) 7 ''onboard_org''
      (oa_ClientID sample_args) d = (Inr s0, tx1)" by (rule sample_load)
  have "plain_db good_work_env" by (simp add: plain_db_def plain_env_def)
  note db = this
  have ok: "list_all step_ok [stub_step ''a'', permanent_step]"
    using permanent_step_ok by (simp add: stub_step_total)
  note retried = permanent_error_is_retried [OF w ok db l(1), of s0 1 _ "()" ?e]
  have "db' = [] \<and> out \<noteq> Returns None \<and> (\<forall>m. out = Panics m \<longrightarrow> err_text ascii_tables ?e = Panics m) \<and>
    (\<forall>e. out = Returns (Some e) \<longrightarrow> (cancels e \<longrightarrow> cancels ?e))"
    using retried l(2,3) by (simp add: stub_step_def permanent_step_def IsPermanent_def)
  moreover have "\<not> cancels ?e" "err_text ascii_tables ?e \<noteq> Panics m" for m by (simp_all add: cancels_def)
  ultimately show ?thesis using w by (cases out) (auto simp: split: option.splits intro: option.exhaust)
qed

lemma only_completed_rows_are_durable_witness:
  "\<exists>db r. durable ascii_tables (onboard_steps :: unit step list) db \<and> find_row db 7 = Some r \<and>
    row_status r = ''completed'' \<and> row_current_step r = 7"
proof -
  obtain db' where w: "work_with ascii_tables good_work_env (onboard_steps :: unit step list) [] 7 sample_args () = (Returns None, db', ())"
    "recorded (find_row db' 7) (StatusCompleted, [], 7)"
    using work_completes_rows [OF _ _ _ _ _ sample_args_cid, of good_work_env "[]" 7 ascii_tables "()"] plain_good sample_data
    by auto
  then obtain r where r: "find_row db' 7 = Some r" by (cases "find_row db' 7") auto
  have d: "durable ascii_tables (onboard_steps :: unit step list) db'"
    by (rule durable.attempt [OF durable.initial w(1)])
  from only_completed_rows_are_durable [OF d onboard_steps_total(2) r] d r show ?thesis
    by (auto simp: onboard_steps_def status_defs)
qed

lemma failed_attempt_restarts_from_zero_witness:
  "\<exists>db. failing_attempts ascii_tables [permanent_step] 7 [] db \<and> find_row db 7 = None \<and>
    (\<exists>out u. work_with ascii_tables good_work_env [permanent_step] [] 7 sample_args () = (out, db, u) \<and> out \<noteq> Returns None)"
proof -
  let ?w = "work_with ascii_tables good_work_env [permanent_step] [] 7 sample_args ()"
  obtain out db' w' where w: "?w = (out, db', w')" by (metis prod_cases3)
  have st: "step_Run permanent_step s w = (Returns (Some (ErrPermanent (Some (ErrNew ''bad'')))), s, w)" for s w
    by (simp add: permanent_step_def)
  obtain d where d: "argsToData ascii_tables sample_args = Inr d" by (simp add: argsToData_eq)
  have "\<exists>tx'. Runner_Run ascii_tables (NewRunner (NewPgxRepository ascii_tables plain_env) [permanent_step])
      (begin_tx []) 7 ''onboard_org'' (oa_ClientID sample_args) d () =
      (Returns (Some (ErrPermanent (Some (ErrNew ''bad'')))), tx', ())"
    by (rule first_step_fails [OF plain_good demo_fresh onboard_type_ok sample_args_cid
          sample_data [OF d, simplified] st _ failed_text]) simp
  with d w have out: "out \<noteq> Returns None" "db' = []" by (auto simp: work_with_def)
  have "failing_attempts ascii_tables [permanent_step] 7 [] db'"
    by (rule failing_attempts.failing [OF failing_attempts.start w out(1)]) simp
  from failed_attempt_restarts_from_zero [OF this permanent_step_ok find_row_Nil] this w out show ?thesis by blast
qed

lemma long_client_id_never_starts_witness:
  "\<exists>e'. work_with ascii_tables good_work_env (onboard_steps :: unit step list) [] 7
      (sample_args\<lparr>oa_ClientID := replicate 51 CHR ''x''\<rparr>) () = (Returns (Some e'), [], ())"
proof -
  have a: "ascii (replicate 51 CHR ''x'')" "chr 0 \<notin> set (replicate 51 CHR ''x'')"
    by (simp_all add: ascii_def chr_eval)
  then obtain e where "pg_varchar 50 (replicate 51 CHR ''x'') = Inl e"
    by (simp add: pg_varchar_def pg_text_def utf8_valid_ascii rune_list_ascii Let_def)
  then show ?thesis by (intro long_client_id_never_starts) simp_all
qed

end
