(* ===== verification/AppConfig.thy ===== *)
theory AppConfig
  imports GoStrings
begin

text \<open>
  \<open>internal/config/config.go\<close>: the configuration and its reading from the environment. The
  build variables set by the linker are arguments of \<open>Load\<close>.
\<close>

record HookSecrets =
  hk_DeboardOrg :: string
  hk_OnboardContact :: string
  hk_DeboardContact :: string
  hk_UpdatePW :: string
  hk_UpdateBandwidth :: string

record AppConfig =
  cf_Port :: string
  cf_Env :: string
  cf_APIKey :: string
  cf_Hooks :: HookSecrets
  cf_DebugPort :: string
  cf_SwaggerPort :: string
  cf_Version :: string
  cf_Commit :: string
  cf_BuildTime :: string
  cf_DatabaseURL :: string
  cf_VCDBaseURL :: string
  cf_VCDVersion :: string
  cf_VCDUser :: string
  cf_VCDPassword :: string
  cf_VCDOrg :: string

text \<open>\<open>Version\<close>, \<open>Commit\<close> and \<open>BuildTime\<close>; \<open>dev_build\<close> has their values in the source.\<close>

record build_info =
  bi_Version :: string
  bi_Commit :: string
  bi_BuildTime :: string

definition dev_build :: build_info where
  "dev_build = \<lparr>bi_Version = ''dev'', bi_Commit = ''none'', bi_BuildTime = ''unknown''\<rparr>"

definition envOr :: "(string \<Rightarrow> string) \<Rightarrow> string \<Rightarrow> string \<Rightarrow> string" where
  "envOr getenv key fallback = (let v = getenv key in if v \<noteq> [] then v else fallback)"

definition Load :: "build_info \<Rightarrow> (string \<Rightarrow> string) \<Rightarrow> AppConfig" where
  "Load build getenv =
     \<lparr>cf_Port = envOr getenv ''PORT'' ''8080'',
      cf_Env = envOr getenv ''ENV'' ''localhost'',
      cf_APIKey = getenv ''API_KEY'',
      cf_Hooks =
        \<lparr>hk_DeboardOrg = getenv ''HOOK_SECRET_DEBOARD_ORG'',
         hk_OnboardContact = getenv ''HOOK_SECRET_ONBOARD_CONTACT'',
         hk_DeboardContact = getenv ''HOOK_SECRET_DEBOARD_CONTACT'',
         hk_UpdatePW = getenv ''HOOK_SECRET_UPDATE_PW'',
         hk_UpdateBandwidth = getenv ''HOOK_SECRET_UPDATE_BANDWIDTH''\<rparr>,
      cf_DebugPort = envOr getenv ''DEBUG_PORT'' ''6061'',
      cf_SwaggerPort = envOr getenv ''SWAGGER_PORT'' ''8081'',
      cf_Version = bi_Version build,
      cf_Commit = bi_Commit build,
      cf_BuildTime = bi_BuildTime build,
      cf_DatabaseURL = getenv ''DATABASE_URL'',
      cf_VCDBaseURL = getenv ''VCD_URL'',
      cf_VCDVersion = envOr getenv ''VCD_VERSION'' ''38.0'',
      cf_VCDUser = getenv ''VCD_USER'',
      cf_VCDPassword = getenv ''VCD_PASSWORD'',
      cf_VCDOrg = envOr getenv ''VCD_ORG'' ''System''\<rparr>"

lemma envOr_nonempty: "fallback \<noteq> [] \<Longrightarrow> envOr getenv key fallback \<noteq> []"
  by (simp add: envOr_def Let_def)

lemma Load_ports: "cf_Port (Load b g) \<noteq> []" "cf_DebugPort (Load b g) \<noteq> []" "cf_Env (Load b g) \<noteq> []"
  by (simp_all add: Load_def envOr_nonempty)

end
