(* ===== verification/HttpTypes.thy ===== *)
theory HttpTypes
  imports JsonTexts
begin

text \<open>
  \<open>internal/httpapi/types.go\<close> and \<open>encode.go\<close>: the request types with their validation and
  their JSON decoding, the response types with their JSON encoding, and \<open>decodeValid\<close>. A
  nil map of problems is \<open>None\<close>. The \<open>Validator\<close> interface is the locale \<open>validated\<close>.
\<close>

section \<open>Requests\<close>

record EchoRequest =
  eq_Message :: string

record OnboardOrgRequest =
  oq_OrganizationName :: string
  oq_ClientUsername :: string
  oq_ClientFirstName :: string
  oq_ClientLastName :: string
  oq_ClientEmail :: string
  oq_ClientID :: string
  oq_AccountID :: int64
  oq_Country :: string
  oq_State :: string
  oq_PostalCode :: string
  oq_MaxZertoStorage :: int64
  oq_MaxZertoVMs :: int64
  oq_Bandwidth :: string
  oq_ProductID :: string

record DeboardOrgRequest =
  dq_ClientID :: string
  dq_OrganizationName :: string

record OnboardContactRequest =
  ocq_ClientID :: string
  ocq_ContactID :: string
  ocq_FirstName :: string
  ocq_LastName :: string
  ocq_Email :: string

record DeboardContactRequest =
  dcq_ClientID :: string
  dcq_ContactID :: string

record UpdatePwRequest =
  pq_ClientID :: string
  pq_ContactID :: string
  pq_NewPassword :: string

record UpdateBandwidthRequest =
  bq_ClientID :: string
  bq_OrderID :: string
  bq_Bandwidth :: string

definition zero_EchoRequest :: EchoRequest where
  "zero_EchoRequest = \<lparr>eq_Message = []\<rparr>"

definition zero_OnboardOrgRequest :: OnboardOrgRequest where
  "zero_OnboardOrgRequest = \<lparr>oq_OrganizationName = [], oq_ClientUsername = [], oq_ClientFirstName = [],
     oq_ClientLastName = [], oq_ClientEmail = [], oq_ClientID = [], oq_AccountID = 0, oq_Country = [],
     oq_State = [], oq_PostalCode = [], oq_MaxZertoStorage = 0, oq_MaxZertoVMs = 0, oq_Bandwidth = [],
     oq_ProductID = []\<rparr>"

section \<open>Validation\<close>

definition Valid_Echo :: "EchoRequest \<Rightarrow> string gomap option" where
  "Valid_Echo r =
     (if eq_Message r = [] then Some [(''message'', ''required'')]
      else if 1000 < length (eq_Message r) then Some [(''message'', ''max 1000 characters'')]
      else None)"

text \<open>One check of a validation: enters a problem under a key when it applies.\<close>

definition problem_if :: "bool \<Rightarrow> string \<Rightarrow> string \<Rightarrow> string gomap \<Rightarrow> string gomap" where
  "problem_if bad key msg problems = (if bad then gm_set key msg problems else problems)"

definition problems_or_nil :: "string gomap \<Rightarrow> string gomap option" where
  "problems_or_nil problems = (if 0 < length problems then Some problems else None)"

definition Valid_OnboardOrg :: "OnboardOrgRequest \<Rightarrow> string gomap option" where
  "Valid_OnboardOrg r =
     (let p0 = [];
          p1 = problem_if (oq_ClientID r = []) ''crm_id'' ''required'' p0;
          p2 = problem_if (oq_ClientFirstName r = []) ''client_first_name'' ''required'' p1;
          p3 = problem_if (oq_ClientLastName r = []) ''client_last_name'' ''required'' p2;
          p4 = problem_if (oq_ClientEmail r = []) ''client_email'' ''required'' p3;
          p5 = problem_if (oq_Bandwidth r = []) ''bandwidth'' ''required'' p4;
          p6 = problem_if (sint (oq_AccountID r) \<le> 0) ''account_id'' ''must be a positive integer'' p5;
          p7 = problem_if (sint (oq_MaxZertoStorage r) < 0) ''max_zerto_storage'' ''must be zero or greater'' p6;
          p8 = problem_if (sint (oq_MaxZertoVMs r) < 0) ''max_zerto_vms'' ''must be zero or greater'' p7
      in problems_or_nil p8)"

definition Valid_DeboardOrg :: "DeboardOrgRequest \<Rightarrow> string gomap option" where
  "Valid_DeboardOrg r =
     (let p1 = problem_if (dq_ClientID r = []) ''crm_id'' ''required'' [];
          p2 = problem_if (dq_OrganizationName r = []) ''organization_name'' ''required'' p1
      in problems_or_nil p2)"

definition Valid_OnboardContact :: "OnboardContactRequest \<Rightarrow> string gomap option" where
  "Valid_OnboardContact r =
     (let p1 = problem_if (ocq_ClientID r = []) ''crm_id'' ''required'' [];
          p2 = problem_if (ocq_ContactID r = []) ''contact_id'' ''required'' p1;
          p3 = problem_if (ocq_Email r = []) ''email'' ''required'' p2
      in problems_or_nil p3)"

definition Valid_DeboardContact :: "DeboardContactRequest \<Rightarrow> string gomap option" where
  "Valid_DeboardContact r =
     (let p1 = problem_if (dcq_ClientID r = []) ''crm_id'' ''required'' [];
          p2 = problem_if (dcq_ContactID r = []) ''contact_id'' ''required'' p1
      in problems_or_nil p2)"

definition Valid_UpdatePw :: "UpdatePwRequest \<Rightarrow> string gomap option" where
  "Valid_UpdatePw r =
     (let p1 = problem_if (pq_ClientID r = []) ''crm_id'' ''required'' [];
          p2 = problem_if (pq_ContactID r = []) ''contact_id'' ''required'' p1;
          p3 = problem_if (pq_NewPassword r = []) ''new_password'' ''required'' p2
      in problems_or_nil p3)"

definition Valid_UpdateBandwidth :: "UpdateBandwidthRequest \<Rightarrow> string gomap option" where
  "Valid_UpdateBandwidth r =
     (let p1 = problem_if (bq_ClientID r = []) ''crm_id'' ''required'' [];
          p2 = problem_if (bq_OrderID r = []) ''order_id'' ''required'' p1;
          p3 = problem_if (bq_Bandwidth r = []) ''bandwidth'' ''required'' p2
      in problems_or_nil p3)"

section \<open>Decoding\<close>

definition dec_EchoRequest :: "go_lib \<Rightarrow> EchoRequest decoder" where
  "dec_EchoRequest U = dec_struct U [(''message'', on_field eq_Message eq_Message_update dec_string)]"

definition dec_OnboardOrgRequest :: "go_lib \<Rightarrow> OnboardOrgRequest decoder" where
  "dec_OnboardOrgRequest U = dec_struct U
     [(''organization_name'', on_field oq_OrganizationName oq_OrganizationName_update dec_string),
      (''client_username'', on_field oq_ClientUsername oq_ClientUsername_update dec_string),
      (''client_first_name'', on_field oq_ClientFirstName oq_ClientFirstName_update dec_string),
      (''client_last_name'', on_field oq_ClientLastName oq_ClientLastName_update dec_string),
      (''client_email'', on_field oq_ClientEmail oq_ClientEmail_update dec_string),
      (''crm_id'', on_field oq_ClientID oq_ClientID_update dec_string),
      (''account_id'', on_field oq_AccountID oq_AccountID_update dec_int),
      (''country'', on_field oq_Country oq_Country_update dec_string),
      (''state'', on_field oq_State oq_State_update dec_string),
      (''postal_code'', on_field oq_PostalCode oq_PostalCode_update dec_string),
      (''max_zerto_storage'', on_field oq_MaxZertoStorage oq_MaxZertoStorage_update dec_int),
      (''max_zerto_vms'', on_field oq_MaxZertoVMs oq_MaxZertoVMs_update dec_int),
      (''bandwidth'', on_field oq_Bandwidth oq_Bandwidth_update dec_string),
      (''product_id'', on_field oq_ProductID oq_ProductID_update dec_string)]"

text \<open>
  \<open>decodeValid\<close> for a request type given by its name, decoder, zero value and \<open>Valid\<close>: the
  value, the problems and the error. The stream's first JSON value is decoded and what
  follows it is not looked at.
\<close>

definition decodeValid :: "go_lib \<Rightarrow> string \<Rightarrow> 'r decoder \<Rightarrow> 'r \<Rightarrow> ('r \<Rightarrow> string gomap option) \<Rightarrow>
    body_stream \<Rightarrow> 'r \<times> string gomap option \<times> go_error option" where
  "decodeValid U ty dec zero valid body =
     (case json_decode_into U ty dec body zero of
        (Some e, v) \<Rightarrow> (v, None, Some (errorf_w U ''decode json: '' e))
      | (None, v) \<Rightarrow>
          (case valid v of
             Some problems \<Rightarrow>
               if 0 < length problems then (v, Some problems, Some (ErrNew (''invalid '' @ ty)))
               else (v, None, None)
           | None \<Rightarrow> (v, None, None)))"

section \<open>The interface \<open>Validator\<close>\<close>

text \<open>A validator returns nil or a map with at least one problem.\<close>

locale validated =
  fixes valid :: "'r \<Rightarrow> string gomap option"
  assumes problems: "valid r = Some m \<Longrightarrow> m \<noteq> [] \<and> gm_wf m"
begin

text \<open>The three outcomes of \<open>decodeValid\<close>.\<close>

lemma decodeValid_cases:
  assumes "decodeValid U ty dec zero valid body = (v, ps, err)"
  obtains (malformed) e where "json_decode_into U ty dec body zero = (Some e, v)" "ps = None"
      "err = Some (errorf_w U ''decode json: '' e)"
    | (invalid) m where "json_decode_into U ty dec body zero = (None, v)" "valid v = Some m" "ps = Some m"
      "m \<noteq> []" "gm_wf m" "err = Some (ErrNew (''invalid '' @ ty))"
    | (ok) "json_decode_into U ty dec body zero = (None, v)" "valid v = None" "ps = None" "err = None"
proof -
  obtain e v1 where j: "json_decode_into U ty dec body zero = (e, v1)" by fastforce
  have eq: "(v, ps, err) = decodeValid U ty dec zero valid body" by (rule assms [symmetric])
  show thesis
  proof (cases e)
    case (Some x)
    then have "v = v1 \<and> ps = None \<and> err = Some (errorf_w U ''decode json: '' x)"
      using eq by (simp add: decodeValid_def j)
    with Some j show thesis by (intro malformed [of x]) simp_all
  next
    case e: None
    show thesis
    proof (cases "valid v1")
      case None
      then have "v = v1 \<and> ps = None \<and> err = None"
        using eq by (simp add: decodeValid_def j e)
      with None j e show thesis by (intro ok) simp_all
    next
      case (Some m)
      then have "v = v1 \<and> ps = Some m \<and> err = Some (ErrNew (''invalid '' @ ty))"
        using eq problems [OF Some] by (simp add: decodeValid_def j e)
      with problems [OF Some] Some j e show thesis by (intro invalid [of m]) simp_all
    qed
  qed
qed

lemma decodeValid_ok_iff:
  "decodeValid U ty dec zero valid body = (v, None, None) \<longleftrightarrow>
    json_decode_into U ty dec body zero = (None, v) \<and> valid v = None"
  by (auto simp: decodeValid_def split: prod.splits option.splits if_splits dest: problems)

end

lemma gm_set_nonempty: "gm_set k v m \<noteq> []"
  by (cases m) (auto split: prod.splits if_splits)

lemma problem_if_wf: "gm_wf m \<Longrightarrow> gm_wf (problem_if b k msg m)"
  by (simp add: problem_if_def gm_wf_set)

lemma problems_or_nil_Some: "problems_or_nil m = Some m' \<Longrightarrow> m' = m \<and> m \<noteq> []"
  by (simp add: problems_or_nil_def split: if_splits)

interpretation echo_request: validated Valid_Echo
  by unfold_locales (auto simp: Valid_Echo_def gm_wf_def split: if_splits)

interpretation onboard_org_request: validated Valid_OnboardOrg
  by unfold_locales
    (auto simp: Valid_OnboardOrg_def Let_def problem_if_wf dest!: problems_or_nil_Some)

interpretation deboard_org_request: validated Valid_DeboardOrg
  by unfold_locales
    (auto simp: Valid_DeboardOrg_def Let_def problem_if_wf dest!: problems_or_nil_Some)

interpretation onboard_contact_request: validated Valid_OnboardContact
  by unfold_locales
    (auto simp: Valid_OnboardContact_def Let_def problem_if_wf dest!: problems_or_nil_Some)

interpretation deboard_contact_request: validated Valid_DeboardContact
  by unfold_locales
    (auto simp: Valid_DeboardContact_def Let_def problem_if_wf dest!: problems_or_nil_Some)

interpretation update_pw_request: validated Valid_UpdatePw
  by unfold_locales
    (auto simp: Valid_UpdatePw_def Let_def problem_if_wf dest!: problems_or_nil_Some)

interpretation update_bandwidth_request: validated Valid_UpdateBandwidth
  by unfold_locales
    (auto simp: Valid_UpdateBandwidth_def Let_def problem_if_wf dest!: problems_or_nil_Some)

section \<open>What validation reports\<close>

text \<open>
  A declarative reading of a validation: rules of a field, a violation and a message; the
  problem reported for a field is the message of its violated rule.
\<close>

definition violated :: "(string \<times> bool \<times> string) list \<Rightarrow> string \<Rightarrow> string option" where
  "violated rules k = map_of (map (\<lambda>(f, _, msg). (f, msg)) (filter (\<lambda>(_, bad, _). bad) rules)) k"

definition onboard_rules :: "OnboardOrgRequest \<Rightarrow> (string \<times> bool \<times> string) list" where
  "onboard_rules r =
     [(''crm_id'', oq_ClientID r = [], ''required''),
      (''client_first_name'', oq_ClientFirstName r = [], ''required''),
      (''client_last_name'', oq_ClientLastName r = [], ''required''),
      (''client_email'', oq_ClientEmail r = [], ''required''),
      (''bandwidth'', oq_Bandwidth r = [], ''required''),
      (''account_id'', sint (oq_AccountID r) < 1, ''must be a positive integer''),
      (''max_zerto_storage'', sint (oq_MaxZertoStorage r) < 0, ''must be zero or greater''),
      (''max_zerto_vms'', sint (oq_MaxZertoVMs r) < 0, ''must be zero or greater'')]"

definition problem_of :: "string gomap option \<Rightarrow> string \<Rightarrow> string option" where
  "problem_of ps k = (case ps of None \<Rightarrow> None | Some m \<Rightarrow> gm_get m k)"

text \<open>Rules entered one after another, each for a field of its own.\<close>

fun enter_rules :: "(string \<times> bool \<times> string) list \<Rightarrow> string gomap \<Rightarrow> string gomap" where
  "enter_rules [] m = m"
| "enter_rules ((f, bad, msg) # rs) m = enter_rules rs (problem_if bad f msg m)"

lemma enter_rules_get:
  "gm_wf m \<Longrightarrow> distinct (map fst rs) \<Longrightarrow>
    gm_get (enter_rules rs m) k = (case violated rs k of Some msg \<Rightarrow> Some msg | None \<Rightarrow> gm_get m k)"
proof (induction rs m rule: enter_rules.induct)
  case (2 f bad msg rs m)
  have "violated rs f = None"
    using "2.prems"(2) by (auto simp: violated_def map_of_eq_None_iff image_iff)
  moreover have "violated ((f, bad, msg) # rs) k = (if bad \<and> k = f then Some msg else violated rs k)"
    by (auto simp: violated_def)
  ultimately show ?case
    using "2.IH" [OF problem_if_wf] "2.prems"
    by (auto simp: problem_if_def gm_get_set split: option.splits)
qed (simp add: violated_def)

lemma enter_rules_wf: "gm_wf m \<Longrightarrow> gm_wf (enter_rules rs m)"
  by (induction rs m rule: enter_rules.induct) (simp_all add: problem_if_wf)

lemma Valid_OnboardOrg_rules: "Valid_OnboardOrg r = problems_or_nil (enter_rules (onboard_rules r) [])"
proof -
  have "sint i \<le> 0 \<longleftrightarrow> sint i < 1" for i :: int64 by arith
  then show ?thesis by (simp add: Valid_OnboardOrg_def onboard_rules_def Let_def)
qed

lemma problem_of_rules:
  "distinct (map fst rs) \<Longrightarrow> problem_of (problems_or_nil (enter_rules rs [])) k = violated rs k"
  using enter_rules_get [of "[]" rs k]
  by (auto simp: problem_of_def problems_or_nil_def gm_get_Nil split: option.splits)

lemma problems_None_iff:
  assumes "distinct (map fst rs)"
  shows "problems_or_nil (enter_rules rs []) = None \<longleftrightarrow> (\<forall>(f, bad, msg)\<in>set rs. \<not> bad)"
proof -
  have "problems_or_nil (enter_rules rs []) = None \<longleftrightarrow> enter_rules rs [] = []"
    by (simp add: problems_or_nil_def)
  also have "\<dots> \<longleftrightarrow> (\<forall>k. gm_get (enter_rules rs []) k = None)"
    using gm_ext [of "enter_rules rs []" "[]"] by (auto simp: gm_get_Nil enter_rules_wf)
  also have "\<dots> \<longleftrightarrow> (\<forall>k. violated rs k = None)"
    using enter_rules_get [OF _ assms, of "[]"] by (simp add: gm_get_Nil split: option.splits)
  also have "\<dots> \<longleftrightarrow> (\<forall>(f, bad, msg)\<in>set rs. \<not> bad)"
    by (force simp: violated_def map_of_eq_None_iff)
  finally show ?thesis .
qed

text \<open>C30: validation of an onboarding request. Nil is returned exactly when no rule is violated;
  otherwise the map holds, for each field, exactly the message of the rule it violates.\<close>

theorem Valid_OnboardOrg_spec:
  "problem_of (Valid_OnboardOrg r) k = violated (onboard_rules r) k \<and>
   (Valid_OnboardOrg r = None) = list_all (\<lambda>(f, bad, msg). \<not> bad) (onboard_rules r)"
proof -
  have d: "distinct (map fst (onboard_rules r))" by (simp add: onboard_rules_def)
  from problem_of_rules [OF d] problems_None_iff [OF d] show ?thesis
    unfolding Valid_OnboardOrg_rules list_all_iff by simp
qed

text \<open>The documented contract of \<open>decodeValid\<close>, for every request type with a validator that
  returns nil or problems: on success there is neither problem nor error; on a validation failure
  there are problems and an error, and the problems are the validator's; on a decode failure
  there is an error and no problems.\<close>

theorem decodeValid_contract:
  assumes "validated valid" and "decodeValid U ty dec zero valid body = (v, ps, err)"
  shows "(err = None) = (json_decode_into U ty dec body zero = (None, v) \<and> valid v = None) \<and>
    (ps \<noteq> None) = (fst (json_decode_into U ty dec body zero) = None \<and> valid v \<noteq> None) \<and>
    (ps \<noteq> None \<longrightarrow> err \<noteq> None \<and> ps = valid v \<and> ps \<noteq> Some [])"
  using assms(1) by (rule validated.decodeValid_cases [OF _ assms(2)]) auto

lemma decodeValid_contract_witness:
  "snd (snd (decodeValid ascii_tables ''httpapi.EchoRequest'' (dec_EchoRequest ascii_tables) zero_EchoRequest
      Valid_Echo (Inl (ErrNew ''gone'')))) \<noteq> None"
  using decodeValid_contract [OF echo_request.validated_axioms, of ascii_tables "''httpapi.EchoRequest''"
      "dec_EchoRequest ascii_tables" zero_EchoRequest "Inl (ErrNew ''gone'')"]
  by (auto simp: json_decode_into_def decodeValid_def)

section \<open>Responses\<close>

record ReadyResponse =
  rr_Status :: string

record HealthResponse =
  hp_Status :: string
  hp_Version :: string
  hp_Commit :: string
  hp_BuildTime :: string
  hp_Database :: string

record EchoResponse =
  ep_Echo :: string
  ep_RequestID :: string

record JobAcceptedResponse =
  ja_JobID :: int64
  ja_WorkflowID :: string

record ErrorResponse =
  er_Error :: string
  er_Problems :: "string gomap option"

text \<open>A response body is one of these; its JSON text. \<open>Problems\<close> is omitted when empty.\<close>

datatype response =
    Ready ReadyResponse
  | Health HealthResponse
  | Echo EchoResponse
  | JobAccepted JobAcceptedResponse
  | Failure ErrorResponse

definition enc_string_map :: "string gomap \<Rightarrow> string" where
  "enc_string_map m = enc_object (map (\<lambda>(k, v). (k, enc_string v)) m)"

fun response_json :: "response \<Rightarrow> string" where
  "response_json (Ready r) = enc_object [(''status'', enc_string (rr_Status r))]"
| "response_json (Health r) = enc_object
     [(''status'', enc_string (hp_Status r)), (''version'', enc_string (hp_Version r)),
      (''commit'', enc_string (hp_Commit r)), (''build_time'', enc_string (hp_BuildTime r)),
      (''database'', enc_string (hp_Database r))]"
| "response_json (Echo r) = enc_object
     [(''echo'', enc_string (ep_Echo r)), (''request_id'', enc_string (ep_RequestID r))]"
| "response_json (JobAccepted r) = enc_object
     [(''job_id'', itoa (sint (ja_JobID r))), (''workflow_id'', enc_string (ja_WorkflowID r))]"
| "response_json (Failure r) = enc_object
     ((''error'', enc_string (er_Error r)) #
      (case er_Problems r of
         None \<Rightarrow> []
       | Some m \<Rightarrow> if m = [] then [] else [(''problems'', enc_string_map m)]))"

text \<open>What a client reads from a response: the members under their tags.\<close>

fun response_members :: "response \<Rightarrow> (string \<times> string \<times> json) list" where
  "response_members (Ready r) = [(''status'', enc_string (rr_Status r), JStr (to_valid (rr_Status r)))]"
| "response_members (Health r) =
     [(''status'', enc_string (hp_Status r), JStr (to_valid (hp_Status r))),
      (''version'', enc_string (hp_Version r), JStr (to_valid (hp_Version r))),
      (''commit'', enc_string (hp_Commit r), JStr (to_valid (hp_Commit r))),
      (''build_time'', enc_string (hp_BuildTime r), JStr (to_valid (hp_BuildTime r))),
      (''database'', enc_string (hp_Database r), JStr (to_valid (hp_Database r)))]"
| "response_members (Echo r) =
     [(''echo'', enc_string (ep_Echo r), JStr (to_valid (ep_Echo r))),
      (''request_id'', enc_string (ep_RequestID r), JStr (to_valid (ep_RequestID r)))]"
| "response_members (JobAccepted r) =
     [(''job_id'', itoa (sint (ja_JobID r)), JNum (itoa (sint (ja_JobID r)))),
      (''workflow_id'', enc_string (ja_WorkflowID r), JStr (to_valid (ja_WorkflowID r)))]"
| "response_members (Failure r) =
     (''error'', enc_string (er_Error r), JStr (to_valid (er_Error r))) #
     (case er_Problems r of
        None \<Rightarrow> []
      | Some m \<Rightarrow>
          if m = [] then []
          else [(''problems'', enc_string_map m,
                 JObj (map (\<lambda>(k, v). (to_valid k, JStr (to_valid v))) m))])"

definition response_value :: "response \<Rightarrow> json" where
  "response_value v = JObj (map (\<lambda>(k, t, j). (k, j)) (response_members v))"

lemma response_json_members: "response_json v = enc_object (member_texts (response_members v))"
  by (cases v) (simp_all split: option.splits)

lemma to_valid_keys: "map (\<lambda>(k, t, j). (to_valid k, j)) (response_members v) = map (\<lambda>(k, t, j). (k, j)) (response_members v)"
  by (cases v) (auto simp: to_valid_id utf8_valid_ascii ascii_def split: option.splits)

lemma enc_string_map_text:
  "value_text (length m + 1) 1 (enc_string_map m) (JObj (map (\<lambda>(k, v). (to_valid k, JStr (to_valid v))) m))"
proof -
  let ?kvs = "map (\<lambda>(k, v). (k, enc_string v, JStr (to_valid v))) m"
  have "value_members 0 0 ?kvs"
    by (auto simp: value_members_def list_all_iff intro: value_text_scalar scalar_text_string)
  from value_text_object [OF this] show ?thesis
    by (simp add: enc_string_map_def comp_def split_def)
qed

lemma response_members_text: "\<exists>b. value_members b 1 (response_members v)"
proof (cases v)
  case (Failure r)
  obtain b where b: "b = (case er_Problems r of None \<Rightarrow> 0 | Some m \<Rightarrow> length m + 1)" by simp
  have "value_members b 1 (response_members v)"
    using enc_string_map_text by (auto simp: Failure b value_members_def value_text_scalar scalar_text_string split: option.splits)
  then show ?thesis ..
qed (auto simp: value_members_def value_text_scalar scalar_text_string scalar_text_itoa)

text \<open>C31: every response is well-typed JSON. The body the server sends, with the line feed of
  \<open>Encoder.Encode\<close>, parses as the object that has exactly the members of the response type in
  their order: strings as strings (with invalid UTF-8 replaced), the job id as its decimal
  number, the problems as an object, and no \<open>problems\<close> member when there are none.\<close>

theorem response_json_parses:
  "json_parse (response_json v @ [chr 10]) = Some (response_value v)"
proof -
  obtain b where b: "value_members b 1 (response_members v)" using response_members_text by blast
  have nl: "delimited [chr 10]" "skip_ws [chr 10] = []"
    by (simp_all add: delimited_def skip_ws_def json_ws_def is_digit_def) (simp add: chr_eval)
  have "json_parse (enc_object (member_texts (response_members v)) @ [chr 10]) =
      Some (JObj (member_values (response_members v)))"
    by (rule json_parse_text [OF value_text_object [OF b] _ nl]) (simp add: max_depth_def)
  then show ?thesis by (simp only: response_json_members response_value_def to_valid_keys)
qed

end
