(* ===== verification/Http.thy ===== *)
theory Http
  imports VcdClient Jobs
begin

text \<open>
  What the HTTP layer uses of \<open>net/http\<close>: the request, the response writer with its
  once-only status line, \<open>http.Error\<close>, the handler type, \<open>http.ServeMux\<close> with exact
  patterns, and the answer a server sends after a handler has returned. A handler acts on
  the state of the process that outlives a request, \<^term>\<open>s\<close>, and asks the environment
  \<^term>\<open>env\<close> for what is decided outside during the request.
\<close>

section \<open>Requests and response writers\<close>

text \<open>
  \<open>rq_path\<close> is \<open>URL.Path\<close> and \<open>rq_escaped\<close> is \<open>URL.EscapedPath()\<close>. The body is a stream for
  the JSON decoder; \<open>rq_read_err\<close> is the error that reading on after its first JSON value
  meets. \<open>rq_id\<close> is the value of \<open>requestIDKey\<close> in the context.
\<close>

record request =
  rq_method :: string
  rq_path :: string
  rq_escaped :: string
  rq_headers :: "(string \<times> string) list"
  rq_body :: body_stream
  rq_read_err :: "go_error option"
  rq_id :: "string option"

text \<open>
  A response writer: the headers so far, the status once it is written, the headers as they
  were then, and the body. Header names are written as the source spells them; no two
  spellings of one name occur. \<open>rw_wrapped\<close> holds the \<open>status\<close> fields of the \<open>statusWriter\<close>s
  (\<open>middleware.go\<close>) around the connection's own writer, the outermost first.
\<close>

record resp_writer =
  rw_headers :: "string gomap"
  rw_status :: "int option"
  rw_sent :: "string gomap"
  rw_body :: string
  rw_wrapped :: "int list"

definition fresh_writer :: resp_writer where
  "fresh_writer = \<lparr>rw_headers = [], rw_status = None, rw_sent = [], rw_body = [], rw_wrapped = []\<rparr>"

definition header_set :: "string \<Rightarrow> string \<Rightarrow> resp_writer \<Rightarrow> resp_writer" where
  "header_set key value w = w\<lparr>rw_headers := gm_set key value (rw_headers w)\<rparr>"

text \<open>The connection's own \<open>WriteHeader\<close>: a second status is dropped.\<close>

definition conn_write_header :: "int \<Rightarrow> resp_writer \<Rightarrow> resp_writer" where
  "conn_write_header status w =
     (if rw_status w = None then w\<lparr>rw_status := Some status, rw_sent := rw_headers w\<rparr> else w)"

text \<open>\<open>WriteHeader\<close> through the wrappers, each of which records the status and passes it on.\<close>

definition WriteHeader :: "int \<Rightarrow> resp_writer \<Rightarrow> resp_writer" where
  "WriteHeader status w =
     conn_write_header status (w\<lparr>rw_wrapped := map (\<lambda>_. status) (rw_wrapped w)\<rparr>)"

text \<open>\<open>Write\<close> goes past the wrappers and sends the status 200 first when none was sent.\<close>

definition write_body :: "string \<Rightarrow> resp_writer \<Rightarrow> resp_writer" where
  "write_body t w = (let w' = conn_write_header 200 w in w'\<lparr>rw_body := rw_body w' @ t\<rparr>)"

text \<open>The texts of \<open>http.StatusText\<close> that are asked for.\<close>

definition StatusText :: "int \<Rightarrow> string" where
  "StatusText code =
     (if code = 405 then ''Method Not Allowed''
      else if code = 500 then ''Internal Server Error''
      else if code = 501 then ''Not Implemented''
      else [])"

definition http_Error :: "string \<Rightarrow> int \<Rightarrow> resp_writer \<Rightarrow> resp_writer" where
  "http_Error msg code w =
     write_body (msg @ [chr 10])
       (WriteHeader code
         (header_set ''X-Content-Type-Options'' ''nosniff''
           (header_set ''Content-Type'' ''text/plain; charset=utf-8'' w)))"

section \<open>Handlers\<close>

record log_entry =
  le_method :: string
  le_path :: string
  le_status :: int
  le_request_id :: string

text \<open>
  What outlives a request: the VCD client the server was built with (absent when it is
  nil), the outside world it talks to, the committed River jobs, and the access log.
\<close>

record 'w server_state =
  ss_vcd :: "vcd_client option"
  ss_world :: 'w
  ss_jobs :: "(int64 \<times> job_args) list"
  ss_log :: "log_entry list"

text \<open>
  What one request meets outside: the VCD environment, the bytes of \<open>rand.Read\<close>, the time in
  nanoseconds since the year 1, the outcomes of \<open>Ping\<close>, \<open>Begin\<close>, River's \<open>InsertTx\<close> (the id
  of the inserted job) and \<open>Commit\<close> (an error, and whether the transaction was applied
  nevertheless), and the status, location and body of a redirect to a cleaned path, which
  depend on the version of \<open>net/http\<close>.
\<close>

record 'w http_env =
  he_vcd :: "'w vcd_env"
  he_random :: string
  he_now :: int
  he_ping :: "go_error option"
  he_begin :: "go_error option"
  he_insert :: "job_args \<Rightarrow> go_error + int64"
  he_commit :: "(go_error \<times> bool) option"
  he_redirect :: "string \<Rightarrow> int \<times> string \<times> string"

abbreviation he_lib :: "'w http_env \<Rightarrow> go_lib" where
  "he_lib env \<equiv> ve_lib (he_vcd env)"

type_synonym 'w handler =
  "'w http_env \<Rightarrow> request \<Rightarrow> resp_writer \<Rightarrow> 'w server_state \<Rightarrow>
     unit go_result \<times> resp_writer \<times> 'w server_state"

section \<open>The multiplexer\<close>

text \<open>\<open>url.PathUnescape\<close>; a segment that is no escape sequence is taken as it is.\<close>

fun path_unescape :: "string \<Rightarrow> string option" where
  "path_unescape [] = Some []"
| "path_unescape (c # s) =
     (if c = CHR ''%'' then
        (case s of
          a # b # t \<Rightarrow>
            (case (unhex a, unhex b) of
              (Some x, Some y) \<Rightarrow> map_option ((#) (chr (16 * x + y))) (path_unescape t)
            | _ \<Rightarrow> None)
        | _ \<Rightarrow> None)
      else map_option ((#) c) (path_unescape s))"

definition segment :: "string \<Rightarrow> string" where
  "segment t = (case path_unescape t of Some u \<Rightarrow> u | None \<Rightarrow> t)"

definition route_matches :: "string \<Rightarrow> string \<Rightarrow> bool" where
  "route_matches pat escaped \<longleftrightarrow>
     map segment (split_char CHR ''/'' (tl escaped)) = split_char CHR ''/'' (tl pat)"

text \<open>\<open>cleanPath\<close>, with \<open>path.Clean\<close> of a rooted path.\<close>

fun clean_segments :: "string list \<Rightarrow> string list \<Rightarrow> string list" where
  "clean_segments acc [] = rev acc"
| "clean_segments acc (t # ts) =
     (if t = [] \<or> t = ''.'' then clean_segments acc ts
      else if t = ''..'' then clean_segments (tl acc) ts
      else clean_segments (t # acc) ts)"

definition cleanPath :: "string \<Rightarrow> string" where
  "cleanPath p =
     (if p = [] then ''/''
      else let q = (if hd p = CHR ''/'' then p else CHR ''/'' # p);
               np = CHR ''/'' # join_char CHR ''/'' (clean_segments [] (split_char CHR ''/'' q))
           in if last q = CHR ''/'' \<and> np \<noteq> ''/'' then np @ ''/'' else np)"

text \<open>The registered patterns: method, path, handler. Registering a pattern twice panics.\<close>

type_synonym 'w mux = "(string \<times> string \<times> 'w handler) list"

definition mux_Handle :: "string \<Rightarrow> string \<Rightarrow> 'w handler \<Rightarrow> 'w mux \<Rightarrow> 'w mux go_result" where
  "mux_Handle meth pat h mux =
     (if (meth, pat) \<in> set (map (\<lambda>(m, p, _). (m, p)) mux)
      then Panics (''pattern \"'' @ meth @ '' '' @ pat @ ''\" conflicts with pattern \"'' @ meth @ '' '' @ pat @ ''\"'')
      else Returns (mux @ [(meth, pat, h)]))"

fun mux_lookup :: "'w mux \<Rightarrow> string \<Rightarrow> string \<Rightarrow> 'w handler option" where
  "mux_lookup [] meth escaped = None"
| "mux_lookup ((m, p, h) # mux) meth escaped =
     (if m = meth \<and> route_matches p escaped then Some h else mux_lookup mux meth escaped)"

text \<open>A \<open>GET\<close> pattern serves \<open>HEAD\<close> too.\<close>

definition mux_find :: "'w mux \<Rightarrow> string \<Rightarrow> string \<Rightarrow> 'w handler option" where
  "mux_find mux meth escaped =
     (case mux_lookup mux meth escaped of
        Some h \<Rightarrow> Some h
      | None \<Rightarrow> if meth = ''HEAD'' then mux_lookup mux ''GET'' escaped else None)"

definition matching_methods :: "'w mux \<Rightarrow> string \<Rightarrow> string list" where
  "matching_methods mux escaped =
     (let ms = map fst (filter (\<lambda>(_, p, _). route_matches p escaped) mux)
      in sort (remdups (if ''GET'' \<in> set ms then ''HEAD'' # ms else ms)))"

fun join_comma :: "string list \<Rightarrow> string" where
  "join_comma [] = []"
| "join_comma [p] = p"
| "join_comma (p # ps) = p @ '', '' @ join_comma ps"

definition redirect :: "int \<times> string \<times> string \<Rightarrow> request \<Rightarrow> resp_writer \<Rightarrow> resp_writer" where
  "redirect target r w =
     (case target of
        (status, location, body) \<Rightarrow>
          (let hadCT = (gm_get (rw_headers w) ''Content-Type'' \<noteq> None);
               get = (rq_method r = ''GET'');
               w1 = header_set ''Location'' location w;
               w2 = (if \<not> hadCT \<and> (get \<or> rq_method r = ''HEAD'')
                     then header_set ''Content-Type'' ''text/html; charset=utf-8'' w1 else w1);
               w3 = WriteHeader status w2
           in if \<not> hadCT \<and> get then write_body body w3 else w3))"

definition mux_ServeHTTP :: "'w mux \<Rightarrow> 'w handler" where
  "mux_ServeHTTP mux env r w s =
     (let escaped = rq_escaped r;
          path = (if rq_method r = ''CONNECT'' then escaped else cleanPath escaped)
      in if escaped = ''*'' then (Returns (), WriteHeader 400 (header_set ''Connection'' ''close'' w), s)
         else if path \<noteq> escaped then (Returns (), redirect (he_redirect env path) r w, s)
         else case mux_find mux (rq_method r) escaped of
           Some h \<Rightarrow> h env r w s
         | None \<Rightarrow>
             (case matching_methods mux escaped of
                [] \<Rightarrow> (Returns (), http_Error ''404 page not found'' 404 w, s)
              | ms \<Rightarrow> (Returns (), http_Error (StatusText 405) 405 (header_set ''Allow'' (join_comma ms) w), s)))"

section \<open>The answer\<close>

record reply =
  rp_status :: int
  rp_headers :: "string gomap"
  rp_body :: string

text \<open>A handler that returns without writing is answered with 200; \<open>HEAD\<close> has no body. When
  the handler panics the connection is closed and there is no answer.\<close>

definition finish :: "request \<Rightarrow> resp_writer \<Rightarrow> reply" where
  "finish r w =
     (let w' = conn_write_header 200 w
      in \<lparr>rp_status = (case rw_status w' of Some st \<Rightarrow> st | None \<Rightarrow> 200), rp_headers = rw_sent w',
          rp_body = (if rq_method r = ''HEAD'' then [] else rw_body w')\<rparr>)"

definition serve :: "'w handler \<Rightarrow> 'w http_env \<Rightarrow> request \<Rightarrow> 'w server_state \<Rightarrow>
    reply option \<times> 'w server_state" where
  "serve h env r s =
     (case h env r fresh_writer s of
        (Returns _, w, s') \<Rightarrow> (Some (finish r w), s')
      | (Panics _, _, s') \<Rightarrow> (None, s'))"

end
