(* ===== verification/Middleware.thy ===== *)
theory Middleware
  imports Http GoCrypto AppConfig
begin

text \<open>
  \<open>internal/httpapi/middleware.go\<close>: each middleware is a function from handler to handler.
  The contract of a handler that answers every request exactly once is the locale
  \<open>answering\<close>; the lemmas at the end show that every middleware keeps it.
\<close>

section \<open>Request identifiers\<close>

definition generateID :: "string \<Rightarrow> string" where
  "generateID b = hex_encode b"

definition request_id_of :: "'w http_env \<Rightarrow> request \<Rightarrow> string" where
  "request_id_of env r =
     (let rid = header_get (rq_headers r) ''X-Request-ID''
      in if rid = [] then generateID (he_random env) else rid)"

definition requestID :: "'w handler \<Rightarrow> 'w handler" where
  "requestID nxt env r w s =
     (let rid = request_id_of env r
      in nxt env (r\<lparr>rq_id := Some rid\<rparr>) (header_set ''X-Request-ID'' rid w) s)"

definition RequestID :: "request \<Rightarrow> string" where
  "RequestID r = (case rq_id r of Some rid \<Rightarrow> rid | None \<Rightarrow> [])"

section \<open>Logging and panics\<close>

text \<open>The duration is left out of the log entry. A panic passes the logger by.\<close>

definition requestLogger :: "'w handler \<Rightarrow> 'w handler" where
  "requestLogger nxt env r w s =
     (case nxt env r (w\<lparr>rw_wrapped := 200 # rw_wrapped w\<rparr>) s of
        (Panics m, w', s') \<Rightarrow> (Panics m, w'\<lparr>rw_wrapped := tl (rw_wrapped w')\<rparr>, s')
      | (Returns u, w', s') \<Rightarrow>
          (Returns u, w'\<lparr>rw_wrapped := tl (rw_wrapped w')\<rparr>,
           s'\<lparr>ss_log := ss_log s' @
                [\<lparr>le_method = rq_method r, le_path = rq_path r, le_status = hd (rw_wrapped w'),
                  le_request_id = RequestID r\<rparr>]\<rparr>))"

text \<open>The recovered panic is answered through \<open>http.Error\<close>, whatever was written before.\<close>

definition panicRecovery :: "'w handler \<Rightarrow> 'w handler" where
  "panicRecovery nxt env r w s =
     (case nxt env r w s of
        (Returns u, w', s') \<Rightarrow> (Returns u, w', s')
      | (Panics m, w', s') \<Rightarrow> (Returns (), http_Error (StatusText 500) 500 w', s'))"

definition devCORS :: "'w handler \<Rightarrow> 'w handler" where
  "devCORS nxt env r w s =
     (let w1 = header_set ''Access-Control-Allow-Origin'' ''*'' w;
          w2 = header_set ''Access-Control-Allow-Methods'' ''GET, POST, PUT, DELETE, OPTIONS'' w1;
          w3 = header_set ''Access-Control-Allow-Headers'' ''Content-Type, X-API-Key, X-Request-ID'' w2
      in if rq_method r = ''OPTIONS'' then (Returns (), WriteHeader 204 w3, s)
         else nxt env r w3 s)"

section \<open>Authentication\<close>

definition apiKeyAuth :: "string \<Rightarrow> 'w handler \<Rightarrow> 'w handler" where
  "apiKeyAuth expectedKey nxt env r w s =
     (if expectedKey = [] then (Returns (), http_Error ''unauthorized'' 401 w, s)
      else let key = header_get (rq_headers r) ''X-API-Key''
           in if ConstantTimeCompare key expectedKey \<noteq> 1
              then (Returns (), http_Error ''unauthorized'' 401 w, s)
              else nxt env r w s)"

text \<open>
  Instants are nanoseconds since the year 1. \<open>time.Unix\<close> adds the seconds between the year
  1 and 1970 in 64 bits, and \<open>Time.Sub\<close> (in \<open>time.Since\<close>) returns the nearest duration
  where the difference does not fit.
\<close>

definition nanos_per_second :: int where
  "nanos_per_second = 1000000000"

definition unix_to_internal :: int64 where
  "unix_to_internal = 62135596800"

definition time_Unix :: "int64 \<Rightarrow> int" where
  "time_Unix sec = sint (sec + unix_to_internal) * nanos_per_second"

definition time_Sub :: "int \<Rightarrow> int \<Rightarrow> int64" where
  "time_Sub t u = word_of_int (max (- (2 ^ 63)) (min (2 ^ 63 - 1) (t - u)))"

definition webhookTimestampTolerance :: int64 where
  "webhookTimestampTolerance = 60 * word_of_int nanos_per_second"

text \<open>The signature HostBill sends: over the timestamp header followed by the raw body.\<close>

definition webhook_signature :: "string \<Rightarrow> string \<Rightarrow> string \<Rightarrow> string" where
  "webhook_signature secret tsHeader body = hex_encode (hmac_sha256 secret (tsHeader @ body))"

text \<open>\<open>io.ReadAll\<close> of the body.\<close>

definition read_all :: "request \<Rightarrow> go_error + string" where
  "read_all r =
     (case rq_body r of
        Inl e \<Rightarrow> Inl e
      | Inr body \<Rightarrow> (case rq_read_err r of Some e \<Rightarrow> Inl e | None \<Rightarrow> Inr body))"

definition webhookAuth :: "string \<Rightarrow> 'w handler \<Rightarrow> 'w handler" where
  "webhookAuth secret nxt env r w s =
     (let unauthorized = (Returns (), http_Error ''unauthorized'' 401 w, s)
      in if secret = [] then unauthorized
      else let tsHeader = header_get (rq_headers r) ''HB-Timestamp'';
               sigHeader = header_get (rq_headers r) ''HB-Signature''
      in if tsHeader = [] \<or> sigHeader = [] then unauthorized
      else case parse_int64 tsHeader of
        None \<Rightarrow> unauthorized
      | Some ts \<Rightarrow>
          if sint (time_Sub (he_now env) (time_Unix ts)) > sint webhookTimestampTolerance then unauthorized
          else (case read_all r of
            Inl e \<Rightarrow> (Returns (), http_Error ''bad request'' 400 w, s)
          | Inr body \<Rightarrow>
              (let r' = r\<lparr>rq_body := Inr body, rq_read_err := None\<rparr>;
                   expected = webhook_signature secret tsHeader body
               in if ConstantTimeCompare sigHeader expected \<noteq> 1 then unauthorized
                  else nxt env r' w s)))"

section \<open>What the webhook check accepts\<close>

lemma webhook_signature_nonempty [simp]: "webhook_signature secret ts body \<noteq> []"
proof -
  have "length (webhook_signature secret ts body) = 64"
    by (simp add: webhook_signature_def length_hex_encode length_hmac_sha256)
  then show ?thesis by auto
qed

text \<open>The duration saturates, so comparing it with the tolerance compares the instants.\<close>

lemma sint_tolerance: "sint webhookTimestampTolerance = 60 * nanos_per_second"
  by (simp add: webhookTimestampTolerance_def nanos_per_second_def)

lemma time_Sub_exceeds:
  assumes "- (2 ^ 63) \<le> n" and "n < 2 ^ 63 - 1"
  shows "n < sint (time_Sub t u) \<longleftrightarrow> n < t - u"
proof -
  have "sint (time_Sub t u) = max (- (2 ^ 63)) (min (2 ^ 63 - 1) (t - u))"
    unfolding time_Sub_def by (rule sint_word_of_int_small) auto
  with assms show ?thesis by auto
qed

text \<open>
  The signed, fresh and readable requests: a secret is configured, the timestamp header is a
  number and names an instant not more than a minute back, the body can be read, and the
  signature header is the signature of both.
\<close>

definition webhook_valid :: "string \<Rightarrow> int \<Rightarrow> request \<Rightarrow> bool" where
  "webhook_valid secret now r \<longleftrightarrow>
     (let tsHeader = header_get (rq_headers r) ''HB-Timestamp''
      in case (parse_int64 tsHeader, read_all r) of
           (Some ts, Inr body) \<Rightarrow>
             secret \<noteq> [] \<and> now - time_Unix ts \<le> 60 * nanos_per_second \<and>
             header_get (rq_headers r) ''HB-Signature'' = webhook_signature secret tsHeader body
         | _ \<Rightarrow> False)"

lemma read_all_Inr: "read_all r = Inr body \<Longrightarrow> r\<lparr>rq_body := Inr body, rq_read_err := None\<rparr> = r"
  by (cases r) (auto simp: read_all_def split: sum.splits option.splits)

lemma parse_int64_Nil [simp]: "parse_int64 [] = None"
  by (simp add: parse_int64_def)

lemma webhook_cases:
  "webhookAuth secret nxt env r w s =
    (if webhook_valid secret (he_now env) r then nxt env r w s
     else if secret \<noteq> [] \<and> (\<exists>e. read_all r = Inl e) \<and> header_get (rq_headers r) ''HB-Signature'' \<noteq> [] \<and>
        (case parse_int64 (header_get (rq_headers r) ''HB-Timestamp'') of None \<Rightarrow> False
         | Some ts \<Rightarrow> he_now env - time_Unix ts \<le> 60 * nanos_per_second)
     then (Returns (), http_Error ''bad request'' 400 w, s)
     else (Returns (), http_Error ''unauthorized'' 401 w, s))"
proof -
  have t: "sint webhookTimestampTolerance < sint (time_Sub (he_now env) (time_Unix ts)) \<longleftrightarrow>
      60 * nanos_per_second < he_now env - time_Unix ts" for ts
    unfolding sint_tolerance by (rule time_Sub_exceeds) (simp_all add: nanos_per_second_def)
  show ?thesis
    by (cases "parse_int64 (header_get (rq_headers r) ''HB-Timestamp'')"; cases "read_all r")
      (auto simp: webhookAuth_def webhook_valid_def Let_def t ConstantTimeCompare_iff read_all_Inr not_less)
qed

section \<open>Answering exactly once\<close>

text \<open>
  What a handler does to a fresh writer: it sends one status, which every wrapper saw, and
  the headers set before it was called are sent along.
\<close>

definition answered :: "resp_writer \<Rightarrow> resp_writer \<Rightarrow> bool" where
  "answered w w' \<longleftrightarrow>
     (\<exists>st. rw_status w' = Some st \<and> rw_wrapped w' = map (\<lambda>_. st) (rw_wrapped w) \<and>
       gm_get (rw_sent w') ''X-Request-ID'' = gm_get (rw_headers w) ''X-Request-ID'')"

definition unwritten :: "resp_writer \<Rightarrow> bool" where
  "unwritten w \<longleftrightarrow> rw_status w = None \<and> gm_wf (rw_headers w)"

locale answering =
  fixes h :: "'w handler"
  assumes answers: "unwritten w \<Longrightarrow> h env r w s = (res, w', s') \<Longrightarrow> res = Returns () \<and> answered w w'"
    and keeps_log: "h env r w s = (res, w', s') \<Longrightarrow> ss_log s' = ss_log s"
begin

lemma answer_cases:
  assumes "unwritten w"
  obtains w' s' where "h env r w s = (Returns (), w', s')" "answered w w'" "ss_log s' = ss_log s"
  using answers [OF assms] keeps_log by (metis prod_cases3)

text \<open>There is nothing to recover from.\<close>

lemma panicRecovery_id: "unwritten w \<Longrightarrow> panicRecovery h env r w s = h env r w s"
  by (erule answer_cases [of w env r s]) (simp add: panicRecovery_def)

text \<open>The access log records the status that was sent.\<close>

lemma logged:
  assumes "unwritten w" and "rw_wrapped w = []"
  obtains w' s' st where "requestLogger (panicRecovery h) env r w s = (Returns (), w', s')"
    "rw_status w' = Some st" "rw_wrapped w' = []"
    "gm_get (rw_sent w') ''X-Request-ID'' = gm_get (rw_headers w) ''X-Request-ID''"
    "ss_log s' = ss_log s @ [\<lparr>le_method = rq_method r, le_path = rq_path r, le_status = st,
       le_request_id = RequestID r\<rparr>]"
proof -
  let ?w = "w\<lparr>rw_wrapped := [200]\<rparr>"
  have u: "unwritten ?w" using assms by (simp add: unwritten_def)
  from answer_cases [OF u, of env r s] obtain w' s' where h: "h env r ?w s = (Returns (), w', s')"
    and a: "answered ?w w'" and l: "ss_log s' = ss_log s" by metis
  from a obtain st where st: "rw_status w' = Some st" "rw_wrapped w' = [st]"
    "gm_get (rw_sent w') ''X-Request-ID'' = gm_get (rw_headers w) ''X-Request-ID''"
    by (auto simp: answered_def)
  have "requestLogger (panicRecovery h) env r w s = (Returns (), w'\<lparr>rw_wrapped := []\<rparr>,
      s'\<lparr>ss_log := ss_log s @ [\<lparr>le_method = rq_method r, le_path = rq_path r, le_status = st,
        le_request_id = RequestID r\<rparr>]\<rparr>)"
    using assms(2) by (simp add: requestLogger_def panicRecovery_id [OF u] h st l)
  then show thesis by (rule that) (simp_all add: st)
qed

end

lemmas writer_defs = header_set_def conn_write_header_def WriteHeader_def write_body_def http_Error_def
  answered_def unwritten_def

lemma request_id_key: "''X-Request-ID'' \<noteq> ''Content-Type''" "''X-Request-ID'' \<noteq> ''X-Content-Type-Options''"
  "''X-Request-ID'' \<noteq> ''Allow''" "''X-Request-ID'' \<noteq> ''Location''" "''X-Request-ID'' \<noteq> ''Connection''"
  by simp_all

lemma unwritten_header_set [simp]: "unwritten w \<Longrightarrow> unwritten (header_set k v w)"
  by (simp add: unwritten_def header_set_def gm_wf_set)

text \<open>An error answer, with or without a header before it, is an answer.\<close>

lemma http_Error_answered: "unwritten w \<Longrightarrow> answered w (http_Error msg code w)"
  by (auto simp: writer_defs gomap_simps gm_wf_set Let_def)

lemma answered_header_set:
  "unwritten w \<Longrightarrow> k \<noteq> ''X-Request-ID'' \<Longrightarrow> answered (header_set k v w) w' \<Longrightarrow> answered w w'"
  by (auto simp: answered_def unwritten_def header_set_def gomap_simps)

lemma WriteHeader_answered: "unwritten w \<Longrightarrow> answered w (WriteHeader st w)"
  by (simp add: writer_defs)

lemma write_body_answered: "answered w w' \<Longrightarrow> answered w (write_body t w')"
  by (auto simp: writer_defs Let_def)

text \<open>The middlewares in front of a route keep the contract.\<close>

lemma answering_apiKeyAuth: "answering h \<Longrightarrow> answering (apiKeyAuth k h)"
  by unfold_locales
    (auto simp: apiKeyAuth_def Let_def http_Error_answered split: if_splits
      dest: answering.answers answering.keeps_log)

lemma answering_webhookAuth: "answering h \<Longrightarrow> answering (webhookAuth k h)"
  by unfold_locales
    (auto simp: webhookAuth_def Let_def http_Error_answered split: if_splits option.splits sum.splits
      dest: answering.answers answering.keeps_log)

section \<open>Handlers that enqueue nothing\<close>

locale job_neutral =
  fixes h :: "'w handler"
  assumes keeps_jobs: "h env r w s = (res, w', s') \<Longrightarrow> ss_jobs s' = ss_jobs s"
begin

lemma serve_keeps_jobs: "ss_jobs (snd (serve h env r s)) = ss_jobs s"
  by (cases "h env r fresh_writer s") (auto simp: serve_def dest: keeps_jobs split: go_result.splits)

end

lemma job_neutral_webhookAuth: "job_neutral h \<Longrightarrow> job_neutral (webhookAuth k h)"
  by unfold_locales
    (auto simp: webhookAuth_def Let_def split: if_splits option.splits sum.splits dest: job_neutral.keeps_jobs)

lemma job_neutral_apiKeyAuth: "job_neutral h \<Longrightarrow> job_neutral (apiKeyAuth k h)"
  by unfold_locales (auto simp: apiKeyAuth_def Let_def split: if_splits dest: job_neutral.keeps_jobs)

section \<open>Properties of the webhook check\<close>

text \<open>C12: the webhook check decides exactly by \<open>webhook_valid\<close>. A request whose secret, timestamp,
  body and signature are in order goes on to the handler unchanged; every other one is
  answered without the handler: 400 when it carries a signature and a fresh timestamp but its
  body cannot be read, 401 otherwise.\<close>

theorem webhookAuth_gate:
  "webhookAuth secret nxt env r w s =
    (if webhook_valid secret (he_now env) r then nxt env r w s
     else if secret \<noteq> [] \<and> (\<exists>e. read_all r = Inl e) \<and> header_get (rq_headers r) ''HB-Signature'' \<noteq> [] \<and>
        (case parse_int64 (header_get (rq_headers r) ''HB-Timestamp'') of None \<Rightarrow> False
         | Some ts \<Rightarrow> he_now env - time_Unix ts \<le> 60 * nanos_per_second)
     then (Returns (), http_Error ''bad request'' 400 w, s)
     else (Returns (), http_Error ''unauthorized'' 401 w, s))"
  by (rule webhook_cases)

text \<open>C32: the tolerance bounds the age of a webhook, not its distance. A request accepted at some
  time is accepted at every earlier time, however far its timestamp lies ahead then: signed
  once with a late timestamp it stays valid until a minute after that.\<close>

theorem webhook_has_no_upper_bound:
  assumes "webhook_valid secret now r" and "he_now env \<le> now"
  shows "webhookAuth secret nxt env r w s = nxt env r w s"
proof -
  have "webhook_valid secret (he_now env) r"
    using assms by (auto simp: webhook_valid_def Let_def split: option.splits sum.splits)
  then show ?thesis by (simp add: webhook_cases)
qed

definition sample_http_env :: "http_request list http_env" where
  "sample_http_env =
     \<lparr>he_vcd = sample_vcd_env answer_empty, he_random = replicate 16 (chr 7), he_now = 63900000000 * nanos_per_second,
      he_ping = None, he_begin = None, he_insert = (\<lambda>_. Inr 42), he_commit = None,
      he_redirect = (\<lambda>p. (307, p, []))\<rparr>"

definition sample_request :: request where
  "sample_request = \<lparr>rq_method = ''POST'', rq_path = ''/x'', rq_escaped = ''/x'', rq_headers = [],
     rq_body = Inr ''{}'', rq_read_err = None, rq_id = None\<rparr>"

definition far_future_webhook :: request where
  "far_future_webhook = sample_request\<lparr>rq_headers :=
     [(''HB-Timestamp'', ''9999999999''), (''HB-Signature'', webhook_signature ''k'' ''9999999999'' ''{}'')]\<rparr>"

lemma header_get_Cons:
  "header_get ((n, v) # hs) k = (if map lower_char n = map lower_char k then v else header_get hs k)"
  by (simp add: header_get_def)

lemma webhook_header_names: "map lower_char ''HB-Timestamp'' \<noteq> map lower_char ''HB-Signature''"
proof -
  have "lower_char CHR ''T'' \<noteq> lower_char CHR ''S''" by (simp add: lower_char_def)
  then show ?thesis by simp
qed

lemma far_future_headers:
  "header_get (rq_headers far_future_webhook) ''HB-Timestamp'' = ''9999999999''"
  "header_get (rq_headers far_future_webhook) ''HB-Signature'' = webhook_signature ''k'' ''9999999999'' ''{}''"
proof -
  have h: "rq_headers far_future_webhook =
      [(''HB-Timestamp'', ''9999999999''), (''HB-Signature'', webhook_signature ''k'' ''9999999999'' ''{}'')]"
    by (simp add: far_future_webhook_def)
  show "header_get (rq_headers far_future_webhook) ''HB-Timestamp'' = ''9999999999''"
    unfolding h header_get_Cons by (simp only: simp_thms if_True)
  show "header_get (rq_headers far_future_webhook) ''HB-Signature'' = webhook_signature ''k'' ''9999999999'' ''{}''"
    unfolding h header_get_Cons using webhook_header_names by (simp only: simp_thms if_True if_False)
qed

lemma far_future_body: "read_all far_future_webhook = Inr ''{}''"
  by (simp add: read_all_def far_future_webhook_def sample_request_def)

definition sample_server :: "http_request list server_state" where
  "sample_server = \<lparr>ss_vcd = Some sample_client, ss_world = [], ss_jobs = [], ss_log = []\<rparr>"

lemma webhook_has_no_upper_bound_witness:
  "he_now sample_http_env < time_Unix 9999999999 - 8000000000 * nanos_per_second \<and>
   webhookAuth ''k'' (\<lambda>env r w s. (Returns (), w, s)) sample_http_env far_future_webhook fresh_writer sample_server =
     (Returns (), fresh_writer, sample_server)"
proof -
  have ts: "parse_int64 ''9999999999'' = Some 9999999999"
    by (simp add: parse_int64_def Let_def is_digit_def digits_value_def)
  have "webhook_valid ''k'' (time_Unix 9999999999) far_future_webhook"
    by (simp add: webhook_valid_def far_future_headers far_future_body ts nanos_per_second_def)
  then show ?thesis
    using webhook_has_no_upper_bound [of "''k''" "time_Unix 9999999999" far_future_webhook sample_http_env]
    by (simp add: sample_http_env_def time_Unix_def unix_to_internal_def nanos_per_second_def)
qed

end
