(* ===== verification/Handlers.thy ===== *)
theory Handlers
  imports Middleware HttpTypes
begin

text \<open>
  The request handlers: \<open>encode.go\<close> (\<open>encode\<close>), \<open>handlers.go\<close>, \<open>handle_onboard_org.go\<close> and the
  five webhook handlers, which are stubs. Logging inside the handlers is left out.
\<close>

definition encode :: "int \<Rightarrow> response \<Rightarrow> resp_writer \<Rightarrow> resp_writer" where
  "encode status v w =
     write_body (response_json v @ [chr 10])
       (WriteHeader status (header_set ''Content-Type'' ''application/json'' w))"

definition failure :: "string \<Rightarrow> string gomap option \<Rightarrow> response" where
  "failure err problems = Failure \<lparr>er_Error = err, er_Problems = problems\<rparr>"

section \<open>Health and echo\<close>

definition handleReady :: "'w handler" where
  "handleReady env r w s =
     (case he_ping env of
        Some e \<Rightarrow> (Returns (), encode 503 (Ready \<lparr>rr_Status = ''unavailable''\<rparr>) w, s)
      | None \<Rightarrow> (Returns (), encode 200 (Ready \<lparr>rr_Status = ''ok''\<rparr>) w, s))"

definition handleHealth :: "AppConfig \<Rightarrow> 'w handler" where
  "handleHealth cfg env r w s =
     (let dbStatus = (case he_ping env of None \<Rightarrow> ''up'' | Some e \<Rightarrow> ''down'')
      in (Returns (),
          encode 200 (Health \<lparr>hp_Status = ''healthy'', hp_Version = cf_Version cfg,
            hp_Commit = cf_Commit cfg, hp_BuildTime = cf_BuildTime cfg, hp_Database = dbStatus\<rparr>) w, s))"

definition decode_echo :: "go_lib \<Rightarrow> body_stream \<Rightarrow> EchoRequest \<times> string gomap option \<times> go_error option" where
  "decode_echo U = decodeValid U ''httpapi.EchoRequest'' (dec_EchoRequest U) zero_EchoRequest Valid_Echo"

definition handleEcho :: "'w handler" where
  "handleEcho env r w s =
     (let reqID = RequestID r
      in case decode_echo (he_lib env) (rq_body r) of
        (req, problems, Some e) \<Rightarrow>
          (case problems of
             Some m \<Rightarrow>
               if 0 < length m then (Returns (), encode 422 (failure ''validation failed'' problems) w, s)
               else (Returns (), encode 400 (failure ''invalid json'' None) w, s)
           | None \<Rightarrow> (Returns (), encode 400 (failure ''invalid json'' None) w, s))
      | (req, problems, None) \<Rightarrow>
          (Returns (), encode 200 (Echo \<lparr>ep_Echo = eq_Message req, ep_RequestID = reqID\<rparr>) w, s))"

section \<open>Onboarding\<close>

definition decode_onboard :: "go_lib \<Rightarrow> body_stream \<Rightarrow>
    OnboardOrgRequest \<times> string gomap option \<times> go_error option" where
  "decode_onboard U =
     decodeValid U ''httpapi.OnboardOrgRequest'' (dec_OnboardOrgRequest U) zero_OnboardOrgRequest Valid_OnboardOrg"

definition onboard_args_of :: "OnboardOrgRequest \<Rightarrow> OnboardOrgArgs" where
  "onboard_args_of req =
     \<lparr>oa_ClientID = oq_ClientID req,
      oa_OrganizationName = oq_OrganizationName req,
      oa_ClientUsername = oq_ClientUsername req,
      oa_ClientFirstName = oq_ClientFirstName req,
      oa_ClientLastName = oq_ClientLastName req,
      oa_ClientEmail = oq_ClientEmail req,
      oa_AccountID = oq_AccountID req,
      oa_Country = oq_Country req,
      oa_State = oq_State req,
      oa_PostalCode = oq_PostalCode req,
      oa_MaxZertoStorage = oq_MaxZertoStorage req,
      oa_MaxZertoVMs = oq_MaxZertoVMs req,
      oa_Bandwidth = oq_Bandwidth req,
      oa_ProductID = oq_ProductID req\<rparr>"

text \<open>The transaction: begin, insert, commit. Every failure before the commit rolls back. The
  result is the answer to send; the second component are the committed jobs.\<close>

definition enqueue :: "'w http_env \<Rightarrow> job_args \<Rightarrow> (int64 \<times> job_args) list \<Rightarrow>
    (int \<times> response) \<times> (int64 \<times> job_args) list" where
  "enqueue env args jobs =
     (case he_begin env of
        Some e \<Rightarrow> ((500, failure ''internal error'' None), jobs)
      | None \<Rightarrow>
          (case he_insert env args of
             Inl e \<Rightarrow> ((500, failure ''failed to enqueue job'' None), jobs)
           | Inr jid \<Rightarrow>
               (case he_commit env of
                  Some (e, applied) \<Rightarrow>
                    ((500, failure ''internal error'' None), if applied then jobs @ [(jid, args)] else jobs)
                | None \<Rightarrow>
                    ((202, JobAccepted \<lparr>ja_JobID = jid, ja_WorkflowID = []\<rparr>), jobs @ [(jid, args)]))))"

definition handleOnboardOrg :: "'w handler" where
  "handleOnboardOrg env r w s =
     (let U = he_lib env
      in case decode_onboard U (rq_body r) of
        (req, problems, Some e) \<Rightarrow>
          (case problems of
             Some m \<Rightarrow> (Returns (), encode 422 (failure ''validation failed'' problems) w, s)
           | None \<Rightarrow>
               (case err_text U e of
                  Panics m \<Rightarrow> (Panics m, w, s)
                | Returns t \<Rightarrow> (Returns (), encode 400 (failure t None) w, s)))
      | (req, problems, None) \<Rightarrow>
          (case ss_vcd s of
             None \<Rightarrow> (Returns (), encode 503 (failure ''vcd client not configured'' None) w, s)
           | Some c \<Rightarrow>
               (case GetOrganization (he_vcd env) (oq_ClientID req) c (ss_world s) of
                  (org, c', world') \<Rightarrow>
                    (let s1 = s\<lparr>ss_vcd := Some c', ss_world := world'\<rparr>
                     in case org of
                       Inl e \<Rightarrow>
                         (case err_text U e of
                            Panics m \<Rightarrow> (Panics m, w, s1)
                          | Returns t \<Rightarrow>
                              (Returns (), encode 502 (failure (''vcd lookup failed: '' @ t) None) w, s1))
                     | Inr _ \<Rightarrow>
                         (case enqueue env (OnboardOrg (onboard_args_of req)) (ss_jobs s1) of
                            ((status, v), jobs) \<Rightarrow>
                              (Returns (), encode status v w, s1\<lparr>ss_jobs := jobs\<rparr>))))))"

section \<open>Webhooks\<close>

definition not_implemented :: "'w handler" where
  "not_implemented env r w s = (Returns (), http_Error (StatusText 501) 501 w, s)"

definition handleDeboardOrg :: "'w handler" where "handleDeboardOrg = not_implemented"
definition handleOnboardContact :: "'w handler" where "handleOnboardContact = not_implemented"
definition handleDeboardContact :: "'w handler" where "handleDeboardContact = not_implemented"
definition handlePWChange :: "'w handler" where "handlePWChange = not_implemented"
definition handleBandwidthUpdate :: "'w handler" where "handleBandwidthUpdate = not_implemented"

lemmas hook_defs = handleDeboardOrg_def handleOnboardContact_def handleDeboardContact_def
  handlePWChange_def handleBandwidthUpdate_def

section \<open>The handlers keep the contracts\<close>

lemma encode_answered: "unwritten w \<Longrightarrow> answered w (encode st v w)"
  by (auto simp: encode_def writer_defs Let_def gomap_simps gm_wf_set)

interpretation ready: answering handleReady
  by unfold_locales (auto simp: handleReady_def encode_answered split: option.splits)

interpretation health: answering "handleHealth cfg" for cfg
  by unfold_locales (auto simp: handleHealth_def encode_answered Let_def)

interpretation echo: answering handleEcho
  by unfold_locales
    (auto simp: handleEcho_def encode_answered Let_def split: prod.splits option.splits if_splits)

interpretation stub: answering not_implemented
  by unfold_locales (auto simp: not_implemented_def http_Error_answered)

interpretation ready_jobs: job_neutral handleReady
  by unfold_locales (auto simp: handleReady_def split: option.splits)

interpretation health_jobs: job_neutral "handleHealth cfg" for cfg
  by unfold_locales (auto simp: handleHealth_def Let_def)

interpretation echo_jobs: job_neutral handleEcho
  by unfold_locales (auto simp: handleEcho_def Let_def split: prod.splits option.splits if_splits)

interpretation stub_jobs: job_neutral not_implemented
  by unfold_locales (auto simp: not_implemented_def)

text \<open>The errors the onboarding handler prints are wrapped ones, so printing them cannot panic.\<close>

lemma decodeValid_text:
  "decodeValid U ty dec zero valid body = (v, None, Some e) \<Longrightarrow> \<exists>t. err_text U' e = Returns t"
  by (auto simp: decodeValid_def err_simps split: prod.splits option.splits if_splits)

lemma GetOrganization_text:
  "GetOrganization V n c x = (Inl e, c', x') \<Longrightarrow> \<exists>t. err_text U e = Returns t"
  by (auto simp: GetOrganization_def Let_def err_simps split: prod.splits option.splits list.splits)

interpretation onboard: answering handleOnboardOrg
proof unfold_locales
  fix env :: "'a http_env" and r w s res w' s'
  assume "handleOnboardOrg env r w s = (res, w', s')"
  then show "ss_log s' = ss_log s"
    by (auto simp: handleOnboardOrg_def Let_def split: prod.splits option.splits sum.splits go_result.splits)
next
  fix env :: "'a http_env" and r w s res w' s'
  assume u: "unwritten w" and h: "handleOnboardOrg env r w s = (res, w', s')"
  have a: "answered w (encode st v w)" for st v by (rule encode_answered [OF u])
  from h show "res = Returns () \<and> answered w w'"
    by (auto simp: handleOnboardOrg_def Let_def decode_onboard_def a
        split: prod.splits option.splits sum.splits go_result.splits
        dest: decodeValid_text [of _ _ _ _ _ _ _ _ "he_lib env"] GetOrganization_text [of _ _ _ _ _ _ _ "he_lib env"])
qed

section \<open>When onboarding is accepted\<close>

lemma encode_status: "unwritten w \<Longrightarrow> rw_status (encode st v w) = Some st"
  "unwritten w \<Longrightarrow> rw_body (encode st v w) = rw_body w @ response_json v @ [chr 10]"
  by (simp_all add: encode_def writer_defs Let_def)

lemma enqueue_result:
  "enqueue env a jobs = ((st, v), jobs') \<Longrightarrow>
    (st = 202) = (he_begin env = None \<and> (\<exists>jid. he_insert env a = Inr jid) \<and> he_commit env = None) \<and>
    (st = 202 \<longrightarrow> (\<exists>jid. he_insert env a = Inr jid \<and> v = JobAccepted \<lparr>ja_JobID = jid, ja_WorkflowID = []\<rparr> \<and>
        jobs' = jobs @ [(jid, a)])) \<and>
    (st \<noteq> 202 \<longrightarrow> st = 500 \<and> (jobs' = jobs \<or> (\<exists>e jid. he_commit env = Some (e, True) \<and>
        he_insert env a = Inr jid \<and> jobs' = jobs @ [(jid, a)])))"
  by (auto simp: enqueue_def split: option.splits sum.splits if_splits)

lemma decode_onboard_cases:
  obtains (malformed) req e t where "decode_onboard U body = (req, None, Some e)" "err_text U e = Returns t"
    | (invalid) req m e where "decode_onboard U body = (req, Some m, Some e)"
    | (ok) req where "decode_onboard U body = (req, None, None)" "Valid_OnboardOrg req = None"
proof -
  obtain req ps err where d: "decode_onboard U body = (req, ps, err)" by (metis prod_cases3)
  show thesis
    using d[unfolded decode_onboard_def]
  proof (cases rule: onboard_org_request.decodeValid_cases)
    case (malformed e)
    with d that(1) show thesis by (simp add: err_simps)
  next
    case (invalid m)
    with d that(2) show thesis by simp
  next
    case ok
    with d that(3) show thesis by simp
  qed
qed

text \<open>The handler after a valid request, by what VCD says.\<close>

lemma handleOnboardOrg_found:
  assumes "decode_onboard (he_lib env) (rq_body r) = (req, None, None)" and "ss_vcd s = Some c"
    and "GetOrganization (he_vcd env) (oq_ClientID req) c (ss_world s) = (Inr org, c', x')"
    and "enqueue env (OnboardOrg (onboard_args_of req)) (ss_jobs s) = ((st, v), jobs)"
  shows "handleOnboardOrg env r w s =
    (Returns (), encode st v w, s\<lparr>ss_vcd := Some c', ss_world := x', ss_jobs := jobs\<rparr>)"
  using assms by (simp add: handleOnboardOrg_def Let_def)

text \<open>The two kinds of outcome: rejected before the queue is touched, or what \<open>enqueue\<close> says.\<close>

lemma onboard_cases:
  assumes h: "handleOnboardOrg env r w s = (res, w', s')" and u: "unwritten w"
  obtains (rejected) "ss_jobs s' = ss_jobs s" "rw_status w' \<noteq> Some 202"
      "\<And>req c org c' x'. decode_onboard (he_lib env) (rq_body r) = (req, None, None) \<Longrightarrow> ss_vcd s = Some c \<Longrightarrow>
        GetOrganization (he_vcd env) (oq_ClientID req) c (ss_world s) \<noteq> (Inr org, c', x')"
    | (found) req c org c' code v where "decode_onboard (he_lib env) (rq_body r) = (req, None, None)"
      "ss_vcd s = Some c" "GetOrganization (he_vcd env) (oq_ClientID req) c (ss_world s) = (Inr org, c', ss_world s')"
      "enqueue env (OnboardOrg (onboard_args_of req)) (ss_jobs s) = ((code, v), ss_jobs s')" "w' = encode code v w"
proof (cases rule: decode_onboard_cases [of "he_lib env" "rq_body r"])
  case (malformed req e t)
  with h show thesis by (intro rejected) (auto simp: handleOnboardOrg_def encode_status(1) [OF u])
next
  case (invalid req m e)
  with h show thesis by (intro rejected) (auto simp: handleOnboardOrg_def encode_status(1) [OF u])
next
  case (ok req)
  show thesis
  proof (cases "ss_vcd s")
    case None
    with h ok(1) show thesis by (intro rejected) (auto simp: handleOnboardOrg_def encode_status(1) [OF u])
  next
    case (Some c)
    obtain org c' x' where g: "GetOrganization (he_vcd env) (oq_ClientID req) c (ss_world s) = (org, c', x')"
      by (metis prod_cases3)
    show thesis
    proof (cases org)
      case (Inl e)
      from GetOrganization_text [OF g[unfolded Inl]] obtain t where "err_text (he_lib env) e = Returns t" by blast
      with h ok(1) Some g Inl show thesis
        by (intro rejected) (auto simp: handleOnboardOrg_def encode_status(1) [OF u])
    next
      case (Inr og)
      obtain code v jobs where q: "enqueue env (OnboardOrg (onboard_args_of req)) (ss_jobs s) = ((code, v), jobs)"
        by (metis prod.exhaust)
      from handleOnboardOrg_found [OF ok(1) Some g[unfolded Inr] q, of w] h
      show thesis using ok(1) Some g Inr q by (intro found) auto
    qed
  qed
qed

text \<open>
  The stages of an onboarding request, stated without the answer: the body decodes to \<open>req\<close> and
  validates, a VCD client is configured, the lookup of \<open>crm_id\<close> finds an organization, and the
  transaction begins, inserts job \<open>jid\<close> with the request's values, and commits.
\<close>

definition stages_succeed ::
  "'w http_env \<Rightarrow> request \<Rightarrow> 'w server_state \<Rightarrow> OnboardOrgRequest \<Rightarrow> int64 \<Rightarrow> bool" where
  "stages_succeed env r s req jid \<longleftrightarrow>
     decode_onboard (he_lib env) (rq_body r) = (req, None, None) \<and>
     (\<exists>c org c' x'. ss_vcd s = Some c \<and>
        GetOrganization (he_vcd env) (oq_ClientID req) c (ss_world s) = (Inr org, c', x')) \<and>
     he_begin env = None \<and> he_insert env (OnboardOrg (onboard_args_of req)) = Inr jid \<and> he_commit env = None"

text \<open>C6: a 202 means an enqueued job. The onboarding handler answers 202 exactly when every stage
  succeeds: the body decodes and validates, a VCD client is configured and finds the organization
  named by \<open>crm_id\<close>, and beginning, inserting and committing succeed. Then exactly one job is
  added at the end, with the id the answer names and the request's values as arguments. With any
  other answer the jobs are unchanged, unless the commit reported an error although it was
  applied: then the answer is 500 and the jobs have that one job more.\<close>

theorem onboard_accepted_iff_enqueued:
  assumes "handleOnboardOrg env r w s = (res, w', s')" and "unwritten w"
  shows "(rw_status w' = Some 202) = (\<exists>req jid. stages_succeed env r s req jid) \<and>
    (\<forall>req jid. stages_succeed env r s req jid \<longrightarrow>
      ss_jobs s' = ss_jobs s @ [(jid, OnboardOrg (onboard_args_of req))] \<and>
      rw_body w' = rw_body w @ response_json (JobAccepted \<lparr>ja_JobID = jid, ja_WorkflowID = []\<rparr>) @ [chr 10]) \<and>
    (rw_status w' = Some 202 \<or> ss_jobs s' = ss_jobs s \<or>
      rw_status w' = Some 500 \<and> (\<exists>e. he_commit env = Some (e, True)) \<and>
      (\<exists>req jid. decode_onboard (he_lib env) (rq_body r) = (req, None, None) \<and>
        he_insert env (OnboardOrg (onboard_args_of req)) = Inr jid \<and>
        ss_jobs s' = ss_jobs s @ [(jid, OnboardOrg (onboard_args_of req))]))"
  using assms
proof (cases rule: onboard_cases)
  case rejected
  then have "\<not> stages_succeed env r s req jid" for req jid
    by (auto simp: stages_succeed_def)
  with rejected(1,2) show ?thesis by simp
next
  case (found req c org c' code v)
  have stages: "stages_succeed env r s req' jid \<longleftrightarrow> req' = req \<and> he_begin env = None \<and>
      he_insert env (OnboardOrg (onboard_args_of req)) = Inr jid \<and> he_commit env = None" for req' jid
    using found(1-3) by (auto simp: stages_succeed_def)
  from enqueue_result [OF found(4)] found(1) show ?thesis
    unfolding stages found(5) encode_status [OF assms(2)] by auto
qed

text \<open>A request HostBill may send, and a VCD that lists one organization.\<close>

definition sample_members :: "(string \<times> string \<times> json) list" where
  "sample_members =
     [(''crm_id'', enc_string ''acme'', JStr (to_valid ''acme'')),
      (''client_first_name'', enc_string ''Ann'', JStr (to_valid ''Ann'')),
      (''client_last_name'', enc_string ''Lee'', JStr (to_valid ''Lee'')),
      (''client_email'', enc_string ''a@b'', JStr (to_valid ''a@b'')),
      (''bandwidth'', enc_string ''1G'', JStr (to_valid ''1G'')),
      (''account_id'', itoa 7, JNum (itoa 7))]"

definition sample_onboard :: OnboardOrgRequest where
  "sample_onboard = zero_OnboardOrgRequest\<lparr>oq_ClientID := ''acme'', oq_ClientFirstName := ''Ann'',
     oq_ClientLastName := ''Lee'', oq_ClientEmail := ''a@b'', oq_Bandwidth := ''1G'', oq_AccountID := 7\<rparr>"

definition onboard_request :: request where
  "onboard_request = sample_request\<lparr>rq_path := ''/api/v1/script/onboard-org'',
     rq_escaped := ''/api/v1/script/onboard-org'', rq_headers := [(''X-API-Key'', ''k'')],
     rq_body := Inr (enc_object (member_texts sample_members))\<rparr>"

definition answer_org :: "http_request \<Rightarrow> http_response" where
  "answer_org req = \<lparr>hs_status = 200, hs_headers = [], hs_body = enc_object [(''values'', enc_array [enc_object []])],
     hs_read_err = None\<rparr>"

definition org_http_env :: "http_request list http_env" where
  "org_http_env = sample_http_env\<lparr>he_vcd := sample_vcd_env answer_org\<rparr>"

lemma sample_onboard_decodes:
  "decode_onboard (he_lib org_http_env) (rq_body onboard_request) = (sample_onboard, None, None)"
proof -
  have k: "to_valid t = t" if "ascii t" for t using that by (simp add: to_valid_id utf8_valid_ascii)
  have "scalar_members sample_members"
    using scalar_text_itoa [of 7] by (simp add: scalar_members_def sample_members_def scalar_text_string)
  from json_decode_enc_object [OF this, of "[]"]
  have "json_decode (enc_object (member_texts sample_members)) = Some (JObj (map (\<lambda>(k, t, v). (to_valid k, v)) sample_members))"
    by simp
  also have "map (\<lambda>(k, t, v). (to_valid k, v)) sample_members =
      [(''crm_id'', JStr ''acme''), (''client_first_name'', JStr ''Ann''), (''client_last_name'', JStr ''Lee''),
       (''client_email'', JStr ''a@b''), (''bandwidth'', JStr ''1G''), (''account_id'', JNum (itoa 7))]"
    by (simp add: sample_members_def k ascii_def)
  finally have j: "json_decode (enc_object (member_texts sample_members)) = Some (JObj
      [(''crm_id'', JStr ''acme''), (''client_first_name'', JStr ''Ann''), (''client_last_name'', JStr ''Lee''),
       (''client_email'', JStr ''a@b''), (''bandwidth'', JStr ''1G''), (''account_id'', JNum (itoa 7))])" .
  have seven: "dec_int (JNum (itoa 7)) v = (7, False)" for v
    using dec_int_itoa [of 7 v] by simp
  have "json_decode_into (he_lib org_http_env) ''httpapi.OnboardOrgRequest''
      (dec_OnboardOrgRequest (he_lib org_http_env)) (rq_body onboard_request) zero_OnboardOrgRequest = (None, sample_onboard)"
    by (simp add: json_decode_into_def onboard_request_def j dec_OnboardOrgRequest_def find_field_def on_field_def
        seven sample_onboard_def zero_OnboardOrgRequest_def del: dec_int.simps)
  moreover have "Valid_OnboardOrg sample_onboard = None"
    by (simp add: Valid_OnboardOrg_def sample_onboard_def zero_OnboardOrgRequest_def problem_if_def problems_or_nil_def)
  ultimately show ?thesis unfolding decode_onboard_def by (simp add: onboard_org_request.decodeValid_ok_iff)
qed

lemma sample_org_json:
  "json_parse (enc_object [(''values'', enc_array [enc_object []])]) = Some (JObj [(''values'', JArr [JObj []])])"
proof -
  have "value_text 1 1 (enc_object []) (JObj [])"
    using value_text_object [of 0 0 "[]"] by (simp add: value_members_def)
  then have "value_text 3 2 (enc_array [enc_object []]) (JArr [JObj []])"
    using value_text_array [of 1 1 "[(enc_object [], JObj [])]"] by (simp add: enc_object_def numeral_eq_Suc)
  then have "value_members 3 2 [(''values'', enc_array [enc_object []], JArr [JObj []])]"
    by (simp add: value_members_def)
  from json_parse_text [OF value_text_object [OF this], of "[]"]
  show "json_parse (enc_object [(''values'', enc_array [enc_object []])]) = Some (JObj [(''values'', JArr [JObj []])])"
    by (simp add: max_depth_def skip_ws_def to_valid_id utf8_valid_ascii ascii_def)
qed

lemma sample_org_found:
  "\<exists>org c' x'. GetOrganization (he_vcd org_http_env) ''acme'' sample_client [] = (Inr org, c', x')"
proof -
  let ?V = "sample_vcd_env answer_org"
  let ?zero = "\<lparr>ds_client = sample_client, ds_body = None, ds_result = zero_organizationResult, ds_world = []\<rparr>"
  note p = sample_org_json
  obtain s where att: "do_attempt ?V ''GET'' (org_path ''acme'') (Some (''*vcd.organizationResult'', dec_organizationResult ascii_tables))
      ?zero = (None, s)" and v: "slice_elems (or_Values (ds_result s)) \<noteq> []"
    by (simp add: do_attempt_def Let_def getToken_def sample_client_def sample_vcd_env_def recording_def
        answer_org_def decodeJSON_def json_unmarshal_def p dec_organizationResult_def dec_Organization_def
        find_field_def on_field_def zero_organizationResult_def slice_elems_def)
  have "vcd_do ?V ''GET'' (org_path ''acme'') None
      (Some (''*vcd.organizationResult'', dec_organizationResult (ve_lib ?V))) zero_organizationResult sample_client [] = (None, s, [])"
    using att by (simp add: vcd_do_def retry_Do_3) (simp add: sample_vcd_env_def)
  with v show ?thesis
    by (cases "slice_elems (or_Values (ds_result s))") (simp_all add: GetOrganization_def Let_def org_http_env_def)
qed

lemma sample_onboard_enqueued:
  assumes "rq_body r = rq_body onboard_request"
  shows "\<exists>w' s'. handleOnboardOrg org_http_env r w sample_server = (Returns (), w', s') \<and>
    ss_jobs s' = [(42, OnboardOrg (onboard_args_of sample_onboard))]"
proof -
  have cid: "oq_ClientID sample_onboard = ''acme''" by (simp add: sample_onboard_def)
  have srv: "ss_vcd sample_server = Some sample_client" "ss_world sample_server = []" "ss_jobs sample_server = []"
    by (simp_all add: sample_server_def)
  have env: "he_begin org_http_env = None" "he_commit org_http_env = None" "he_insert org_http_env a = Inr 42" for a
    by (simp_all add: org_http_env_def sample_http_env_def)
  obtain org c' x' where g: "GetOrganization (he_vcd org_http_env) (oq_ClientID sample_onboard) sample_client [] = (Inr org, c', x')"
    using sample_org_found cid by metis
  obtain code v jobs where q: "enqueue org_http_env (OnboardOrg (onboard_args_of sample_onboard)) (ss_jobs sample_server) =
      ((code, v), jobs)" by (metis prod.exhaust)
  have "jobs = [(42, OnboardOrg (onboard_args_of sample_onboard))]"
    using enqueue_result [OF q] env srv by auto
  with handleOnboardOrg_found [OF sample_onboard_decodes[folded assms] srv(1) g[folded srv(2)] q, of w]
  show ?thesis by auto
qed

lemma onboard_accepted_iff_enqueued_witness:
  "ss_jobs (snd (snd (handleOnboardOrg org_http_env onboard_request fresh_writer sample_server))) =
      [(42, OnboardOrg (onboard_args_of sample_onboard))] \<and>
   rw_status (fst (snd (handleOnboardOrg org_http_env onboard_request fresh_writer sample_server))) = Some 202"
proof -
  obtain w' s' where h: "handleOnboardOrg org_http_env onboard_request fresh_writer sample_server = (Returns (), w', s')"
    and j: "ss_jobs s' = [(42, OnboardOrg (onboard_args_of sample_onboard))]"
    using sample_onboard_enqueued [OF refl, of fresh_writer] by blast
  have u: "unwritten fresh_writer" by (simp add: unwritten_def fresh_writer_def)
  have "he_commit org_http_env = None" "ss_jobs sample_server = []"
    by (simp_all add: org_http_env_def sample_http_env_def sample_server_def)
  with onboard_accepted_iff_enqueued [OF h u] j show ?thesis by (auto simp: h)
qed

end
