(* ===== verification/Server.thy ===== *)
theory Server
  imports Handlers
begin

text \<open>
  \<open>routes.go\<close> and \<open>server.go\<close>: the route table, the order of the global middlewares, and what
  holds of the whole server: it answers and logs every request once, and only an
  authenticated onboarding request can enqueue a job.
\<close>

section \<open>Routes\<close>

fun register :: "(string \<times> string \<times> 'w handler) list \<Rightarrow> 'w mux \<Rightarrow> 'w mux go_result" where
  "register [] mux = Returns mux"
| "register ((m, p, h) # rs) mux =
     (case mux_Handle m p h mux of
        Panics e \<Rightarrow> Panics e
      | Returns mux' \<Rightarrow> register rs mux')"

definition onboard_route :: string where
  "onboard_route = ''/api/v1/script/onboard-org''"

definition routes :: "AppConfig \<Rightarrow> (string \<times> string \<times> 'w handler) list" where
  "routes cfg =
     (let withAPIKey = apiKeyAuth (cf_APIKey cfg); hooks = cf_Hooks cfg
      in [(''GET'', ''/ready'', handleReady),
          (''GET'', ''/health'', handleHealth cfg),
          (''POST'', ''/api/v1/echo'', withAPIKey handleEcho),
          (''POST'', onboard_route, withAPIKey handleOnboardOrg),
          (''POST'', ''/hooks/deboard-org'', webhookAuth (hk_DeboardOrg hooks) handleDeboardOrg),
          (''POST'', ''/hooks/onboard-contact'', webhookAuth (hk_OnboardContact hooks) handleOnboardContact),
          (''POST'', ''/hooks/deboard-contact'', webhookAuth (hk_DeboardContact hooks) handleDeboardContact),
          (''POST'', ''/hooks/update-pw'', webhookAuth (hk_UpdatePW hooks) handlePWChange),
          (''POST'', ''/hooks/update-bandwidth'', webhookAuth (hk_UpdateBandwidth hooks) handleBandwidthUpdate)])"

definition addRoutes :: "AppConfig \<Rightarrow> 'w mux \<Rightarrow> 'w mux go_result" where
  "addRoutes cfg mux = register (routes cfg) mux"

definition NewServer :: "AppConfig \<Rightarrow> 'w handler go_result" where
  "NewServer cfg =
     (case addRoutes cfg [] of
        Panics m \<Rightarrow> Panics m
      | Returns mux \<Rightarrow>
          (let handler1 = panicRecovery (mux_ServeHTTP mux);
               handler2 = requestLogger handler1;
               handler3 = (if cf_Env cfg \<noteq> ''prod'' then devCORS handler2 else handler2)
           in Returns (requestID handler3)))"

section \<open>The table is well-formed\<close>

lemma addRoutes_ok: "addRoutes cfg [] = Returns (routes cfg)"
  by (simp add: addRoutes_def routes_def Let_def mux_Handle_def onboard_route_def)

lemma routes_answering: "(m, p, h) \<in> set (routes cfg) \<Longrightarrow> answering h"
  by (auto simp: routes_def Let_def hook_defs intro!: answering_apiKeyAuth answering_webhookAuth
      ready.answering_axioms health.answering_axioms echo.answering_axioms onboard.answering_axioms
      stub.answering_axioms)

lemma routes_job_neutral:
  "(m, p, h) \<in> set (routes cfg) \<Longrightarrow> p \<noteq> onboard_route \<Longrightarrow> job_neutral h"
  by (auto simp: routes_def Let_def hook_defs intro!: job_neutral_apiKeyAuth job_neutral_webhookAuth
      ready_jobs.job_neutral_axioms health_jobs.job_neutral_axioms echo_jobs.job_neutral_axioms
      stub_jobs.job_neutral_axioms)

lemma mux_lookup_Some:
  "mux_lookup mux meth escaped = Some h \<Longrightarrow>
    \<exists>p. (meth, p, h) \<in> set mux \<and> route_matches p escaped"
  by (induction mux meth escaped rule: mux_lookup.induct) (auto split: if_splits)

lemma mux_find_Some:
  "mux_find mux meth escaped = Some h \<Longrightarrow>
    \<exists>m p. (m, p, h) \<in> set mux \<and> route_matches p escaped \<and> (m = meth \<or> m = ''GET'' \<and> meth = ''HEAD'')"
  by (auto simp: mux_find_def split: option.splits if_splits dest!: mux_lookup_Some)

lemma redirect_answered: "unwritten w \<Longrightarrow> answered w (redirect t r w)"
  by (cases t) (auto simp: redirect_def Let_def writer_defs gomap_simps gm_wf_set)

lemma answering_mux:
  assumes "\<And>m p h. (m, p, h) \<in> set mux \<Longrightarrow> answering h"
  shows "answering (mux_ServeHTTP mux)"
proof unfold_locales
  fix env :: "'a http_env" and r w s res w' s'
  assume h: "mux_ServeHTTP mux env r w s = (res, w', s')"
  have find: "answering g" if "mux_find mux m e = Some g" for g m e
    using mux_find_Some [OF that] assms by blast
  from h show "ss_log s' = ss_log s"
    by (auto simp: mux_ServeHTTP_def Let_def split: if_splits option.splits list.splits
        dest!: find dest: answering.keeps_log)
  assume u: "unwritten w"
  have e: "answered w (http_Error msg c (header_set ''Allow'' v w))" for msg c v
    by (rule answered_header_set [OF u _ http_Error_answered]) (simp_all add: u)
  have c: "answered w (WriteHeader 400 (header_set ''Connection'' v w))" for v
    by (rule answered_header_set [OF u _ WriteHeader_answered]) (simp_all add: u)
  from h u show "res = Returns () \<and> answered w w'"
    by (auto simp: mux_ServeHTTP_def Let_def e c redirect_answered http_Error_answered
        split: if_splits option.splits list.splits dest!: find dest: answering.answers)
qed

interpretation routing: answering "mux_ServeHTTP (routes cfg)" for cfg
  by (rule answering_mux) (rule routes_answering)

lemma NewServer_eq: "NewServer cfg = Returns (requestID
    (if cf_Env cfg \<noteq> ''prod'' then devCORS (requestLogger (panicRecovery (mux_ServeHTTP (routes cfg))))
     else requestLogger (panicRecovery (mux_ServeHTTP (routes cfg)))))"
  by (simp add: NewServer_def addRoutes_ok)

section \<open>The whole server\<close>

text \<open>The writer the multiplexer gets, and the request it sees.\<close>

definition cors_headers :: "resp_writer \<Rightarrow> resp_writer" where
  "cors_headers w =
     header_set ''Access-Control-Allow-Headers'' ''Content-Type, X-API-Key, X-Request-ID''
       (header_set ''Access-Control-Allow-Methods'' ''GET, POST, PUT, DELETE, OPTIONS''
         (header_set ''Access-Control-Allow-Origin'' ''*'' w))"

definition entry_writer :: "AppConfig \<Rightarrow> 'w http_env \<Rightarrow> request \<Rightarrow> resp_writer" where
  "entry_writer cfg env r =
     (let w = header_set ''X-Request-ID'' (request_id_of env r) fresh_writer
      in if cf_Env cfg \<noteq> ''prod'' then cors_headers w else w)"

definition preflight :: "AppConfig \<Rightarrow> request \<Rightarrow> bool" where
  "preflight cfg r \<longleftrightarrow> cf_Env cfg \<noteq> ''prod'' \<and> rq_method r = ''OPTIONS''"

definition tagged :: "'w http_env \<Rightarrow> request \<Rightarrow> request" where
  "tagged env r = r\<lparr>rq_id := Some (request_id_of env r)\<rparr>"

lemma entry_writer:
  "unwritten (entry_writer cfg env r)" "rw_wrapped (entry_writer cfg env r) = []"
  "gm_get (rw_headers (entry_writer cfg env r)) ''X-Request-ID'' = Some (request_id_of env r)"
proof -
  have f: "unwritten fresh_writer" "gm_wf (rw_headers fresh_writer)" "rw_wrapped fresh_writer = []"
    by (simp_all add: unwritten_def fresh_writer_def)
  show "unwritten (entry_writer cfg env r)"
    by (simp add: entry_writer_def cors_headers_def Let_def f)
  show "rw_wrapped (entry_writer cfg env r) = []"
    by (simp add: entry_writer_def cors_headers_def Let_def f header_set_def)
  show "gm_get (rw_headers (entry_writer cfg env r)) ''X-Request-ID'' = Some (request_id_of env r)"
    by (simp add: entry_writer_def cors_headers_def Let_def f header_set_def gm_get_set gm_wf_set)
qed

lemma server_unfold:
  assumes "NewServer cfg = Returns h"
  shows "h env r fresh_writer s =
    (if preflight cfg r then (Returns (), WriteHeader 204 (entry_writer cfg env r), s)
     else requestLogger (panicRecovery (mux_ServeHTTP (routes cfg))) env (tagged env r) (entry_writer cfg env r) s)"
  using assms
  by (auto simp: NewServer_eq requestID_def devCORS_def entry_writer_def cors_headers_def preflight_def
      tagged_def Let_def)

lemma served_through_mux:
  assumes "NewServer cfg = Returns h" and "\<not> preflight cfg r"
  shows "ss_jobs (snd (serve h env r s)) =
    ss_jobs (snd (snd (mux_ServeHTTP (routes cfg) env (tagged env r) ((entry_writer cfg env r)\<lparr>rw_wrapped := [200]\<rparr>) s)))"
proof -
  let ?w = "(entry_writer cfg env r)\<lparr>rw_wrapped := [200]\<rparr>"
  have u: "unwritten ?w" using entry_writer(1) [of cfg env r] by (simp add: unwritten_def)
  from routing.answer_cases [OF u, of cfg env "tagged env r" s]
  obtain w' s' where m: "mux_ServeHTTP (routes cfg) env (tagged env r) ?w s = (Returns (), w', s')" by metis
  show ?thesis
    using assms(2)
    by (simp add: serve_def server_unfold [OF assms(1)] requestLogger_def entry_writer(2)
        routing.panicRecovery_id [OF u] m)
qed

section \<open>Which requests enqueue\<close>

definition authorised :: "AppConfig \<Rightarrow> request \<Rightarrow> bool" where
  "authorised cfg r \<longleftrightarrow>
     rq_method r = ''POST'' \<and> route_matches onboard_route (rq_escaped r) \<and> cf_APIKey cfg \<noteq> [] \<and>
     header_get (rq_headers r) ''X-API-Key'' = cf_APIKey cfg"

definition requested :: "go_lib \<Rightarrow> request \<Rightarrow> job_args \<Rightarrow> bool" where
  "requested U r a \<longleftrightarrow>
     (case decode_onboard U (rq_body r) of
        (req, None, None) \<Rightarrow> a = OnboardOrg (onboard_args_of req)
      | _ \<Rightarrow> False)"

lemma enqueue_cases:
  assumes "enqueue env a jobs = ((st, v), jobs')" and "jobs' \<noteq> jobs"
  shows "\<exists>jid. he_insert env a = Inr jid \<and> jobs' = jobs @ [(jid, a)] \<and>
    (st = 202 \<or> st = 500 \<and> (\<exists>e. he_commit env = Some (e, True)))"
  using assms by (auto simp: enqueue_def split: option.splits sum.splits if_splits)

lemma onboard_jobs:
  assumes "handleOnboardOrg env r w s = (res, w', s')" and "ss_jobs s' \<noteq> ss_jobs s"
  shows "\<exists>jid a. requested (he_lib env) r a \<and> he_insert env a = Inr jid \<and> ss_jobs s' = ss_jobs s @ [(jid, a)]"
proof -
  let ?U = "he_lib env"
  from assms obtain req where d: "decode_onboard ?U (rq_body r) = (req, None, None)"
    by (auto simp: handleOnboardOrg_def Let_def decode_onboard_def onboard_org_request.decodeValid_ok_iff
        split: prod.splits option.splits sum.splits go_result.splits elim!: onboard_org_request.decodeValid_cases)
  let ?a = "OnboardOrg (onboard_args_of req)"
  from assms d obtain st v where e: "enqueue env ?a (ss_jobs s) = ((st, v), ss_jobs s')"
    by (auto simp: handleOnboardOrg_def Let_def split: prod.splits option.splits sum.splits go_result.splits)
  have "requested ?U r ?a" by (simp add: requested_def d)
  with enqueue_cases [OF e assms(2)] show ?thesis by blast
qed

lemma mux_jobs:
  assumes "mux_ServeHTTP (routes cfg) env r w s = (res, w', s')" and "ss_jobs s' \<noteq> ss_jobs s"
  shows "authorised cfg r \<and>
    (\<exists>jid a. requested (he_lib env) r a \<and> he_insert env a = Inr jid \<and> ss_jobs s' = ss_jobs s @ [(jid, a)])"
proof -
  from assms obtain h where f: "mux_find (routes cfg) (rq_method r) (rq_escaped r) = Some h"
    and h: "h env r w s = (res, w', s')"
    by (auto simp: mux_ServeHTTP_def Let_def split: if_splits option.splits list.splits)
  from mux_find_Some [OF f] obtain m p where m: "(m, p, h) \<in> set (routes cfg)"
    and r: "route_matches p (rq_escaped r)" "m = rq_method r \<or> m = ''GET''" by auto
  have p: "p = onboard_route"
    using job_neutral.keeps_jobs [OF routes_job_neutral [OF m] h] assms(2) by blast
  with m have post: "m = ''POST''" and o: "h = apiKeyAuth (cf_APIKey cfg) handleOnboardOrg"
    by (auto simp: routes_def Let_def onboard_route_def)
  from h assms(2) have "cf_APIKey cfg \<noteq> []" "header_get (rq_headers r) ''X-API-Key'' = cf_APIKey cfg"
    "handleOnboardOrg env r w s = (res, w', s')"
    by (auto simp: o apiKeyAuth_def Let_def ConstantTimeCompare_iff split: if_splits)
  with onboard_jobs [OF _ assms(2)] p post r show ?thesis by (simp add: authorised_def)
qed

text \<open>A sequence of requests, each with what it meets outside.\<close>

fun serve_all :: "'w handler \<Rightarrow> ('w http_env \<times> request) list \<Rightarrow> 'w server_state \<Rightarrow> 'w server_state" where
  "serve_all h [] s = s"
| "serve_all h ((env, r) # ers) s = serve_all h ers (snd (serve h env r s))"

lemma serve_jobs:
  assumes "NewServer cfg = Returns h"
  shows "ss_jobs (snd (serve h env r s)) = ss_jobs s \<or>
    authorised cfg r \<and> (\<exists>jid a. requested (he_lib env) r a \<and> ss_jobs (snd (serve h env r s)) = ss_jobs s @ [(jid, a)])"
proof (cases "preflight cfg r")
  case True
  then show ?thesis by (simp add: serve_def server_unfold [OF assms])
next
  case False
  let ?w = "(entry_writer cfg env r)\<lparr>rw_wrapped := [200]\<rparr>"
  obtain res w' s' where m: "mux_ServeHTTP (routes cfg) env (tagged env r) ?w s = (res, w', s')"
    by (metis prod_cases3)
  have "authorised cfg (tagged env r) = authorised cfg r" "requested U (tagged env r) a = requested U r a" for U a
    by (simp_all add: authorised_def requested_def tagged_def)
  then show ?thesis
    unfolding served_through_mux [OF assms False] m using mux_jobs [OF m] by auto
qed

lemma jobs_from_requests:
  assumes "NewServer cfg = Returns h"
  shows "\<exists>js. ss_jobs (serve_all h ers s) = ss_jobs s @ js \<and> length js \<le> length ers \<and>
    (\<forall>(jid, a)\<in>set js. \<exists>(env, r)\<in>set ers. authorised cfg r \<and> requested (he_lib env) r a)"
proof (induction ers arbitrary: s)
  case (Cons er ers)
  obtain env r where er: "er = (env, r)" by fastforce
  let ?s = "snd (serve h env r s)"
  from Cons.IH [of ?s] obtain js where js: "ss_jobs (serve_all h ers ?s) = ss_jobs ?s @ js" "length js \<le> length ers"
    "\<forall>(jid, a)\<in>set js. \<exists>(env, r)\<in>set ers. authorised cfg r \<and> requested (he_lib env) r a" by blast
  from serve_jobs [OF assms, of env r s] show ?case
  proof
    assume "ss_jobs ?s = ss_jobs s"
    with js show ?thesis by (intro exI [of _ js]) (auto simp: er)
  next
    assume "authorised cfg r \<and> (\<exists>jid a. requested (he_lib env) r a \<and> ss_jobs ?s = ss_jobs s @ [(jid, a)])"
    then obtain jid a where "authorised cfg r" "requested (he_lib env) r a" "ss_jobs ?s = ss_jobs s @ [(jid, a)]" by blast
    with js show ?thesis by (intro exI [of _ "(jid, a) # js"]) (auto simp: er)
  qed
qed simp

section \<open>Properties\<close>

text \<open>C5: the server answers and logs. Registering the routes does not panic, and the server it
  builds answers every request, with every body and every failure of the database, of River
  and of VCD: no panic reaches the connection. The answer carries the request id (the
  caller's, or a generated one), and exactly one line is added to the access log, with the
  status that was sent and the same request id; only a preflight, which is answered before
  the logger, leaves none.\<close>

theorem server_answers_and_logs:
  "\<exists>h :: 'w handler. NewServer cfg = Returns h \<and>
    (case serve h env r s of
       (Some rp, s') \<Rightarrow>
         gm_get (rp_headers rp) ''X-Request-ID'' = Some (request_id_of env r) \<and>
         ss_log s' = ss_log s @
           (if preflight cfg r then []
            else [\<lparr>le_method = rq_method r, le_path = rq_path r, le_status = rp_status rp,
                   le_request_id = request_id_of env r\<rparr>])
     | (None, s') \<Rightarrow> False)"
proof -
  obtain h :: "'w handler" where h: "NewServer cfg = Returns h" by (rule that [OF NewServer_eq])
  note e = entry_writer [of cfg env r]
  have "case serve h env r s of (Some rp, s') \<Rightarrow>
      gm_get (rp_headers rp) ''X-Request-ID'' = Some (request_id_of env r) \<and>
      ss_log s' = ss_log s @ (if preflight cfg r then []
        else [\<lparr>le_method = rq_method r, le_path = rq_path r, le_status = rp_status rp,
               le_request_id = request_id_of env r\<rparr>]) | (None, s') \<Rightarrow> False"
  proof (cases "preflight cfg r")
    case True
    have w: "rw_status (WriteHeader 204 (entry_writer cfg env r)) = Some 204"
      "rw_sent (WriteHeader 204 (entry_writer cfg env r)) = rw_headers (entry_writer cfg env r)"
      using e(1) by (simp_all add: WriteHeader_def conn_write_header_def unwritten_def)
    have "serve h env r s = (Some (finish r (WriteHeader 204 (entry_writer cfg env r))), s)"
      using True by (simp add: serve_def server_unfold [OF h])
    moreover have "rp_headers (finish r (WriteHeader 204 (entry_writer cfg env r))) = rw_headers (entry_writer cfg env r)"
      by (simp add: finish_def conn_write_header_def w)
    ultimately show ?thesis using True e(3) by simp
  next
    case False
    from routing.logged [OF e(1,2), of cfg env "tagged env r" s] obtain w' s' st where
      l: "requestLogger (panicRecovery (mux_ServeHTTP (routes cfg))) env (tagged env r) (entry_writer cfg env r) s =
        (Returns (), w', s')" "rw_status w' = Some st"
      "gm_get (rw_sent w') ''X-Request-ID'' = gm_get (rw_headers (entry_writer cfg env r)) ''X-Request-ID''"
      "ss_log s' = ss_log s @ [\<lparr>le_method = rq_method (tagged env r), le_path = rq_path (tagged env r),
        le_status = st, le_request_id = RequestID (tagged env r)\<rparr>]" by metis
    have "serve h env r s = (Some (finish r w'), s')"
      using False by (simp add: serve_def server_unfold [OF h] l(1))
    moreover have "rp_headers (finish r w') = rw_sent w'" "rp_status (finish r w') = st"
      by (simp_all add: finish_def conn_write_header_def l(2))
    moreover have "rq_method (tagged env r) = rq_method r" "rq_path (tagged env r) = rq_path r"
      "RequestID (tagged env r) = request_id_of env r"
      by (simp_all add: tagged_def RequestID_def)
    ultimately show ?thesis using False e(3) l(3,4) by simp
  qed
  then show ?thesis by (intro exI [of _ h] conjI h)
qed

text \<open>C4: only authenticated onboarding requests enqueue. Whatever requests the server is sent, the
  jobs there were stay as they are, and each job that is added comes from a request among
  them that was a \<open>POST\<close> to the onboarding route with the configured, non-empty API key and a
  body that decodes and validates, and has exactly that request's values as its arguments. So
  without a configured API key nothing is ever enqueued.\<close>

theorem jobs_are_authorised:
  assumes "NewServer cfg = Returns h"
  shows "\<exists>js. ss_jobs (serve_all h ers s) = ss_jobs s @ js \<and> length js \<le> length ers \<and>
    (\<forall>(jid, a)\<in>set js. \<exists>(env, r)\<in>set ers. authorised cfg r \<and> requested (he_lib env) r a)"
  by (rule jobs_from_requests [OF assms])

text \<open>Without an API key in the configuration no request is authorised.\<close>

lemma jobs_are_authorised_witness:
  "\<exists>h. NewServer (Load dev_build (\<lambda>_. [])) = Returns h \<and>
    ss_jobs (serve_all h [(sample_http_env, sample_request), (org_http_env, onboard_request)] sample_server) = []"
proof -
  let ?cfg = "Load dev_build (\<lambda>_. [])"
  obtain h :: "http_request list handler" where h: "NewServer ?cfg = Returns h" by (rule that [OF NewServer_eq])
  have no: "\<not> authorised ?cfg r" for r by (simp add: authorised_def Load_def)
  have "ss_jobs (serve_all h [(sample_http_env, sample_request), (org_http_env, onboard_request)] sample_server) = []"
    using jobs_are_authorised [OF h, of "[(sample_http_env, sample_request), (org_http_env, onboard_request)]" sample_server]
    by (auto simp: no sample_server_def) (metis (no_types, lifting) no list.set_intros(1) prod.exhaust neq_Nil_conv)
  with h show ?thesis by blast
qed

section \<open>From the request to the completed workflow\<close>

lemma requested_valid:
  assumes "requested U r a"
  obtains req where "a = OnboardOrg (onboard_args_of req)" "oq_ClientID req \<noteq> []" "0 < sint (oq_AccountID req)"
proof (cases rule: decode_onboard_cases [of U "rq_body r"])
  case (ok req)
  have "list_all (\<lambda>(f, bad, msg). \<not> bad) (onboard_rules req)"
    using ok(2) problems_None_iff [of "onboard_rules req"]
    unfolding Valid_OnboardOrg_rules list_all_iff by (simp add: onboard_rules_def)
  with ok(1) assms that [of req] show thesis by (simp add: requested_def onboard_rules_def)
qed (use assms in \<open>simp_all add: requested_def\<close>)

text \<open>C7: from the request to the workflow. Whatever requests the server is sent, every job it
  adds is an onboarding job with a non-empty client id. On a database that carries out its
  statements, takes the text of the job's arguments as \<open>JSONB\<close> and commits, the first attempt of
  the worker on it completes the workflow (status completed, step 7) exactly when the client id,
  which validation does not bound, fits the column \<open>VARCHAR(50)\<close>; otherwise it fails and leaves
  the committed rows as they were.\<close>

theorem accepted_job_completes_iff_id_fits:
  assumes server: "NewServer cfg = Returns h" and job: "(jid, a) \<in> set (ss_jobs (serve_all h ers s)) - set (ss_jobs s)"
    and env: "we_begin env = None" "good_env (we_pg env)" "we_commit env = None"
    and data: "\<And>args d. a = OnboardOrg args \<Longrightarrow> argsToData U args = Inr d \<Longrightarrow> accepts (we_pg env) d"
    and new: "find_row db jid = None" and uuid: "pg_uuid (we_pg env) 1 \<notin> set (map row_id db)"
  shows "\<exists>args. a = OnboardOrg args \<and> oa_ClientID args \<noteq> [] \<and>
    (case OnboardOrgWorker_Work U env db jid args w of
       (out, db', w') \<Rightarrow>
         if (\<exists>cid. pg_varchar 50 (oa_ClientID args) = Inr cid)
         then out = Returns None \<and> recorded (find_row db' jid) (StatusCompleted, [], 7)
         else out \<noteq> Returns None \<and> db' = db)"
proof -
  from jobs_from_requests [OF server, of ers s] job
  obtain U' r where "requested U' r a" by (auto dest!: bspec)
  then obtain req where a: "a = OnboardOrg (onboard_args_of req)" and id: "oq_ClientID req \<noteq> []"
    by (rule requested_valid)
  let ?args = "onboard_args_of req"
  show ?thesis
  proof (cases "pg_varchar 50 (oa_ClientID ?args)")
    case (Inl e)
    from long_client_id_fails [OF Inl new, of U env onboard_steps w] show ?thesis
      using a id Inl by (auto simp: OnboardOrgWorker_Work_def onboard_args_of_def)
  next
    case (Inr cid)
    from work_completes_rows [OF env new uuid Inr data [OF a], of U w] show ?thesis
      using a id Inr by (auto simp: OnboardOrgWorker_Work_def onboard_args_of_def)
  qed
qed

definition sample_getenv :: "string \<Rightarrow> string" where
  "sample_getenv k = (if k = ''API_KEY'' then ''k'' else if k = ''ENV'' then ''prod'' else [])"

lemma sample_config: "cf_APIKey (Load dev_build sample_getenv) = ''k''" "cf_Env (Load dev_build sample_getenv) = ''prod''"
  by (simp_all add: Load_def sample_getenv_def envOr_def)

lemma sample_served:
  assumes "NewServer (Load dev_build sample_getenv) = Returns h"
  shows "ss_jobs (serve_all h [(org_http_env, onboard_request)] sample_server) =
    [(42, OnboardOrg (onboard_args_of sample_onboard))]"
proof -
  let ?cfg = "Load dev_build sample_getenv" and ?r = "tagged org_http_env onboard_request"
  let ?w = "(entry_writer ?cfg org_http_env onboard_request)\<lparr>rw_wrapped := [200]\<rparr>"
  have np: "\<not> preflight ?cfg onboard_request" by (simp add: preflight_def sample_config)
  have r: "rq_method ?r = ''POST''" "rq_escaped ?r = onboard_route" "header_get (rq_headers ?r) ''X-API-Key'' = ''k''"
    "rq_body ?r = rq_body onboard_request"
    by (simp_all add: tagged_def onboard_request_def sample_request_def onboard_route_def header_get_Cons)
  have clean: "cleanPath onboard_route = onboard_route" "onboard_route \<noteq> ''*''"
    by (simp_all add: cleanPath_def Let_def onboard_route_def)
  have find: "mux_find (routes ?cfg) ''POST'' onboard_route = Some (apiKeyAuth ''k'' handleOnboardOrg)"
    by (simp add: mux_find_def routes_def Let_def onboard_route_def route_matches_def segment_def sample_config)
  obtain w' s' where h: "handleOnboardOrg org_http_env ?r ?w sample_server = (Returns (), w', s')"
    and j: "ss_jobs s' = [(42, OnboardOrg (onboard_args_of sample_onboard))]"
    using sample_onboard_enqueued [OF r(4), of ?w] by blast
  have "mux_ServeHTTP (routes ?cfg) org_http_env ?r ?w sample_server = (Returns (), w', s')"
    by (simp add: mux_ServeHTTP_def r clean find apiKeyAuth_def ConstantTimeCompare_iff h)
  then show ?thesis by (simp add: served_through_mux [OF assms np] j)
qed

lemma accepted_job_completes_iff_id_fits_witness:
  "\<exists>db'. OnboardOrgWorker_Work ascii_tables good_work_env [] 42 (onboard_args_of sample_onboard) () =
    (Returns None, db', ()) \<and> recorded (find_row db' 42) (StatusCompleted, [], 7)"
proof -
  obtain h :: "http_request list handler" where h: "NewServer (Load dev_build sample_getenv) = Returns h"
    by (rule that [OF NewServer_eq])
  have job: "(42, OnboardOrg (onboard_args_of sample_onboard)) \<in>
      set (ss_jobs (serve_all h [(org_http_env, onboard_request)] sample_server)) - set (ss_jobs sample_server)"
    unfolding sample_served [OF h] by (simp add: sample_server_def)
  have env: "we_begin good_work_env = None" "good_env (we_pg good_work_env)" "we_commit good_work_env = None"
    by (simp_all add: good_work_env_def plain_good)
  have cid: "pg_varchar 50 (oa_ClientID (onboard_args_of sample_onboard)) = Inr ''acme''"
    by (simp add: onboard_args_of_def sample_onboard_def sample_cols)
  show ?thesis
    using accepted_job_completes_iff_id_fits [OF h job env, of ascii_tables "[]" "()"] sample_data cid
    by (auto split: prod.splits if_splits)
qed

end
