(* ===== verification/Queue.thy ===== *)
theory Queue
  imports Server "HOL-Library.Multiset"
begin

text \<open>
  The way of a job's arguments through the queue. River stores the JSON form of what
  \<open>InsertTx\<close> is given in a \<open>JSONB\<close> column and decodes what the column gives back into the
  arguments that \<open>Work\<close> sees. The column keeps the members of an object, but not their order
  or spelling, and refuses some texts; \<open>encoding/json\<close> does not keep every Go string: bytes that
  are no UTF-8 come back as U+FFFD. The arguments of a request survive, because they came out of
  a JSON decoder and their members are told apart by name.
\<close>

section \<open>Decoded strings are UTF-8\<close>

lemma utf8_valid_rune: "utf8_valid (encode_rune r @ s) = utf8_valid s"
  by (cases "scalar r") (simp_all add: encode_rune_def utf8_valid_encode scalar_def rune_error_def)

lemma lex_string_utf8: "lex_string s = Some (v, t) \<Longrightarrow> utf8_valid v"
proof (induction s arbitrary: v rule: lex_string.induct)
  case (1 s)
  show ?case
  proof (cases s)
    case Nil
    with "1.prems" show ?thesis by (subst (asm) lex_string.simps) simp
  next
    case (Cons c u)
    consider "c = chr 34" | "c = chr 92" "c \<noteq> chr 34" | "c \<noteq> chr 34" "c \<noteq> chr 92" by blast
    then show ?thesis
    proof cases
      case 1
      with "1.prems" Cons show ?thesis by (subst (asm) lex_string.simps) simp
    next
      case 2
      obtain r t' w where e: "lex_escape u = Some (r, t')" and w: "lex_string t' = Some (w, t)"
        and v: "v = encode_rune r @ w"
        using "1.prems" 2 unfolding lex_string.simps [of s] unfolding Cons by (auto split: option.splits)
      from "1.IH"(1) [OF Cons 2(2,1) e refl w] show ?thesis by (simp add: v utf8_valid_rune)
    next
      case 3
      obtain w where w: "lex_string (drop (snd (decode_rune s)) s) = Some (w, t)"
        and c: "\<not> ord c < 0x20" and v: "v = encode_rune (fst (decode_rune s)) @ w"
        using "1.prems" 3 unfolding lex_string.simps [of s] unfolding Cons
        by (auto split: if_splits simp del: decode_rune.simps)
      from "1.IH"(2) [OF Cons 3(1,2) c w] show ?thesis by (simp add: v utf8_valid_rune)
    qed
  qed
qed

text \<open>All strings of a JSON value, names of members included, are UTF-8.\<close>

fun json_utf8 :: "json \<Rightarrow> bool" where
  "json_utf8 (JStr s) = utf8_valid s"
| "json_utf8 (JArr js) = list_all json_utf8 js"
| "json_utf8 (JObj ms) = list_all (\<lambda>(k, j). utf8_valid k \<and> json_utf8 j) ms"
| "json_utf8 _ = True"

lemma p_utf8:
  "(\<forall>d s v r. p_value n d s = Some (v, r) \<longrightarrow> json_utf8 v) \<and>
   (\<forall>d s vs r. p_elems n d s = Some (vs, r) \<longrightarrow> list_all json_utf8 vs) \<and>
   (\<forall>d s ms r. p_members n d s = Some (ms, r) \<longrightarrow> list_all (\<lambda>(k, j). utf8_valid k \<and> json_utf8 j) ms)"
proof (induction n)
  case (Suc n)
  then have v: "\<And>d s v r. p_value n d s = Some (v, r) \<Longrightarrow> json_utf8 v"
    and e: "\<And>d s vs r. p_elems n d s = Some (vs, r) \<Longrightarrow> list_all json_utf8 vs"
    and m: "\<And>d s ms r. p_members n d s = Some (ms, r) \<Longrightarrow> list_all (\<lambda>(k, j). utf8_valid k \<and> json_utf8 j) ms"
    by blast+
  have "json_utf8 v" if p: "p_value (Suc n) d s = Some (v, r)" for d s v r
  proof -
    obtain c t where ct: "skip_ws s = c # t" using p by (cases "skip_ws s") auto
    show ?thesis using p ct by (auto split: if_splits dest: e m lex_string_utf8)
  qed
  moreover have "list_all json_utf8 vs" if "p_elems (Suc n) d s = Some (vs, r)" for d s vs r
    using that by (fastforce split: option.splits list.splits if_splits dest: v e)
  moreover have "list_all (\<lambda>(k, j). utf8_valid k \<and> json_utf8 j) ms" if "p_members (Suc n) d s = Some (ms, r)" for d s ms r
    using that by (fastforce split: option.splits list.splits if_splits dest: lex_string_utf8 v m)
  ultimately show ?case by blast
qed simp

lemma json_decode_utf8: "json_decode s = Some j \<Longrightarrow> json_utf8 j"
  unfolding json_decode_def json_value_def using p_utf8 [of "2 * length s + 1"] by auto

section \<open>Decoders that keep a property\<close>

text \<open>A decoder that, given UTF-8 strings, keeps a property of the variable.\<close>

locale keeping_decoder =
  fixes dec :: "'a decoder" and P :: "'a \<Rightarrow> bool"
  assumes keeps: "json_utf8 j \<Longrightarrow> P v \<Longrightarrow> P (fst (dec j v))"
begin

lemma decode_into_keeps:
  assumes "json_decode_into U ty dec body v = (e, v')" and "P v"
  shows "P v'"
proof (cases body)
  case (Inr s)
  with assms keeps [OF json_decode_utf8, of s _ v] show ?thesis
    by (cases "json_decode s") (auto simp: json_decode_into_def split: prod.splits)
qed (use assms in \<open>simp add: json_decode_into_def\<close>)

end

lemma dec_members_keeps:
  assumes "\<And>n d j v. (n, d) \<in> set fs \<Longrightarrow> json_utf8 j \<Longrightarrow> P v \<Longrightarrow> P (fst (d j v))"
    and "list_all (\<lambda>(k, j). json_utf8 j) ms" and "P v"
  shows "P (fst (dec_members U fs ms v))"
  using assms(2,3)
proof (induction ms arbitrary: v)
  case (Cons m ms)
  obtain k j where m: "m = (k, j)" by (cases m)
  show ?case
  proof (cases "find_field U fs k")
    case None
    with Cons m show ?thesis by simp
  next
    case (Some d)
    then obtain n where "(n, d) \<in> set fs"
      by (auto simp: find_field_def split: option.splits dest!: map_of_SomeD)
    from assms(1) [OF this, of j v] Cons m have "P (fst (d j v))" by simp
    from Cons.IH [OF _ this] Cons.prems(1) Some m show ?thesis by (auto split: prod.splits)
  qed
qed simp

lemma dec_struct_keeps:
  assumes "\<And>n d j v. (n, d) \<in> set fs \<Longrightarrow> json_utf8 j \<Longrightarrow> P v \<Longrightarrow> P (fst (d j v))"
    and "json_utf8 j" and "P v"
  shows "P (fst (dec_struct U fs j v))"
proof (cases j)
  case (JObj ms)
  with assms(2) have "list_all (\<lambda>(k, j). json_utf8 j) ms" by (auto simp: list_all_iff)
  then have "P (fst (dec_members U fs ms v))"
    by (rule dec_members_keeps [where fs = fs and P = P, rotated]) (use assms in auto)
  with JObj show ?thesis by simp
qed (use assms(3) in simp_all)

lemma dec_string_utf8: "json_utf8 j \<Longrightarrow> utf8_valid v \<Longrightarrow> utf8_valid (fst (dec_string j v))"
  by (cases j) simp_all

definition texts_utf8 :: "OnboardOrgArgs \<Rightarrow> bool" where
  "texts_utf8 a \<longleftrightarrow> list_all (\<lambda>(k, v). utf8_value v) (onboard_fields a)"

interpretation onboard_request: keeping_decoder "dec_OnboardOrgRequest U" "\<lambda>r. texts_utf8 (onboard_args_of r)" for U
proof
  fix j and v :: OnboardOrgRequest
  assume j: "json_utf8 j" and v: "texts_utf8 (onboard_args_of v)"
  show "texts_utf8 (onboard_args_of (fst (dec_OnboardOrgRequest U j v)))"
    unfolding dec_OnboardOrgRequest_def
    by (rule dec_struct_keeps [where P = "\<lambda>r. texts_utf8 (onboard_args_of r)", OF _ j v])
      (auto simp: texts_utf8_def onboard_fields_def onboard_args_of_def on_field_def case_prod_beta dec_string_utf8)
qed

section \<open>The round trip\<close>

text \<open>
  What the documentation of \<open>JSONB\<close> says of an object of texts, integers, truth values and nulls
  under distinct names: what the column gives back for its text, unless it refuses it, is an
  object with the same members in some order. \<open>jb\<close> is the column, as \<open>pg_jsonb\<close> is for the table of
  the program.
\<close>

fun simple_value :: "json \<Rightarrow> bool" where
  "simple_value (JNum t) = (\<exists>i. t = itoa i)"
| "simple_value (JArr _) = False"
| "simple_value (JObj _) = False"
| "simple_value _ = True"

definition jsonb_objects :: "(string \<Rightarrow> go_error + string) \<Rightarrow> bool" where
  "jsonb_objects jb \<longleftrightarrow>
     (\<forall>raw stored ms. json_parse raw = Some (JObj ms) \<longrightarrow> distinct (map fst ms) \<longrightarrow>
        list_all (\<lambda>(k, v). simple_value v) ms \<longrightarrow> jb raw = Inr stored \<longrightarrow>
        (\<exists>ms'. json_parse stored = Some (JObj ms') \<and> mset ms' = mset ms))"

text \<open>What \<open>Work\<close> is given for the arguments that were enqueued: what the column gives back for
  their JSON form, decoded into a zero value.\<close>

definition through_queue :: "(string \<Rightarrow> go_error + string) \<Rightarrow> go_lib \<Rightarrow> OnboardOrgArgs \<Rightarrow>
    go_error + OnboardOrgArgs" where
  "through_queue jb U a =
     (case marshal_struct (args_fields (OnboardOrg a)) of
        Inl e \<Rightarrow> Inl e
      | Inr raw \<Rightarrow>
          (case jb raw of
             Inl e \<Rightarrow> Inl e
           | Inr stored \<Rightarrow>
               (case json_unmarshal U ''jobs.OnboardOrgArgs'' (onboard_args_decoder U) stored zero_onboard_args of
                  (Some e, _) \<Rightarrow> Inl e
                | (None, a') \<Rightarrow> Inr a')))"

text \<open>Decoding the members of a struct in any order: a field that the member \<open>k\<close> sets to \<open>x\<close> and
  no other member touches is \<open>x\<close> in the end.\<close>

definition sets_field :: "go_lib \<Rightarrow> (string \<times> 'a decoder) list \<Rightarrow> ('a \<Rightarrow> 'b) \<Rightarrow> string \<Rightarrow> 'b \<Rightarrow> string \<times> json \<Rightarrow> bool" where
  "sets_field U fs f k x m \<longleftrightarrow>
     (\<exists>d. find_field U fs (fst m) = Some d \<and>
       (\<forall>v. \<not> snd (d (snd m) v) \<and> f (fst (d (snd m) v)) = (if fst m = k then x else f v)))"

lemma dec_members_field:
  assumes "list_all (sets_field U fs f k x) ms"
  shows "\<not> snd (dec_members U fs ms v) \<and>
    f (fst (dec_members U fs ms v)) = (if k \<in> fst ` set ms then x else f v)"
  using assms
proof (induction ms arbitrary: v)
  case (Cons m ms)
  from Cons.prems obtain d where d: "find_field U fs (fst m) = Some d"
    "\<And>v. \<not> snd (d (snd m) v) \<and> f (fst (d (snd m) v)) = (if fst m = k then x else f v)"
    by (auto simp: sets_field_def)
  obtain v1 b where v1: "d (snd m) v = (v1, b)" by fastforce
  with d(2) [of v] have "\<not> b" "f v1 = (if fst m = k then x else f v)" by simp_all
  moreover from Cons.IH [of v1] Cons.prems
  have "\<not> snd (dec_members U fs ms v1) \<and> f (fst (dec_members U fs ms v1)) = (if k \<in> fst ` set ms then x else f v1)"
    by simp
  ultimately show ?case
    using d(1) v1 by (cases m) (auto split: prod.splits)
qed simp

text \<open>Whatever the order of the members, the decoder reads the arguments back.\<close>

definition onboard_args_fields :: "(string \<times> OnboardOrgArgs decoder) list" where
  "onboard_args_fields =
     [(''crm_id'', on_field oa_ClientID oa_ClientID_update dec_string),
      (''organization_name'', on_field oa_OrganizationName oa_OrganizationName_update dec_string),
      (''client_username'', on_field oa_ClientUsername oa_ClientUsername_update dec_string),
      (''client_first_name'', on_field oa_ClientFirstName oa_ClientFirstName_update dec_string),
      (''client_last_name'', on_field oa_ClientLastName oa_ClientLastName_update dec_string),
      (''client_email'', on_field oa_ClientEmail oa_ClientEmail_update dec_string),
      (''account_id'', on_field oa_AccountID oa_AccountID_update dec_int),
      (''country'', on_field oa_Country oa_Country_update dec_string),
      (''state'', on_field oa_State oa_State_update dec_string),
      (''postal_code'', on_field oa_PostalCode oa_PostalCode_update dec_string),
      (''max_zerto_storage'', on_field oa_MaxZertoStorage oa_MaxZertoStorage_update dec_int),
      (''max_zerto_vms'', on_field oa_MaxZertoVMs oa_MaxZertoVMs_update dec_int),
      (''bandwidth'', on_field oa_Bandwidth oa_Bandwidth_update dec_string),
      (''product_id'', on_field oa_ProductID oa_ProductID_update dec_string)]"

lemma find_args_field:
  "list_all (\<lambda>(k, d). find_field U onboard_args_fields k = Some d) onboard_args_fields"
  by (simp add: onboard_args_fields_def find_field_def)

text \<open>The members the arguments are stored as, with the field each of them sets.\<close>

lemma field_value:
  assumes find: "list_all (\<lambda>(k, d). find_field U fs k = Some d) fs"
    and sets: "list_all2 (\<lambda>(k, d) (k', v). k' = k \<and> (\<forall>w. \<not> snd (d (json_of v) w) \<and>
      f (fst (d (json_of v) w)) = (if k = key then x else f w))) fs kvs"
    and ms: "mset ms = mset (map (\<lambda>(k, v). (k, json_of v)) kvs)" and key: "key \<in> fst ` set kvs"
  shows "\<not> snd (dec_members U fs ms v)" "f (fst (dec_members U fs ms v)) = x"
proof -
  have set: "set ms = set (map (\<lambda>(k, v). (k, json_of v)) kvs)"
    using ms by (metis set_mset_mset)
  have "sets_field U fs f key x (k, json_of v)" if kv: "(k, v) \<in> set kvs" for k v
  proof -
    obtain i where i: "i < length kvs" "kvs ! i = (k, v)" using kv by (metis in_set_conv_nth)
    with list_all2_lengthD [OF sets] have l: "i < length fs" by simp
    obtain k' d where d: "fs ! i = (k', d)" by fastforce
    from find l d have "find_field U fs k' = Some d" by (auto simp: list_all_length)
    moreover from list_all2_nthD [OF sets l] i d have "k = k'"
      "\<forall>w. \<not> snd (d (json_of v) w) \<and> f (fst (d (json_of v) w)) = (if k' = key then x else f w)" by auto
    ultimately show ?thesis by (auto simp: sets_field_def)
  qed
  then have "list_all (sets_field U fs f key x) ms" by (auto simp: list_all_iff set)
  note r = dec_members_field [OF this, of v]
  show "\<not> snd (dec_members U fs ms v)" using r by blast
  have "key \<in> fst ` set ms" using key by (force simp: set)
  with r show "f (fst (dec_members U fs ms v)) = x" by simp
qed

lemma decode_members_any_order:
  assumes utf8: "texts_utf8 a" and ms: "mset ms = mset (map (\<lambda>(k, v). (k, json_of v)) (onboard_fields a))"
  shows "onboard_args_decoder U (JObj ms) zero_onboard_args = (a, False)"
proof -
  have valid: "to_valid (oa_ClientID a) = oa_ClientID a" "to_valid (oa_OrganizationName a) = oa_OrganizationName a" "to_valid (oa_ClientUsername a) = oa_ClientUsername a" "to_valid (oa_ClientFirstName a) = oa_ClientFirstName a" "to_valid (oa_ClientLastName a) = oa_ClientLastName a" "to_valid (oa_ClientEmail a) = oa_ClientEmail a" "to_valid (oa_Country a) = oa_Country a" "to_valid (oa_State a) = oa_State a" "to_valid (oa_PostalCode a) = oa_PostalCode a" "to_valid (oa_Bandwidth a) = oa_Bandwidth a" "to_valid (oa_ProductID a) = oa_ProductID a"
    using utf8 by (simp_all add: texts_utf8_def onboard_fields_def to_valid_id)
  note reads = field_value [OF find_args_field _ ms, unfolded onboard_args_fields_def onboard_fields_def]
  let ?r = "dec_members U onboard_args_fields ms zero_onboard_args"
  have "fst ?r = a"
  proof (rule OnboardOrgArgs.equality)
    show "oa_ClientID (fst ?r) = oa_ClientID a"
      unfolding onboard_args_fields_def
      by (rule reads(2) [where key = "''crm_id''"]) (simp_all add: on_field_def dec_int_itoa valid del: dec_int.simps(1))
    show "oa_OrganizationName (fst ?r) = oa_OrganizationName a"
      unfolding onboard_args_fields_def
      by (rule reads(2) [where key = "''organization_name''"]) (simp_all add: on_field_def dec_int_itoa valid del: dec_int.simps(1))
    show "oa_ClientUsername (fst ?r) = oa_ClientUsername a"
      unfolding onboard_args_fields_def
      by (rule reads(2) [where key = "''client_username''"]) (simp_all add: on_field_def dec_int_itoa valid del: dec_int.simps(1))
    show "oa_ClientFirstName (fst ?r) = oa_ClientFirstName a"
      unfolding onboard_args_fields_def
      by (rule reads(2) [where key = "''client_first_name''"]) (simp_all add: on_field_def dec_int_itoa valid del: dec_int.simps(1))
    show "oa_ClientLastName (fst ?r) = oa_ClientLastName a"
      unfolding onboard_args_fields_def
      by (rule reads(2) [where key = "''client_last_name''"]) (simp_all add: on_field_def dec_int_itoa valid del: dec_int.simps(1))
    show "oa_ClientEmail (fst ?r) = oa_ClientEmail a"
      unfolding onboard_args_fields_def
      by (rule reads(2) [where key = "''client_email''"]) (simp_all add: on_field_def dec_int_itoa valid del: dec_int.simps(1))
    show "oa_AccountID (fst ?r) = oa_AccountID a"
      unfolding onboard_args_fields_def
      by (rule reads(2) [where key = "''account_id''"]) (simp_all add: on_field_def dec_int_itoa valid del: dec_int.simps(1))
    show "oa_Country (fst ?r) = oa_Country a"
      unfolding onboard_args_fields_def
      by (rule reads(2) [where key = "''country''"]) (simp_all add: on_field_def dec_int_itoa valid del: dec_int.simps(1))
    show "oa_State (fst ?r) = oa_State a"
      unfolding onboard_args_fields_def
      by (rule reads(2) [where key = "''state''"]) (simp_all add: on_field_def dec_int_itoa valid del: dec_int.simps(1))
    show "oa_PostalCode (fst ?r) = oa_PostalCode a"
      unfolding onboard_args_fields_def
      by (rule reads(2) [where key = "''postal_code''"]) (simp_all add: on_field_def dec_int_itoa valid del: dec_int.simps(1))
    show "oa_MaxZertoStorage (fst ?r) = oa_MaxZertoStorage a"
      unfolding onboard_args_fields_def
      by (rule reads(2) [where key = "''max_zerto_storage''"]) (simp_all add: on_field_def dec_int_itoa valid del: dec_int.simps(1))
    show "oa_MaxZertoVMs (fst ?r) = oa_MaxZertoVMs a"
      unfolding onboard_args_fields_def
      by (rule reads(2) [where key = "''max_zerto_vms''"]) (simp_all add: on_field_def dec_int_itoa valid del: dec_int.simps(1))
    show "oa_Bandwidth (fst ?r) = oa_Bandwidth a"
      unfolding onboard_args_fields_def
      by (rule reads(2) [where key = "''bandwidth''"]) (simp_all add: on_field_def dec_int_itoa valid del: dec_int.simps(1))
    show "oa_ProductID (fst ?r) = oa_ProductID a"
      unfolding onboard_args_fields_def
      by (rule reads(2) [where key = "''product_id''"]) (simp_all add: on_field_def dec_int_itoa valid del: dec_int.simps(1))
  qed simp
  moreover have "\<not> snd ?r"
    unfolding onboard_args_fields_def
    by (rule reads(1) [where key = "''crm_id''" and f = oa_ClientID and x = "oa_ClientID a"])
      (simp_all add: on_field_def dec_int_itoa valid del: dec_int.simps(1))
  ultimately show ?thesis
    by (cases ?r) (simp add: onboard_args_decoder_def onboard_args_fields_def)
qed

lemma through_queue_utf8:
  assumes utf8: "texts_utf8 a" and jb: "jsonb_objects jb"
  obtains raw where "marshal_struct (args_fields (OnboardOrg a)) = Inr raw"
    "through_queue jb U a = map_sum (\<lambda>e. e) (\<lambda>stored. a) (jb raw)"
proof -
  let ?raw = "enc_object (member_texts (member_triples (onboard_fields a)))"
  let ?ms = "map (\<lambda>(k, v). (k, json_of v)) (onboard_fields a)"
  have "list_all (\<lambda>(k, v). representable v) (onboard_fields a)"
    using onboard_fields_ok [of a] by (auto simp: list_all_iff)
  then have raw: "marshal_struct (args_fields (OnboardOrg a)) = Inr ?raw"
    by (simp add: marshal_struct_scalars)
  have "json_parse ?raw = Some (JObj ?ms)" by (rule json_parse_struct [OF onboard_fields_ok])
  moreover have "simple_value (json_of v)" for v by (cases v) auto
  then have "list_all (\<lambda>(k, v). simple_value v) ?ms" by (auto simp: list_all_iff)
  moreover have "distinct (map fst ?ms)" by (simp add: onboard_fields_def)
  ultimately have stored: "\<exists>ms'. json_parse t = Some (JObj ms') \<and> mset ms' = mset ?ms" if "jb ?raw = Inr t" for t
    using jb that unfolding jsonb_objects_def by blast
  have "through_queue jb U a = map_sum (\<lambda>e. e) (\<lambda>stored. a) (jb ?raw)"
  proof (cases "jb ?raw")
    case (Inr t)
    from stored [OF this] obtain ms' where "json_parse t = Some (JObj ms')" "mset ms' = mset ?ms" by blast
    with decode_members_any_order [OF utf8] have "json_unmarshal U ''jobs.OnboardOrgArgs''
        (onboard_args_decoder U) t zero_onboard_args = (None, a)"
      by (simp add: json_unmarshal_def)
    with Inr show ?thesis unfolding through_queue_def raw by simp
  qed (simp add: through_queue_def raw [unfolded args_fields.simps])
  with raw that show thesis by blast
qed

lemma jsonb_objects_Inr: "jsonb_objects Inr"
  by (simp add: jsonb_objects_def)

lemma requested_utf8:
  assumes "requested U r (OnboardOrg a)"
  shows "texts_utf8 a"
proof -
  obtain req ps err where d: "decode_onboard U (rq_body r) = (req, ps, err)" by (metis prod_cases3)
  with assms have n: "ps = None" "err = None" and a: "a = onboard_args_of req"
    by (auto simp: requested_def split: option.splits)
  from d n have "json_decode_into U ''httpapi.OnboardOrgRequest'' (dec_OnboardOrgRequest U) (rq_body r)
      zero_OnboardOrgRequest = (None, req)"
    by (simp add: decode_onboard_def onboard_org_request.decodeValid_ok_iff)
  moreover have "texts_utf8 (onboard_args_of zero_OnboardOrgRequest)"
    by (simp add: texts_utf8_def onboard_fields_def onboard_args_of_def zero_OnboardOrgRequest_def)
  ultimately show ?thesis unfolding a by (rule onboard_request.decode_into_keeps)
qed

text \<open>C16: the worker gets what the request said. For every request that passes the validation, the
  arguments that are enqueued come back unchanged when what the \<open>JSONB\<close> column holds is decoded
  for \<open>Work\<close>, in whatever order it holds the members (a text that the column refuses is not
  stored: its error is that of \<open>InsertTx\<close>), and the workflow's initial data holds each text as
  it is, although neither holds of arguments in general.\<close>

theorem request_args_survive_queue:
  assumes "requested U r (OnboardOrg a)" and "jsonb_objects jb"
  shows "(\<exists>raw. marshal_struct (args_fields (OnboardOrg a)) = Inr raw \<and>
      (case jb raw of Inr stored \<Rightarrow> through_queue jb U a = Inr a | Inl e \<Rightarrow> through_queue jb U a = Inl e)) \<and>
    (\<forall>s m. argsToData U a = Inr (Some m) \<and> ws_Data s = Some m \<longrightarrow>
      (\<forall>k t. (k, GStr t) \<in> set (onboard_fields a) \<longrightarrow> GetString U s k = (t, True)))"
proof -
  note u = requested_utf8 [OF assms(1)]
  have "to_valid t = t" if "(k, GStr t) \<in> set (onboard_fields a)" for k t
    using u that by (intro to_valid_id) (auto simp: texts_utf8_def list_all_iff)
  moreover have "json_parse (text_of (GStr t)) = Some (JStr (to_valid t))" for t
    using marshal_parse [of "GStr t"] by (simp add: text_of_def)
  moreover obtain raw where "marshal_struct (args_fields (OnboardOrg a)) = Inr raw"
    "through_queue jb U a = map_sum (\<lambda>e. e) (\<lambda>stored. a) (jb raw)"
    by (rule through_queue_utf8 [OF u assms(2)])
  ultimately show ?thesis by (cases "jb raw") (auto simp: argsToData_string)
qed

text \<open>On a column that keeps the text as it is.\<close>

lemma request_args_survive_queue_witness:
  "requested ascii_tables onboard_request (OnboardOrg (onboard_args_of sample_onboard)) \<and>
    through_queue Inr ascii_tables (onboard_args_of sample_onboard) = Inr (onboard_args_of sample_onboard)"
proof -
  have "he_lib org_http_env = ascii_tables" by (simp add: org_http_env_def sample_vcd_env_def)
  then have r: "requested ascii_tables onboard_request (OnboardOrg (onboard_args_of sample_onboard))"
    using sample_onboard_decodes by (simp add: requested_def)
  with request_args_survive_queue [OF r jsonb_objects_Inr] show ?thesis by auto
qed

end
