(* ===== verification/System.thy ===== *)
theory System
  imports Queue
begin

text \<open>
  The whole service as a state machine: the HTTP server with the jobs it committed, and the
  table \<open>workflow_state\<close> the workers act on. Requests and attempts of jobs interleave in any
  order; an attempt runs any job that River still has, any number of times, whatever the
  database answers, with the arguments as they come back from their stored JSON. River removes
  jobs: it gives one up after its last attempt, and its cleaner deletes the jobs that are done
  with; here it may remove any job at any time. The ids of jobs come from a sequence, so
  no two jobs share one, not even with a job that was removed; \<open>sy_history\<close> remembers the jobs
  that were ever enqueued and is part of no decision. The machine refines the \<open>ledger\<close>, which
  knows only the accepted jobs and the client ids of the finished ones.
\<close>

section \<open>What a run leaves of the client id\<close>

context repository_laws
begin

text \<open>What every update keeps of the view, the loop over the steps keeps.\<close>

lemma run_steps_inv:
  assumes "\<And>tx s u tx'. repo_UpdateStep R tx s = (u, tx') \<Longrightarrow> Q (view tx) \<Longrightarrow> Q (view tx')"
  shows "run_steps U R i sts tx s w = (out, tx', w') \<Longrightarrow> Q (view tx) \<Longrightarrow> Q (view tx')"
proof (induction sts arbitrary: i tx s w)
  case (Cons st sts)
  obtain r s1 w1 where st: "step_Run st s w = (r, s1, w1)" by (metis prod_cases3)
  show ?case
  proof (cases "int i < ws_CurrentStep s")
    case True
    with Cons show ?thesis by simp
  next
    case False
    with Cons.prems st show ?thesis
      by (auto simp: Let_def split: go_result.splits option.splits prod.splits dest: assms Cons.IH)
  qed
qed simp

definition client_is :: "int64 \<Rightarrow> string \<Rightarrow> (int64 \<Rightarrow> ws_row option) \<Rightarrow> bool" where
  "client_is j cid v \<longleftrightarrow> (\<forall>r. v j = Some r \<longrightarrow> row_client_id r = cid)"

lemma update_client: "repo_UpdateStep R tx s = (u, tx') \<Longrightarrow> client_is j cid (view tx) \<Longrightarrow> client_is j cid (view tx')"
  using update_ok [of tx s tx'] update_error [of tx s _ tx']
  by (cases u) (auto simp: client_is_def stored_row_def split: if_splits)

lemma Run_keeps:
  assumes run: "Runner_Run U (NewRunner R steps) tx j wt cid d w = (out, tx', w')"
    and load: "\<And>l tx1. load_or_create U R tx j wt cid d = (l, tx1) \<Longrightarrow> Q (view tx1)"
    and upd: "\<And>tx s u tx'. repo_UpdateStep R tx s = (u, tx') \<Longrightarrow> Q (view tx) \<Longrightarrow> Q (view tx')"
  shows "Q (view tx')"
proof -
  obtain l tx1 where l: "load_or_create U R tx j wt cid d = (l, tx1)" by fastforce
  note v1 = load [OF l]
  show ?thesis
  proof (cases l)
    case (Inl e)
    then show ?thesis using run l v1 by (auto simp: Runner_Run_def NewRunner_def)
  next
    case (Inr s0)
    let ?s = "s0\<lparr>ws_Status := StatusRunning, ws_Error := []\<rparr>"
    obtain u tx2 where u: "repo_UpdateStep R tx1 ?s = (u, tx2)" by fastforce
    obtain o' tx3 w3 where r: "run_steps U R 0 steps tx2 ?s w = (o', tx3, w3)" by (metis prod_cases3)
    have v2: "Q (view tx2)" by (rule upd [OF u v1])
    have v3: "Q (view tx3)" by (rule run_steps_inv [where Q = Q, OF _ r v2]) (rule upd)
    show ?thesis
      using run l Inr u r v2 v3 upd
      by (auto simp: Runner_Run_def NewRunner_def Let_def split: option.splits sum.splits prod.splits)
  qed
qed

lemma load_client:
  assumes "load_or_create U R tx j wt cid d = (l, tx')" and "length cid \<le> 50" and "client_is j cid (view tx)"
  shows "client_is j cid (view tx')"
proof -
  obtain g tx1 where g: "repo_Get R tx j = (g, tx1)" by fastforce
  have v: "view tx1 = view tx" using get_view [OF g] .
  let ?s = "zero_state\<lparr>ws_JobID := j, ws_WorkflowType := wt, ws_ClientID := cid,
      ws_Status := StatusPending, ws_Data := d\<rparr>"
  obtain c tx2 s' where c: "repo_Create R tx1 ?s = (c, tx2, s')" by (metis prod_cases3)
  have "client_is j cid (view tx2)"
    using c create_ok [of tx1 ?s tx2 s'] create_error [of tx1 ?s _ tx2 s'] assms(2,3) v
    by (cases c) (auto simp: client_is_def fresh_row_def)
  with v g c assms show ?thesis
    by (auto simp: load_or_create_def split: sum.splits if_splits option.splits)
qed

lemma Run_client:
  assumes run: "Runner_Run U (NewRunner R steps) tx j wt cid d w = (out, tx', w')"
    and cid: "length cid \<le> 50" and v: "client_is j cid (view tx)"
  shows "client_is j cid (view tx')"
  by (rule Run_keeps [where Q = "client_is j cid", OF run]) (rule load_client [OF _ cid v], assumption, rule update_client)

text \<open>A row stays, with its client id.\<close>

definition row_stays :: "int64 \<Rightarrow> string \<Rightarrow> (int64 \<Rightarrow> ws_row option) \<Rightarrow> bool" where
  "row_stays j cid v \<longleftrightarrow> (\<exists>r. v j = Some r \<and> row_client_id r = cid)"

lemma update_stays: "repo_UpdateStep R tx s = (u, tx') \<Longrightarrow> row_stays j cid (view tx) \<Longrightarrow> row_stays j cid (view tx')"
  using update_ok [of tx s tx'] update_error [of tx s _ tx']
  by (cases u) (auto simp: row_stays_def stored_row_def split: if_splits)

lemma load_stays:
  assumes "load_or_create U R tx j wt cid d = (l, tx')" and "row_stays k c (view tx)"
  shows "row_stays k c (view tx')"
proof -
  obtain g tx1 where g: "repo_Get R tx j = (g, tx1)" by fastforce
  have v: "view tx1 = view tx" using get_view [OF g] .
  let ?s = "zero_state\<lparr>ws_JobID := j, ws_WorkflowType := wt, ws_ClientID := cid,
      ws_Status := StatusPending, ws_Data := d\<rparr>"
  obtain c' tx2 s' where c: "repo_Create R tx1 ?s = (c', tx2, s')" by (metis prod_cases3)
  have "row_stays k c (view tx2)"
    using c create_ok [of tx1 ?s tx2 s'] create_error [of tx1 ?s _ tx2 s'] assms(2) v
    by (cases c') (auto simp: row_stays_def)
  with v g c assms show ?thesis
    by (auto simp: load_or_create_def split: sum.splits if_splits option.splits)
qed

lemma Run_stays:
  assumes run: "Runner_Run U (NewRunner R steps) tx j wt cid d w = (out, tx', w')"
    and v: "row_stays k c (view tx)"
  shows "row_stays k c (view tx')"
  by (rule Run_keeps [where Q = "row_stays k c", OF run]) (rule load_stays [OF _ v], assumption, rule update_stays)

end

section \<open>The state machine\<close>

record 'w system =
  sy_server :: "'w server_state"
  sy_rows :: "ws_row list"
  sy_history :: "(int64 \<times> job_args) list"

text \<open>A step serves a request, is an attempt of a job, or removes a job.\<close>

datatype label = Served request | Attempted int64 | Removed int64

fun served :: "label \<Rightarrow> request list" where
  "served (Served r) = [r]"
| "served (Attempted j) = []"
| "served (Removed j) = []"

definition enqueued :: "'w server_state \<Rightarrow> 'w server_state \<Rightarrow> (int64 \<times> job_args) list" where
  "enqueued s s' = drop (length (ss_jobs s)) (ss_jobs s')"

definition remove_job :: "int64 \<Rightarrow> 'w server_state \<Rightarrow> 'w server_state" where
  "remove_job j s = s\<lparr>ss_jobs := filter (\<lambda>(k, a). k \<noteq> j) (ss_jobs s)\<rparr>"

inductive system_step :: "go_lib \<Rightarrow> AppConfig \<Rightarrow> label \<Rightarrow> 'w system \<Rightarrow> 'w system \<Rightarrow> bool"
  for U :: go_lib and cfg :: AppConfig where
  request: "NewServer cfg = Returns h \<Longrightarrow> he_lib env = U \<Longrightarrow>
    serve h env r (sy_server S) = (rep, s') \<Longrightarrow>
    distinct (map fst (sy_history S @ enqueued (sy_server S) s')) \<Longrightarrow>
    system_step U cfg (Served r) S
      (S\<lparr>sy_server := s', sy_history := sy_history S @ enqueued (sy_server S) s'\<rparr>)"
| attempt: "(jid, OnboardOrg args) \<in> set (ss_jobs (sy_server S)) \<Longrightarrow> jsonb_objects jb \<Longrightarrow>
    through_queue jb U args = Inr args' \<Longrightarrow>
    OnboardOrgWorker_Work U wenv (sy_rows S) jid args' () = (out, rows', u) \<Longrightarrow>
    system_step U cfg (Attempted jid) S (S\<lparr>sy_rows := rows'\<rparr>)"
| remove: "system_step U cfg (Removed jid) S (S\<lparr>sy_server := remove_job jid (sy_server S)\<rparr>)"

inductive_cases served_stepE: "system_step U cfg (Served r) S S'"
inductive_cases attempted_stepE: "system_step U cfg (Attempted j) S S'"
inductive_cases removed_stepE: "system_step U cfg (Removed j) S S'"

text \<open>The requests served so far are kept in order.\<close>

inductive reachable :: "go_lib \<Rightarrow> AppConfig \<Rightarrow> request list \<Rightarrow> 'w system \<Rightarrow> bool"
  for U :: go_lib and cfg :: AppConfig where
  boot: "ss_jobs s = [] \<Longrightarrow> reachable U cfg [] \<lparr>sy_server = s, sy_rows = [], sy_history = []\<rparr>"
| step: "reachable U cfg rs S \<Longrightarrow> system_step U cfg l S S' \<Longrightarrow> reachable U cfg (rs @ served l) S'"

definition enqueued_by :: "go_lib \<Rightarrow> AppConfig \<Rightarrow> request list \<Rightarrow> job_args \<Rightarrow> bool" where
  "enqueued_by U cfg rs a \<longleftrightarrow> (\<exists>q\<in>set rs. authorised cfg q \<and> requested U q a)"

text \<open>The invariant: distinct job ids; every job is one that was enqueued; every job that was enqueued
  was requested; every row is the completed workflow of a job.\<close>

definition row_of_job :: "(int64 \<times> job_args) list \<Rightarrow> int64 \<Rightarrow> ws_row \<Rightarrow> bool" where
  "row_of_job jobs k r \<longleftrightarrow>
     (\<exists>args. (k, OnboardOrg args) \<in> set jobs \<and>
       (length (oa_ClientID args) \<le> 50 \<longrightarrow> row_client_id r = oa_ClientID args))"

definition system_ok :: "go_lib \<Rightarrow> AppConfig \<Rightarrow> request list \<Rightarrow> 'w system \<Rightarrow> bool" where
  "system_ok U cfg rs S \<longleftrightarrow>
     distinct (map fst (sy_history S)) \<and>
     set (ss_jobs (sy_server S)) \<subseteq> set (sy_history S) \<and>
     (\<forall>(k, a)\<in>set (sy_history S). enqueued_by U cfg rs a) \<and>
     all_completed 7 (sy_rows S) \<and>
     (\<forall>k r. find_row (sy_rows S) k = Some r \<longrightarrow> row_of_job (sy_history S) k r)"

lemma enqueued_by_mono: "enqueued_by U cfg rs a \<Longrightarrow> enqueued_by U cfg (rs @ rs') a"
  by (auto simp: enqueued_by_def)

text \<open>A request adds at most one job, and only if it was authorised and valid.\<close>

lemma serve_enqueued:
  assumes "NewServer cfg = Returns h" and "he_lib env = U" and "serve h env r s = (rep, s')"
  shows "ss_jobs s' = ss_jobs s @ enqueued s s'" "length (enqueued s s') \<le> 1"
    "(k, a) \<in> set (enqueued s s') \<Longrightarrow> authorised cfg r \<and> requested U r a"
  using serve_jobs [OF assms(1), of env r s] assms(2,3) by (auto simp: enqueued_def)

lemma request_keeps:
  assumes "system_ok U cfg rs S" and "NewServer cfg = Returns h" and "he_lib env = U"
    and "serve h env r (sy_server S) = (rep, s')"
    and "distinct (map fst (sy_history S @ enqueued (sy_server S) s'))"
  shows "system_ok U cfg (rs @ [r]) (S\<lparr>sy_server := s', sy_history := sy_history S @ enqueued (sy_server S) s'\<rparr>)"
proof -
  let ?new = "enqueued (sy_server S) s'"
  note new = serve_enqueued [OF assms(2-4)]
  have "enqueued_by U cfg (rs @ [r]) a" if "(k, a) \<in> set (sy_history S @ ?new)" for k a
    using that assms(1) new(3) [of k a]
    by (auto simp: system_ok_def enqueued_by_def)
  moreover have "row_of_job (sy_history S @ ?new) k r0" if "find_row (sy_rows S) k = Some r0" for k r0
    using assms(1) that by (fastforce simp: system_ok_def row_of_job_def)
  moreover have "set (ss_jobs s') \<subseteq> set (sy_history S @ ?new)"
    using assms(1) new(1) by (auto simp: system_ok_def)
  ultimately show ?thesis using assms(1,5) by (auto simp: system_ok_def)
qed

lemma remove_keeps: "system_ok U cfg rs S \<Longrightarrow> system_ok U cfg rs (S\<lparr>sy_server := remove_job j (sy_server S)\<rparr>)"
  by (auto simp: system_ok_def remove_job_def)

lemma attempt_keeps_client:
  assumes "OnboardOrgWorker_Work U wenv db j args w = (out, db', w')" and "length (oa_ClientID args) \<le> 50"
    and "\<And>r. find_row db j = Some r \<Longrightarrow> row_client_id r = oa_ClientID args"
    and "find_row db' j = Some r"
  shows "row_client_id r = oa_ClientID args"
  using assms(1)[unfolded OnboardOrgWorker_Work_def]
proof (cases rule: work_with_cases)
  case unchanged
  with assms(3,4) show ?thesis by simp
next
  case (committed d tx)
  have "pgx.client_is j (oa_ClientID args) (tx_view (begin_tx db))"
    using assms(3) by (simp add: pgx.client_is_def tx_view_def begin_tx_def)
  from pgx.Run_client [OF committed(2) assms(2) this] committed(3) assms(4) show ?thesis
    by (simp add: pgx.client_is_def tx_view_def)
qed

lemma attempt_keeps_others:
  assumes "OnboardOrgWorker_Work U wenv db j args w = (out, db', w')" and "k \<noteq> j"
  shows "find_row db' k = find_row db k"
  using assms(1)[unfolded OnboardOrgWorker_Work_def]
proof (cases rule: work_with_cases)
  case (committed d tx)
  from pgx.Run_other [OF committed(2) onboard_steps_total(2) assms(2)] committed(3) show ?thesis
    by (simp add: tx_view_def begin_tx_def)
qed simp

text \<open>A worker gets the arguments the job was enqueued with.\<close>

lemma queued_args:
  assumes "system_ok U cfg rs S" and "(j, OnboardOrg args) \<in> set (ss_jobs (sy_server S))"
    and "jsonb_objects jb" and "through_queue jb U args = Inr args'"
  shows "args' = args"
proof -
  from assms(1,2) obtain q where q: "requested U q (OnboardOrg args)"
    by (fastforce simp: system_ok_def enqueued_by_def)
  obtain raw where "through_queue jb U args = map_sum (\<lambda>e. e) (\<lambda>stored. args) (jb raw)"
    by (rule through_queue_utf8 [OF requested_utf8 [OF q] assms(3)])
  with assms(4) show ?thesis by (cases "jb raw") auto
qed

lemma attempt_keeps:
  assumes ok: "system_ok U cfg rs S" and job: "(j, OnboardOrg args) \<in> set (ss_jobs (sy_server S))"
    and queue: "jsonb_objects jb" "through_queue jb U args = Inr args'"
    and work': "OnboardOrgWorker_Work U wenv (sy_rows S) j args' () = (out, rows', u)"
  shows "system_ok U cfg rs (S\<lparr>sy_rows := rows'\<rparr>)"
proof -
  let ?jobs = "sy_history S"
  from queued_args [OF ok job queue] work' have work:
    "OnboardOrgWorker_Work U wenv (sy_rows S) j args () = (out, rows', u)" by simp
  have seven: "length (onboard_steps :: unit step list) = 7" by (simp add: onboard_steps_def)
  have "all_completed 7 rows'"
    using work_keeps_completed [OF _ onboard_steps_total(2) work[unfolded OnboardOrgWorker_Work_def], unfolded seven] ok
    unfolding system_ok_def by blast
  moreover have "row_of_job ?jobs k r" if r: "find_row rows' k = Some r" for k r
  proof (cases "k = j")
    case False
    with attempt_keeps_others [OF work False] r ok show ?thesis by (simp add: system_ok_def)
  next
    case True
    have same: "a = OnboardOrg args" if "(j, a) \<in> set ?jobs" for a
      using that job ok by (auto simp: system_ok_def dest: eq_key_imp_eq_value)
    have hist: "(j, OnboardOrg args) \<in> set ?jobs" using job ok by (auto simp: system_ok_def)
    have "row_client_id r0 = oa_ClientID args" if "find_row (sy_rows S) j = Some r0" "length (oa_ClientID args) \<le> 50" for r0
      using ok that same by (fastforce simp: system_ok_def row_of_job_def)
    with attempt_keeps_client [OF work] r True hist show ?thesis by (auto simp: row_of_job_def)
  qed
  ultimately show ?thesis using ok by (simp add: system_ok_def)
qed

lemma step_keeps:
  assumes "system_step U cfg l S S'" and "system_ok U cfg rs S"
  shows "system_ok U cfg (rs @ served l) S'"
  using assms
proof (cases rule: system_step.cases)
  case (request h env r rep s')
  with assms(2) show ?thesis using request_keeps by fastforce
next
  case (attempt jid args jb args' wenv out rows' u)
  with assms(2) show ?thesis using attempt_keeps by fastforce
next
  case (remove jid)
  with assms(2) remove_keeps show ?thesis by fastforce
qed

lemma reachable_ok: "reachable U cfg rs S \<Longrightarrow> system_ok U cfg rs S"
proof (induction rule: reachable.induct)
  case (boot s)
  then show ?case by (simp add: system_ok_def all_completed_def)
next
  case step
  then show ?case by (intro step_keeps)
qed

text \<open>C3: nothing reaches the table without a request. In every state the service can get to, by any
  interleaving of requests, attempts and removals and with any failures, each row of \<open>workflow_state\<close> is
  the completed workflow of an enqueued onboarding job whose request was among those
  served: a \<open>POST\<close> with the right API key and a valid body that has the job's arguments. The row
  carries the client id of that request (when that has at most 50 bytes).\<close>

theorem rows_come_from_authorised_requests:
  assumes "reachable U cfg rs S" and "find_row (sy_rows S) k = Some r"
  shows "row_status r = StatusCompleted \<and> row_current_step r = 7 \<and>
    (\<exists>args q. (k, OnboardOrg args) \<in> set (sy_history S) \<and> q \<in> set rs \<and> authorised cfg q \<and>
       requested U q (OnboardOrg args) \<and>
       (length (oa_ClientID args) \<le> 50 \<longrightarrow> row_client_id r = oa_ClientID args))"
proof -
  note ok = reachable_ok [OF assms(1)]
  from ok assms(2) have "recorded (Some r) (StatusCompleted, [], int 7)"
    by (auto simp: system_ok_def all_completed_def)
  moreover from ok assms(2) have "row_of_job (sy_history S) k r" by (simp add: system_ok_def)
  then obtain args where "(k, OnboardOrg args) \<in> set (sy_history S)"
    "length (oa_ClientID args) \<le> 50 \<longrightarrow> row_client_id r = oa_ClientID args"
    by (auto simp: row_of_job_def)
  moreover from this(1) ok have "enqueued_by U cfg rs (OnboardOrg args)" by (auto simp: system_ok_def)
  ultimately show ?thesis by (auto simp: enqueued_by_def)
qed

lemma sample_queued: "through_queue Inr ascii_tables (onboard_args_of sample_onboard) = Inr (onboard_args_of sample_onboard)"
proof -
  have "texts_utf8 (onboard_args_of sample_onboard)"
    by (simp add: texts_utf8_def onboard_fields_def onboard_args_of_def sample_onboard_def zero_OnboardOrgRequest_def
      utf8_valid_ascii)
  then show ?thesis
    by (rule through_queue_utf8 [OF _ jsonb_objects_Inr, where U = ascii_tables]) simp
qed

abbreviation sample_cfg :: AppConfig where
  "sample_cfg \<equiv> Load dev_build sample_getenv"

text \<open>A service that accepted the sample request and finished its job.\<close>

lemma sample_service:
  obtains S1 S2 :: "http_request list system" and r where
    "reachable ascii_tables sample_cfg [onboard_request] S1" "sy_rows S1 = []"
    "system_step ascii_tables sample_cfg (Attempted 42) S1 S2"
    "find_row (sy_rows S2) 42 = Some r"
    "ss_jobs (sy_server S1) = [(42, OnboardOrg (onboard_args_of sample_onboard))]"
proof -
  let ?args = "onboard_args_of sample_onboard"
  obtain h :: "http_request list handler" where h: "NewServer sample_cfg = Returns h" by (rule that [OF NewServer_eq])
  obtain rep s' where sv: "serve h org_http_env onboard_request sample_server = (rep, s')" by fastforce
  have jobs: "ss_jobs s' = [(42, OnboardOrg ?args)]" using sample_served [OF h] by (simp add: sv)
  have s0: "reachable ascii_tables sample_cfg [] \<lparr>sy_server = sample_server, sy_rows = [], sy_history = []\<rparr>"
    by (rule reachable.boot) (simp add: sample_server_def)
  let ?S1 = "\<lparr>sy_server = s', sy_rows = [], sy_history = [(42, OnboardOrg ?args)]\<rparr>"
  have new: "enqueued sample_server s' = [(42, OnboardOrg ?args)]" by (simp add: enqueued_def jobs) (simp add: sample_server_def)
  have s1: "reachable ascii_tables sample_cfg [onboard_request] ?S1"
    using reachable.step [OF s0 system_step.request [OF h, of org_http_env]] sv new
    by (fastforce simp: org_http_env_def sample_vcd_env_def)
  have cid: "pg_varchar 50 (oa_ClientID ?args) = Inr ''acme''"
    by (simp add: onboard_args_of_def sample_onboard_def sample_cols)
  obtain db' where work: "OnboardOrgWorker_Work ascii_tables good_work_env [] 42 ?args () = (Returns None, db', ())"
    and rec: "recorded (find_row db' 42) (StatusCompleted, [], 7)"
    using work_completes_rows [OF _ _ _ _ _ cid, of good_work_env "[]" 42 ascii_tables "()"] plain_good sample_data
    by (auto simp: OnboardOrgWorker_Work_def)
  have s2: "system_step ascii_tables sample_cfg (Attempted 42) ?S1 (?S1\<lparr>sy_rows := db'\<rparr>)"
    by (rule system_step.attempt [where args = ?args and args' = ?args and jb = Inr and wenv = good_work_env and u = "()"])
      (use jobs work sample_queued jsonb_objects_Inr in simp_all)
  obtain r where r: "find_row db' 42 = Some r" using rec by (cases "find_row db' 42") auto
  show thesis by (rule that [OF s1 _ s2]) (use r jobs in simp_all)
qed

lemma rows_come_from_authorised_requests_witness:
  "\<exists>S r. reachable ascii_tables sample_cfg [onboard_request] (S :: http_request list system) \<and>
    find_row (sy_rows S) 42 = Some r \<and> row_status r = StatusCompleted \<and> authorised sample_cfg onboard_request"
proof -
  obtain S1 S2 :: "http_request list system" and r where s: "reachable ascii_tables sample_cfg [onboard_request] S1"
    "system_step ascii_tables sample_cfg (Attempted 42) S1 S2" "find_row (sy_rows S2) 42 = Some r"
    by (rule sample_service)
  from reachable.step [OF s(1,2)] have s2: "reachable ascii_tables sample_cfg [onboard_request] S2" by simp
  from rows_come_from_authorised_requests [OF s2 s(3)] s2 s(3) show ?thesis by auto
qed

end
