(* ===== verification/Ledger.thy ===== *)
theory Ledger
  imports System
begin

text \<open>
  What the service promises, without its parts: a ledger of the jobs that were accepted and of
  the jobs whose workflow has finished, with the client id it was recorded for. Serving a
  request may enter one authorised job under a new id; an attempt may finish its job, once; a
  job that River removes stays in the ledger, finished or not; nothing else ever happens. The server, the queue, the runner and the transactions of
  \<open>System\<close> refine this.
\<close>

section \<open>Simulations\<close>

text \<open>The contract of a refinement: an invariant of the concrete machine under which each of its
  steps is a step of the abstract one between the abstractions.\<close>

locale simulation =
  fixes cstep :: "'l \<Rightarrow> 'c \<Rightarrow> 'c \<Rightarrow> bool" and astep :: "'l \<Rightarrow> 'a \<Rightarrow> 'a \<Rightarrow> bool"
    and inv :: "'c \<Rightarrow> bool" and abs :: "'c \<Rightarrow> 'a"
  assumes inv_step: "cstep l c c' \<Longrightarrow> inv c \<Longrightarrow> inv c'"
    and abs_step: "cstep l c c' \<Longrightarrow> inv c \<Longrightarrow> astep l (abs c) (abs c')"
begin

text \<open>What every abstract step keeps, the concrete machine keeps.\<close>

lemma transfer:
  assumes keeps: "\<And>l a a'. astep l a a' \<Longrightarrow> P a \<Longrightarrow> P a'"
    and run: "(\<lambda>c c'. \<exists>l. cstep l c c')\<^sup>*\<^sup>* c c'" and inv: "inv c" and P: "P (abs c)"
  shows "inv c' \<and> P (abs c')"
  using run
proof (induction rule: rtranclp_induct)
  case base
  from inv P show ?case by simp
next
  case (step c1 c2)
  then obtain l where l: "cstep l c1 c2" by blast
  from step.IH inv_step [OF l] keeps [OF abs_step [OF l]] show ?case by blast
qed

end

section \<open>The ledger\<close>

record ledger =
  lg_accepted :: "(int64 \<times> job_args) list"
  lg_finished :: "int64 \<Rightarrow> string option"

definition empty_ledger :: ledger where
  "empty_ledger = \<lparr>lg_accepted = [], lg_finished = (\<lambda>_. None)\<rparr>"

definition accept :: "int64 \<Rightarrow> job_args \<Rightarrow> ledger \<Rightarrow> ledger" where
  "accept j a L = L\<lparr>lg_accepted := lg_accepted L @ [(j, a)]\<rparr>"

definition finish :: "int64 \<Rightarrow> string \<Rightarrow> ledger \<Rightarrow> ledger" where
  "finish j c L = L\<lparr>lg_finished := (lg_finished L)(j \<mapsto> c)\<rparr>"

fun ledger_step :: "go_lib \<Rightarrow> AppConfig \<Rightarrow> label \<Rightarrow> ledger \<Rightarrow> ledger \<Rightarrow> bool" where
  "ledger_step U cfg (Served q) L L' \<longleftrightarrow>
     L' = L \<or>
     (\<exists>j a. authorised cfg q \<and> requested U q a \<and> j \<notin> fst ` set (lg_accepted L) \<and> L' = accept j a L)"
| "ledger_step U cfg (Attempted j) L L' \<longleftrightarrow>
     L' = L \<or>
     (\<exists>args c. (j, OnboardOrg args) \<in> set (lg_accepted L) \<and> lg_finished L j = None \<and>
        (length (oa_ClientID args) \<le> 50 \<longrightarrow> c = oa_ClientID args) \<and> L' = finish j c L)"
| "ledger_step U cfg (Removed j) L L' \<longleftrightarrow> L' = L"

text \<open>The ledger of a state of the service.\<close>

definition ledger_of :: "'w system \<Rightarrow> ledger" where
  "ledger_of S =
     \<lparr>lg_accepted = sy_history S,
      lg_finished = (\<lambda>k. map_option row_client_id (find_row (sy_rows S) k))\<rparr>"

section \<open>The service refines the ledger\<close>

lemma attempt_row_stays:
  assumes "OnboardOrgWorker_Work U wenv db j args w = (out, db', w')" and "find_row db k = Some r"
  shows "\<exists>r'. find_row db' k = Some r' \<and> row_client_id r' = row_client_id r"
  using assms(1)[unfolded OnboardOrgWorker_Work_def]
proof (cases rule: work_with_cases)
  case unchanged
  with assms(2) show ?thesis by simp
next
  case (committed d tx)
  have "pgx.row_stays k (row_client_id r) (tx_view (begin_tx db))"
    using assms(2) by (simp add: pgx.row_stays_def tx_view_def begin_tx_def)
  from pgx.Run_stays [OF committed(2) this] committed(3) show ?thesis
    by (auto simp: pgx.row_stays_def tx_view_def)
qed

lemma serve_refines:
  assumes ok: "system_ok U cfg rs S" and step: "system_step U cfg (Served q) S S'"
  shows "ledger_step U cfg (Served q) (ledger_of S) (ledger_of S')"
proof -
  from step obtain h env rep s' where s: "NewServer cfg = Returns h" "he_lib env = U"
    "serve h env q (sy_server S) = (rep, s')" "distinct (map fst (sy_history S @ enqueued (sy_server S) s'))"
    and S': "S' = S\<lparr>sy_server := s', sy_history := sy_history S @ enqueued (sy_server S) s'\<rparr>"
    by (rule served_stepE) (rule that; simp)
  note new = serve_enqueued [OF s(1-3)]
  show ?thesis
  proof (cases "enqueued (sy_server S) s'")
    case Nil
    with S' show ?thesis by (simp add: ledger_of_def)
  next
    case (Cons x xs)
    with new(2) obtain j a where x: "enqueued (sy_server S) s' = [(j, a)]" by (cases x) simp
    with s(4) have "j \<notin> fst ` set (sy_history S)" by simp
    with new(3) [of j a] x S' show ?thesis by (auto simp: ledger_of_def accept_def)
  qed
qed

lemma attempt_refines:
  assumes ok: "system_ok U cfg rs S" and step: "system_step U cfg (Attempted j) S S'"
  shows "ledger_step U cfg (Attempted j) (ledger_of S) (ledger_of S')"
proof -
  from step obtain args jb args' wenv out rows' u where s: "S' = S\<lparr>sy_rows := rows'\<rparr>"
    "(j, OnboardOrg args) \<in> set (ss_jobs (sy_server S))" "jsonb_objects jb" "through_queue jb U args = Inr args'"
    "OnboardOrgWorker_Work U wenv (sy_rows S) j args' () = (out, rows', u)" by (rule attempted_stepE)
  from queued_args [OF ok s(2,3,4)] s(5)
  have work: "OnboardOrgWorker_Work U wenv (sy_rows S) j args () = (out, rows', u)" by simp
  have hist: "(j, OnboardOrg args) \<in> set (sy_history S)" using ok s(2) by (auto simp: system_ok_def)
  let ?old = "find_row (sy_rows S)" and ?new = "find_row rows'"
  have other: "?new k = ?old k" if "k \<noteq> j" for k using attempt_keeps_others [OF work that] .
  show ?thesis
  proof (cases "?old j")
    case (Some r)
    from attempt_row_stays [OF work Some] Some
    have "map_option row_client_id (?new k) = map_option row_client_id (?old k)" for k
      by (cases "k = j") (auto simp: other)
    then show ?thesis using s(1) by (simp add: ledger_of_def)
  next
    case None
    show ?thesis
    proof (cases "?new j")
      case new: None
      have "?new k = ?old k" for k by (cases "k = j") (simp_all add: other None new)
      then show ?thesis using s(1) by (simp add: ledger_of_def)
    next
      case (Some r)
      have "length (oa_ClientID args) \<le> 50 \<longrightarrow> row_client_id r = oa_ClientID args"
        using attempt_keeps_client [OF work _ _ Some] None by simp
      moreover have "ledger_of S' = finish j (row_client_id r) (ledger_of S)"
        using s(1) Some other by (auto simp: ledger_of_def finish_def)
      ultimately show ?thesis using hist None by (auto simp: ledger_of_def)
    qed
  qed
qed

definition some_ok :: "go_lib \<Rightarrow> AppConfig \<Rightarrow> 'w system \<Rightarrow> bool" where
  "some_ok U cfg S \<longleftrightarrow> (\<exists>rs. system_ok U cfg rs S)"

lemma step_refines:
  assumes "system_step U cfg l S S'" and "system_ok U cfg rs S"
  shows "ledger_step U cfg l (ledger_of S) (ledger_of S')"
proof (cases l)
  case (Served q)
  with serve_refines [OF assms(2)] assms(1) show ?thesis by blast
next
  case (Attempted j)
  with attempt_refines [OF assms(2)] assms(1) show ?thesis by blast
next
  case (Removed j)
  with assms(1) show ?thesis by (auto simp: ledger_of_def elim: removed_stepE)
qed

interpretation service: simulation "system_step U cfg" "ledger_step U cfg" "some_ok U cfg" ledger_of for U cfg
  by unfold_locales (auto simp: some_ok_def intro: step_refines dest: step_keeps)

lemma fresh_ledger:
  assumes "system_ok U cfg [] S"
  shows "ledger_of S = empty_ledger"
proof -
  from assms have none: "sy_history S = []"
    by (cases "sy_history S") (auto simp: system_ok_def enqueued_by_def)
  with assms have "find_row (sy_rows S) k = None" for k
    by (cases "find_row (sy_rows S) k") (auto simp: system_ok_def row_of_job_def)
  with none show ?thesis by (simp add: ledger_of_def empty_ledger_def)
qed

text \<open>C2: the service refines its ledger. As long as no request was served the ledger is empty; from
  any reachable state, serving a request changes nothing in the ledger or enters one job, asked
  for by that authorised and valid request, under an id that is new; an attempt changes nothing
  or finishes its own, accepted and not yet finished job, under the client id of the
  request (when that fits its column); and removing a job changes nothing.\<close>

theorem service_refines_ledger:
  assumes "reachable U cfg rs S"
  shows "(rs = [] \<longrightarrow> ledger_of S = empty_ledger) \<and>
    (\<forall>l S'. system_step U cfg l S S' \<longrightarrow> reachable U cfg (rs @ served l) S' \<and>
       ledger_step U cfg l (ledger_of S) (ledger_of S'))"
  using step_refines [OF _ reachable_ok [OF assms]] reachable.step [OF assms] reachable_ok [OF assms] fresh_ledger
  by auto

definition kept :: "int64 \<Rightarrow> string \<Rightarrow> ledger \<Rightarrow> bool" where
  "kept k c L \<longleftrightarrow> lg_finished L k = Some c"

lemma ledger_step_kept: "ledger_step U cfg l L L' \<Longrightarrow> kept k c L \<Longrightarrow> kept k c L'"
  by (cases l) (auto simp: kept_def accept_def finish_def)

text \<open>C9: what is finished stays finished. Once a job has its row in \<open>workflow_state\<close>, then after any
  further requests, attempts, of this job or of others and whatever fails in them, and
  removals of jobs, of this one too, the row is still there, completed and for the same client.\<close>

theorem finished_stays_finished:
  assumes "reachable U cfg rs S" and "find_row (sy_rows S) k = Some r"
    and "(\<lambda>S S'. \<exists>l. system_step U cfg l S S')\<^sup>*\<^sup>* S S'"
  shows "\<exists>r'. find_row (sy_rows S') k = Some r' \<and> row_status r' = StatusCompleted \<and>
    row_current_step r' = 7 \<and> row_client_id r' = row_client_id r"
proof -
  have "some_ok U cfg S" using reachable_ok [OF assms(1)] by (auto simp: some_ok_def)
  moreover have "kept k (row_client_id r) (ledger_of S)"
    using assms(2) by (simp add: kept_def ledger_of_def)
  ultimately have k: "some_ok U cfg S'" "kept k (row_client_id r) (ledger_of S')"
    using service.transfer [of U cfg "kept k (row_client_id r)", OF _ assms(3)] ledger_step_kept
    by blast+
  from k(1) have "all_completed 7 (sy_rows S')" by (auto simp: some_ok_def system_ok_def)
  with k(2) show ?thesis by (auto simp: kept_def ledger_of_def all_completed_def)
qed

lemma service_refines_ledger_witness:
  "\<exists>S1 S2 :: http_request list system. system_step ascii_tables sample_cfg (Attempted 42) S1 S2 \<and>
    lg_finished (ledger_of S1) 42 = None \<and> lg_finished (ledger_of S2) 42 = Some ''acme'' \<and>
    ledger_step ascii_tables sample_cfg (Attempted 42) (ledger_of S1) (ledger_of S2)"
proof -
  obtain S1 S2 :: "http_request list system" and r where s: "reachable ascii_tables sample_cfg [onboard_request] S1"
    "sy_rows S1 = []" "system_step ascii_tables sample_cfg (Attempted 42) S1 S2" "find_row (sy_rows S2) 42 = Some r"
    "ss_jobs (sy_server S1) = [(42, OnboardOrg (onboard_args_of sample_onboard))]"
    by (rule sample_service)
  from service_refines_ledger [OF s(1)] s(3)
  have l: "ledger_step ascii_tables sample_cfg (Attempted 42) (ledger_of S1) (ledger_of S2)" by blast
  have n: "lg_finished (ledger_of S1) 42 = None" by (simp add: ledger_of_def s(2))
  have f: "lg_finished (ledger_of S2) 42 = Some (row_client_id r)" by (simp add: ledger_of_def s(4))
  have history: "(42, OnboardOrg (onboard_args_of sample_onboard)) \<in> set (sy_history S1)"
    using reachable_ok [OF s(1)] s(5) by (auto simp: system_ok_def)
  have "oa_ClientID (onboard_args_of sample_onboard) = ''acme''" by (simp add: onboard_args_of_def sample_onboard_def)
  moreover have same: "a = OnboardOrg (onboard_args_of sample_onboard)" if "(42, a) \<in> set (sy_history S1)" for a
    using reachable_ok [OF s(1)] history that by (auto simp: system_ok_def dest: eq_key_imp_eq_value)
  moreover have "ledger_of S2 \<noteq> ledger_of S1" using n f by auto
  with l obtain args c where "(42, OnboardOrg args) \<in> set (sy_history S1)"
    "length (oa_ClientID args) \<le> 50 \<longrightarrow> c = oa_ClientID args" "ledger_of S2 = finish 42 c (ledger_of S1)"
    by (auto simp: ledger_of_def)
  ultimately have "row_client_id r = ''acme''" using f by (auto simp: finish_def dest!: same)
  with l n f s(3) show ?thesis by auto
qed

text \<open>The finished job is removed: its row stays.\<close>

lemma finished_stays_finished_witness:
  "\<exists>S S' r. reachable ascii_tables sample_cfg [onboard_request] (S :: http_request list system) \<and>
    system_step ascii_tables sample_cfg (Removed 42) S S' \<and> ss_jobs (sy_server S') = [] \<and>
    find_row (sy_rows S') 42 = Some r \<and> row_status r = StatusCompleted"
proof -
  obtain S1 S2 :: "http_request list system" and r where s: "reachable ascii_tables sample_cfg [onboard_request] S1"
    "system_step ascii_tables sample_cfg (Attempted 42) S1 S2" "find_row (sy_rows S2) 42 = Some r"
    "ss_jobs (sy_server S1) = [(42, OnboardOrg (onboard_args_of sample_onboard))]"
    by (rule sample_service)
  from reachable.step [OF s(1,2)] have s2: "reachable ascii_tables sample_cfg [onboard_request] S2" by simp
  let ?S3 = "S2\<lparr>sy_server := remove_job 42 (sy_server S2)\<rparr>"
  have s3: "system_step ascii_tables sample_cfg (Removed 42) S2 ?S3" by (rule system_step.remove)
  then have "(\<lambda>S S'. \<exists>l. system_step ascii_tables sample_cfg l S S')\<^sup>*\<^sup>* S2 ?S3" by blast
  from finished_stays_finished [OF s2 s(3) this] obtain r' where
    "find_row (sy_rows ?S3) 42 = Some r'" "row_status r' = StatusCompleted" by blast
  moreover from s(2) have "ss_jobs (sy_server S2) = ss_jobs (sy_server S1)" by (auto elim: attempted_stepE)
  then have "ss_jobs (sy_server ?S3) = []" using s(4) by (simp add: remove_job_def)
  ultimately show ?thesis using s2 s3 by blast
qed

end
