(* ===== verification/Debug.thy ===== *)
theory Debug
  imports Server "HOL-Library.Log_Nat"
begin

text \<open>
  \<open>cmd/hbsqueue/debug.go\<close>: the listener for profiling on a port of its own. Its multiplexer with
  a subtree pattern, the handler of the dashboard with the page it serves, the metrics that
  are published for it, and what the script of the page makes of them. The handlers of
  \<open>net/http/pprof\<close> and \<open>expvar\<close> are parameters. What is shown: neither listener serves the
  paths of the other, and the page fits the multiplexer, its script and the metrics.
\<close>

section \<open>The multiplexer\<close>

record 'w debug_lib =
  dl_Index :: "'w handler"
  dl_Cmdline :: "'w handler"
  dl_Profile :: "'w handler"
  dl_Symbol :: "'w handler"
  dl_Trace :: "'w handler"
  dl_expvar :: "'w handler"

text \<open>A pattern without a method serves every method; one that ends in a slash serves everything
  below it. Of the patterns that match, the longest is the most specific.\<close>

definition subtree_matches :: "string \<Rightarrow> string \<Rightarrow> bool" where
  "subtree_matches pat escaped \<longleftrightarrow>
     (let ts = map segment (split_char CHR ''/'' (tl escaped)); ps = butlast (split_char CHR ''/'' (tl pat))
      in length ps < length ts \<and> take (length ps) ts = ps)"

definition any_matches :: "string \<Rightarrow> string \<Rightarrow> bool" where
  "any_matches pat escaped \<longleftrightarrow>
     (if last pat = CHR ''/'' then subtree_matches pat escaped else route_matches pat escaped)"

definition any_find :: "'w mux \<Rightarrow> string \<Rightarrow> 'w handler option" where
  "any_find mux escaped =
     map_option (\<lambda>(m, p, h). h)
       (find (\<lambda>(m, p, h). any_matches p escaped) (sort_key (\<lambda>(m, p, h). - int (length p)) mux))"

text \<open>A path that is only served with a slash added is redirected there.\<close>

definition wants_slash :: "'w mux \<Rightarrow> string \<Rightarrow> bool" where
  "wants_slash mux path \<longleftrightarrow>
     last path \<noteq> CHR ''/'' \<and> any_find mux path = None \<and>
     list_ex (\<lambda>(m, p, h). last p = CHR ''/'' \<and> route_matches p (path @ ''/'')) mux"

definition any_ServeHTTP :: "'w mux \<Rightarrow> 'w handler" where
  "any_ServeHTTP mux env r w s =
     (let escaped = rq_escaped r;
          path = (if rq_method r = ''CONNECT'' then escaped else cleanPath escaped)
      in if escaped = ''*'' then (Returns (), WriteHeader 400 (header_set ''Connection'' ''close'' w), s)
         else if wants_slash mux path then (Returns (), redirect (he_redirect env (path @ ''/'')) r w, s)
         else if path \<noteq> escaped then (Returns (), redirect (he_redirect env path) r w, s)
         else case any_find mux escaped of
           Some h \<Rightarrow> h env r w s
         | None \<Rightarrow> (Returns (), http_Error ''404 page not found'' 404 w, s))"

section \<open>The dashboard\<close>

text \<open>The page in three parts, line by line. The template has no action, so executing it writes the
  text as it is.\<close>

definition dashboard_head :: "string list" where
  "dashboard_head = [
     ''<!DOCTYPE html>'',
     ''<html>'',
     ''<head>'',
     ''<meta charset=\"utf-8\">'',
     ''<title>hbs-queue debug dashboard</title>'',
     ''<style>'',
     ''  body { font-family: monospace; background: #1a1a2e; color: #e0e0e0; margin: 2em; }'',
     ''  h1 { color: #00d4ff; }'',
     ''  table { border-collapse: collapse; width: 100%; max-width: 800px; margin-top: 1em; }'',
     ''  th, td { text-align: left; padding: 6px 12px; border-bottom: 1px solid #333; }'',
     ''  th { color: #00d4ff; }'',
     ''  td.val { font-weight: bold; color: #7fff7f; }'',
     ''  .status { margin-top: 1em; color: #888; }'',
     ''  #error { color: #ff4444; }'',
     ''</style>'',
     ''</head>'']"

definition dashboard_body :: "string list" where
  "dashboard_body = [
     ''<body>'',
     ''<h1>hbs-queue debug</h1>'',
     ''<div class=\"status\">'',
     ''  next refresh in <span id=\"countdown\">10</span>s'',
     ''  <span id=\"error\"></span>'',
     ''</div>'',
     [],
     ''<h2>goroutines</h2>'',
     ''<table id=\"goroutines\"><tr><td>loading...</td></tr></table>'',
     [],
     ''<h2>memory</h2>'',
     ''<table id=\"memory\"><tr><td>loading...</td></tr></table>'',
     [],
     ''<h2>gc</h2>'',
     ''<table id=\"gc\"><tr><td>loading...</td></tr></table>'',
     [],
     ''<h2>scheduler</h2>'',
     ''<table id=\"scheduler\"><tr><td>loading...</td></tr></table>'',
     [],
     ''<h2>links</h2>'',
     ''<ul>'',
     ''  <li><a href=\"/debug/pprof/\">pprof index</a></li>'',
     ''  <li><a href=\"/debug/pprof/goroutine?debug=1\">goroutine stacks</a></li>'',
     ''  <li><a href=\"/debug/vars\">expvar JSON</a></li>'',
     ''</ul>'',
     []]"

definition dashboard_script :: "string list" where
  "dashboard_script = [
     ''<script>'',
     ''(function() {'',
     ''  const params = new URLSearchParams(window.location.search);'',
     ''  const intervalSec = parseInt(params.get('interval') || '10', 10);'',
     ''  const interval = intervalSec * 1000;'',
     ''  var remaining = intervalSec;'',
     ''  const countdownEl = document.getElementById('countdown');'',
     [],
     ''  setInterval(function() {'',
     ''    remaining--;'',
     ''    if (remaining < 0) remaining = intervalSec;'',
     ''    countdownEl.textContent = remaining;'',
     ''  }, 1000);'',
     [],
     ''  function fmt(n) {'',
     ''    if (typeof n !== 'number') return String(n);'',
     ''    if (n > 1024*1024*1024) return (n / (1024*1024*1024)).toFixed(1) + ' GiB';'',
     ''    if (n > 1024*1024) return (n / (1024*1024)).toFixed(1) + ' MiB';'',
     ''    if (n > 1024) return (n / 1024).toFixed(1) + ' KiB';'',
     ''    return String(n);'',
     ''  }'',
     [],
     ''  function renderTable(id, rows) {'',
     ''    const el = document.getElementById(id);'',
     ''    if (!rows.length) { el.innerHTML = '<tr><td>no data</td></tr>'; return; }'',
     ''    el.innerHTML = rows.map(function(r) {'',
     ''      return '<tr><td>' + r[0] + '</td><td class=\"val\">' + r[1] + '</td></tr>';'',
     ''    }).join('' @ [chr 39, chr 39] @ '');'',
     ''  }'',
     [],
     ''  function refresh() {'',
     ''    remaining = intervalSec;'',
     ''    countdownEl.textContent = remaining;'',
     ''    fetch('/debug/vars')'',
     ''      .then(function(r) { return r.json(); })'',
     ''      .then(function(data) {'',
     ''        document.getElementById('error').textContent = '' @ [chr 39, chr 39] @ '';'',
     ''        const rt = data.runtime || {};'',
     [],
     ''        renderTable('goroutines', ['',
     ''          ['/sched/goroutines/total:goroutines', fmt(rt['/sched/goroutines/total:goroutines'])],'',
     ''          ['/sched/goroutines-created:goroutines', fmt(rt['/sched/goroutines-created:goroutines'])],'',
     ''          ['/sched/threads:threads', fmt(rt['/sched/threads:threads'])],'',
     ''        ]);'',
     [],
     ''        renderTable('memory', ['',
     ''          ['/memory/classes/heap/objects:bytes', fmt(rt['/memory/classes/heap/objects:bytes'])],'',
     ''          ['/memory/classes/heap/stacks:bytes', fmt(rt['/memory/classes/heap/stacks:bytes'])],'',
     ''          ['/memory/classes/heap/released:bytes', fmt(rt['/memory/classes/heap/released:bytes'])],'',
     ''          ['/memory/classes/total:bytes', fmt(rt['/memory/classes/total:bytes'])],'',
     ''        ]);'',
     [],
     ''        renderTable('gc', ['',
     ''          ['/gc/cycles/total:gc-cycles', fmt(rt['/gc/cycles/total:gc-cycles'])],'',
     ''          ['/gc/gogc:percent', fmt(rt['/gc/gogc:percent'])],'',
     ''          ['/gc/gomemlimit:bytes', fmt(rt['/gc/gomemlimit:bytes'])],'',
     ''        ]);'',
     [],
     ''        renderTable('scheduler', ['',
     ''          ['/sched/gomaxprocs:threads', fmt(rt['/sched/gomaxprocs:threads'])],'',
     ''          ['/sched/threads:threads', fmt(rt['/sched/threads:threads'])],'',
     ''        ]);'',
     ''      })'',
     ''      .catch(function(err) {'',
     ''        document.getElementById('error').textContent = ' error: ' + err;'',
     ''      });'',
     ''  }'',
     [],
     ''  refresh();'',
     ''  setInterval(refresh, interval);'',
     ''})();'',
     ''</script>'',
     ''</body>'',
     ''</html>'']"

definition dashboardHTML :: string where
  "dashboardHTML = join_char (chr 10) (dashboard_head @ dashboard_body @ dashboard_script)"

definition handleDebugDashboard :: "'w handler" where
  "handleDebugDashboard env r w s =
     (Returns (), write_body dashboardHTML (header_set ''Content-Type'' ''text/html; charset=utf-8'' w), s)"

definition debug_routes :: "'w debug_lib \<Rightarrow> (string \<times> string \<times> 'w handler) list" where
  "debug_routes L =
     [([], ''/debug/pprof/'', dl_Index L),
      ([], ''/debug/pprof/cmdline'', dl_Cmdline L),
      ([], ''/debug/pprof/profile'', dl_Profile L),
      ([], ''/debug/pprof/symbol'', dl_Symbol L),
      ([], ''/debug/pprof/trace'', dl_Trace L),
      ([], ''/debug/vars'', dl_expvar L),
      ([], ''/debug/dashboard'', handleDebugDashboard)]"

definition newDebugMux :: "'w debug_lib \<Rightarrow> 'w mux go_result" where
  "newDebugMux L = register (debug_routes L) []"

section \<open>The published metrics\<close>

text \<open>A sample of \<open>runtime/metrics\<close> by its kind, and what is published under its name.\<close>

datatype 'f metric_value = KindUint64 "64 word" | KindFloat64 'f | KindBad | KindOther
datatype 'f number = Uint64 "64 word" | Float64 'f

fun add_metric :: "string \<times> 'f metric_value \<Rightarrow> 'f number gomap \<Rightarrow> 'f number gomap" where
  "add_metric (name, KindUint64 n) out = gm_set name (Uint64 n) out"
| "add_metric (name, KindFloat64 x) out = gm_set name (Float64 x) out"
| "add_metric (name, KindBad) out = out"
| "add_metric (name, KindOther) out = out"

definition runtime_metrics :: "(string \<times> 'f metric_value) list \<Rightarrow> 'f number gomap" where
  "runtime_metrics samples = fold add_metric samples []"

section \<open>The script of the page\<close>

text \<open>
  Numbers reach the script as JSON and become doubles: an integer of more than 53 bits is
  rounded to the nearest one, ties to even. Dividing by a power of 1024 is exact, and \<open>toFixed(1)\<close>
  rounds to the nearest tenth, up when two are equally near.
\<close>

definition to_double :: "nat \<Rightarrow> nat" where
  "to_double n =
     (if n < 2 ^ 53 then n
      else let u = 2 ^ (floorlog 2 n - 53); q = n div u; r = n mod u
           in if 2 * r < u \<or> 2 * r = u \<and> even q then q * u else (q + 1) * u)"

definition toFixed1 :: "nat \<Rightarrow> nat \<Rightarrow> string" where
  "toFixed1 n d = (let m = (20 * n + d) div (2 * d) in show_nat (m div 10) @ ''.'' @ show_nat (m mod 10))"

definition fmt_integer :: "nat \<Rightarrow> string" where
  "fmt_integer n =
     (if n > 1024 * 1024 * 1024 then toFixed1 n (1024 * 1024 * 1024) @ '' GiB''
      else if n > 1024 * 1024 then toFixed1 n (1024 * 1024) @ '' MiB''
      else if n > 1024 then toFixed1 n 1024 @ '' KiB''
      else show_nat n)"

text \<open>\<open>ff\<close> is what \<open>fmt\<close> makes of a number that was published from a \<open>float64\<close>; all metrics of the
  page are integers. A name that is not there is \<open>undefined\<close>.\<close>

definition fmt :: "('f \<Rightarrow> string) \<Rightarrow> 'f number option \<Rightarrow> string" where
  "fmt ff v =
     (case v of
        None \<Rightarrow> ''undefined''
      | Some (Uint64 n) \<Rightarrow> fmt_integer (to_double (unat n))
      | Some (Float64 x) \<Rightarrow> ff x)"

definition renderTable :: "(string \<times> string) list \<Rightarrow> string" where
  "renderTable rows =
     (if rows = [] then ''<tr><td>no data</td></tr>''
      else concat (map (\<lambda>(k, v). ''<tr><td>'' @ k @ ''</td><td class=\"val\">'' @ v @ ''</td></tr>'') rows))"

definition dashboard_tables :: "(string \<times> string list) list" where
  "dashboard_tables =
     [(''goroutines'', [''/sched/goroutines/total:goroutines'', ''/sched/goroutines-created:goroutines'',
        ''/sched/threads:threads'']),
      (''memory'', [''/memory/classes/heap/objects:bytes'', ''/memory/classes/heap/stacks:bytes'',
        ''/memory/classes/heap/released:bytes'', ''/memory/classes/total:bytes'']),
      (''gc'', [''/gc/cycles/total:gc-cycles'', ''/gc/gogc:percent'', ''/gc/gomemlimit:bytes'']),
      (''scheduler'', [''/sched/gomaxprocs:threads'', ''/sched/threads:threads''])]"

text \<open>The page: the seconds between refreshes (\<open>None\<close> when the parameter is no number), the seconds
  left, and the contents of its elements by their ids.\<close>

record page =
  pg_intervalSec :: "int option"
  pg_remaining :: "int option"
  pg_elements :: "string gomap"

text \<open>What happens to it: a second passes; a refresh begins; the answer of \<open>/debug/vars\<close> arrives, with
  its member \<open>runtime\<close> if it has one; fetching or parsing it fails.\<close>

datatype 'f page_event = Second | Refresh | Answered "'f number gomap option" | Failed string

definition show_js :: "int option \<Rightarrow> string" where
  "show_js n = (case n of None \<Rightarrow> ''NaN'' | Some i \<Rightarrow> itoa i)"

definition tick :: "page \<Rightarrow> page" where
  "tick p =
     (let left = map_option (\<lambda>i. i - 1) (pg_remaining p);
          left' = (case left of Some i \<Rightarrow> if i < 0 then pg_intervalSec p else left | None \<Rightarrow> left)
      in p\<lparr>pg_remaining := left', pg_elements := gm_set ''countdown'' (show_js left') (pg_elements p)\<rparr>)"

definition refresh :: "page \<Rightarrow> page" where
  "refresh p =
     p\<lparr>pg_remaining := pg_intervalSec p,
       pg_elements := gm_set ''countdown'' (show_js (pg_intervalSec p)) (pg_elements p)\<rparr>"

definition show_metrics :: "('f \<Rightarrow> string) \<Rightarrow> 'f number gomap \<Rightarrow> page \<Rightarrow> page" where
  "show_metrics ff rt p =
     p\<lparr>pg_elements :=
         fold (\<lambda>(elt, names). gm_set elt (renderTable (map (\<lambda>k. (k, fmt ff (gm_get rt k))) names)))
           dashboard_tables (gm_set ''error'' [] (pg_elements p))\<rparr>"

fun page_step :: "('f \<Rightarrow> string) \<Rightarrow> 'f page_event \<Rightarrow> page \<Rightarrow> page" where
  "page_step ff Second p = tick p"
| "page_step ff Refresh p = refresh p"
| "page_step ff (Answered rt) p = show_metrics ff (case rt of Some m \<Rightarrow> m | None \<Rightarrow> []) p"
| "page_step ff (Failed err) p = p\<lparr>pg_elements := gm_set ''error'' ('' error: '' @ err) (pg_elements p)\<rparr>"

text \<open>The page as it is loaded refreshes at once.\<close>

definition open_page :: "int option \<Rightarrow> page" where
  "open_page i =
     refresh \<lparr>pg_intervalSec = i, pg_remaining = i, pg_elements =
       gm_of_list [(''countdown'', ''10''), (''error'', []), (''goroutines'', ''<tr><td>loading...</td></tr>''),
         (''memory'', ''<tr><td>loading...</td></tr>''), (''gc'', ''<tr><td>loading...</td></tr>''),
         (''scheduler'', ''<tr><td>loading...</td></tr>'')]\<rparr>"

section \<open>The two listeners\<close>

lemma newDebugMux_eq: "newDebugMux L = Returns (debug_routes L)"
  by (simp add: newDebugMux_def debug_routes_def mux_Handle_def)

lemma any_find_Some:
  "any_find mux e = Some h \<Longrightarrow> \<exists>m p. (m, p, h) \<in> set mux \<and> any_matches p e"
  by (auto simp: any_find_def dest!: find_in_set) blast

lemma any_find_None_iff: "any_find mux e = None \<longleftrightarrow> list_all (\<lambda>(m, p, h). \<not> any_matches p e) mux"
  by (auto simp: any_find_def find_None_iff list_all_iff)

text \<open>The paths whose first segment is \<open>debug\<close>.\<close>

definition under_debug :: "string \<Rightarrow> bool" where
  "under_debug escaped \<longleftrightarrow> segment (hd (split_char CHR ''/'' (tl escaped))) = ''debug''"

lemma any_matches_debug:
  assumes "(m, p, h) \<in> set (debug_routes L)" and "any_matches p e"
  shows "under_debug e"
proof -
  let ?ts = "split_char CHR ''/'' (tl e)"
  obtain t ts where ts: "?ts = t # ts" by (cases ?ts) auto
  with assms show ?thesis
    by (auto simp: debug_routes_def any_matches_def subtree_matches_def route_matches_def under_debug_def Let_def)
qed

lemma route_matches_debug:
  assumes "(m, p, h) \<in> set (routes cfg)" and "under_debug e"
  shows "\<not> route_matches p e"
proof -
  let ?ts = "split_char CHR ''/'' (tl e)"
  obtain t ts where ts: "?ts = t # ts" by (cases ?ts) auto
  with assms show ?thesis
    by (auto simp: routes_def Let_def onboard_route_def route_matches_def under_debug_def)
qed

lemma hd_split_snoc: "hd (split_char d (s @ [d])) = hd (split_char d s)"
proof (induction s)
  case (Cons c s)
  obtain p ps q qs where "split_char d (s @ [d]) = p # ps" "split_char d s = q # qs"
    by (meson list.exhaust split_char_nonempty)
  with Cons show ?case by simp
qed simp

lemma no_slash_wanted:
  assumes "\<not> under_debug e" and "e \<noteq> []"
  shows "\<not> wants_slash (debug_routes L) e"
proof -
  have "under_debug (e @ ''/'') = under_debug e"
    using assms(2) by (cases e) (simp_all add: under_debug_def hd_split_snoc)
  moreover have "any_matches p (e @ ''/'')" if "last p = CHR ''/''" "route_matches p (e @ ''/'')" for p
  proof -
    from that(2) have m: "map segment (split_char CHR ''/'' (tl (e @ ''/''))) = split_char CHR ''/'' (tl p)"
      by (simp add: route_matches_def)
    then have "length (split_char CHR ''/'' (tl (e @ ''/''))) = length (split_char CHR ''/'' (tl p))"
      by (metis length_map)
    with m that(1) show ?thesis
      by (simp add: any_matches_def subtree_matches_def Let_def butlast_conv_take)
  qed
  ultimately show ?thesis
    using assms(1) by (auto simp: wants_slash_def list_ex_iff dest: any_matches_debug)
qed

lemma debug_paths_not_found:
  assumes "under_debug e"
  shows "matching_methods (routes cfg :: 'w mux) e = []" "mux_find (routes cfg :: 'w mux) k e = None"
proof -
  have none: "(m, p, h) \<in> set (routes cfg) \<Longrightarrow> \<not> route_matches p e" for m p and h :: "'w handler"
    by (rule route_matches_debug [OF _ assms])
  then have "filter (\<lambda>(m, p, h). route_matches p e) (routes cfg :: 'w mux) = []"
    by (auto simp: filter_empty_conv)
  then show "matching_methods (routes cfg :: 'w mux) e = []" by (simp add: matching_methods_def del: set_map set_filter)
  show "mux_find (routes cfg :: 'w mux) k e = None"
    using none by (cases "mux_find (routes cfg :: 'w mux) k e") (auto dest!: mux_find_Some)
qed

lemma api_not_found:
  assumes "under_debug (rq_escaped r)" and "cleanPath (rq_escaped r) = rq_escaped r"
  shows "mux_ServeHTTP (routes cfg) env r w s = (Returns (), http_Error ''404 page not found'' 404 w, s)"
proof -
  have "rq_escaped r \<noteq> ''*''" using assms(2) by (auto simp: cleanPath_def)
  with assms(2) show ?thesis by (simp add: mux_ServeHTTP_def Let_def debug_paths_not_found [OF assms(1)])
qed

lemma http_Error_status: "rw_status w = None \<Longrightarrow> rw_status (http_Error msg code w) = Some code"
  by (simp add: writer_defs Let_def)

lemma finish_status: "rw_status w = Some st \<Longrightarrow> rp_status (finish r w) = st"
  by (simp add: finish_def conn_write_header_def)

lemma server_not_found:
  assumes "NewServer cfg = Returns h" and "\<not> preflight cfg r"
    and "under_debug (rq_escaped r)" and "cleanPath (rq_escaped r) = rq_escaped r"
  obtains rp s' where "serve h env r s = (Some rp, s')" "rp_status rp = 404" "ss_jobs s' = ss_jobs s" "ss_world s' = ss_world s"
proof -
  let ?w = "(entry_writer cfg env r)\<lparr>rw_wrapped := [200]\<rparr>"
  have "rq_escaped (tagged env r) = rq_escaped r" by (simp add: tagged_def)
  with assms(3,4) have m: "mux_ServeHTTP (routes cfg) env (tagged env r) ?w s =
      (Returns (), http_Error ''404 page not found'' 404 ?w, s)"
    by (intro api_not_found) simp_all
  have st: "rw_status (http_Error ''404 page not found'' 404 ?w) = Some 404"
    using entry_writer(1) [of cfg env r] by (intro http_Error_status) (simp add: unwritten_def)
  show thesis
    using that assms(2)
    by (simp add: serve_def server_unfold [OF assms(1)] requestLogger_def panicRecovery_def entry_writer(2) m
        finish_status st)
qed

text \<open>C22: the listeners are apart. The API server answers 404 to every request for a clean path under
  \<open>/debug\<close> (a preflight apart) and neither enqueues nor calls anything for it, whatever the
  method, the configuration and the environment; the debug listener answers 404 to every clean
  path outside of \<open>/debug\<close>, so neither the profiles nor the API leak onto the other port.\<close>

theorem debug_isolated:
  assumes "NewServer cfg = Returns h" and "newDebugMux L = Returns mux" and "cleanPath (rq_escaped r) = rq_escaped r"
  shows "if under_debug (rq_escaped r)
    then preflight cfg r \<or>
      (\<exists>rp s'. serve h env r s = (Some rp, s') \<and> rp_status rp = 404 \<and> ss_jobs s' = ss_jobs s \<and> ss_world s' = ss_world s)
    else \<exists>rp. serve (any_ServeHTTP mux) env r s = (Some rp, s) \<and> rp_status rp = 404"
proof (cases "under_debug (rq_escaped r)")
  case True
  then show ?thesis using server_not_found [OF assms(1) _ True assms(3), of env s] by auto
next
  case False
  let ?e = "rq_escaped r"
  have e: "?e \<noteq> ''*''" "?e \<noteq> []" using assms(3) by (auto simp: cleanPath_def)
  have mux: "mux = debug_routes L" using assms(2) by (simp add: newDebugMux_eq)
  have "any_find mux ?e = None"
    using False by (auto simp: mux any_find_None_iff list_all_iff dest: any_matches_debug)
  with e no_slash_wanted [OF False e(2), of L] assms(3) have
    "any_ServeHTTP mux env r fresh_writer s = (Returns (), http_Error ''404 page not found'' 404 fresh_writer, s)"
    by (simp add: any_ServeHTTP_def mux Let_def)
  with False show ?thesis by (simp add: serve_def finish_status http_Error_status fresh_writer_def)
qed

section \<open>The page and what it relies on\<close>

text \<open>The texts that follow an occurrence of \<open>pre\<close> in a line, up to the next \<open>q\<close>.\<close>

fun strip :: "string \<Rightarrow> string \<Rightarrow> string option" where
  "strip [] s = Some s"
| "strip (p # ps) [] = None"
| "strip (p # ps) (c # s) = (if p = c then strip ps s else None)"

fun values_after :: "string \<Rightarrow> char \<Rightarrow> string \<Rightarrow> string list" where
  "values_after pre q [] = []"
| "values_after pre q (c # s) =
     (case strip pre (c # s) of
        Some t \<Rightarrow> takeWhile (\<lambda>d. d \<noteq> q) t # values_after pre q s
      | None \<Rightarrow> values_after pre q s)"

definition quoted :: "string \<Rightarrow> string list \<Rightarrow> string list" where
  "quoted pre ls = concat (map (values_after (pre @ [chr 39]) (chr 39)) ls)"

definition attribute :: "string \<Rightarrow> string list \<Rightarrow> string list" where
  "attribute a ls = concat (map (values_after ('' '' @ a @ [chr 61, chr 34]) (chr 34)) ls)"

definition page_paths :: "string list" where
  "page_paths = map (takeWhile (\<lambda>c. c \<noteq> CHR ''?'')) (attribute ''href'' dashboard_body @ quoted ''fetch('' dashboard_script)"

definition page_ids :: "string list" where
  "page_ids = attribute ''id'' dashboard_body"

definition script_ids :: "string list" where
  "script_ids = quoted ''getElementById('' dashboard_script @ quoted ''renderTable('' dashboard_script"

lemma page_paths_eq: "page_paths = [''/debug/pprof/'', ''/debug/pprof/goroutine'', ''/debug/vars'', ''/debug/vars'']"
  by code_simp

lemma page_ids_eq: "page_ids = [''countdown'', ''error'', ''goroutines'', ''memory'', ''gc'', ''scheduler'']"
  by code_simp

lemma script_ids_eq:
  "script_ids = [''countdown'', ''error'', ''error'', ''goroutines'', ''memory'', ''gc'', ''scheduler'']"
  by code_simp

text \<open>The names the model of the script has are those in its text.\<close>

lemma displayed_in_script:
  "concat (map snd dashboard_tables) = quoted ''fmt(rt['' dashboard_script"
  by code_simp

lemma sorted_debug_routes: "sort_key (\<lambda>(m, p, h). - int (length p)) (debug_routes L) =
     [([], ''/debug/pprof/cmdline'', dl_Cmdline L), ([], ''/debug/pprof/profile'', dl_Profile L),
      ([], ''/debug/pprof/symbol'', dl_Symbol L), ([], ''/debug/pprof/trace'', dl_Trace L),
      ([], ''/debug/dashboard'', handleDebugDashboard), ([], ''/debug/pprof/'', dl_Index L),
      ([], ''/debug/vars'', dl_expvar L)]"
  by (simp add: debug_routes_def)

lemmas any_find_debug = any_find_def sorted_debug_routes any_matches_def subtree_matches_def route_matches_def segment_def

text \<open>C37: the page of the dashboard fits. \<open>GET /debug/dashboard\<close> is answered with the page as it is in
  the source; every path that the page links to or its script fetches is one the multiplexer of
  the same port serves, with the handler meant; and every element that the script looks up is
  in the page, under an id that is used once.\<close>

theorem dashboard_page:
  assumes "newDebugMux L = Returns mux" and "rq_method r = ''GET''" and "rq_escaped r = ''/debug/dashboard''"
  shows "serve (any_ServeHTTP mux) env r s =
      (Some \<lparr>rp_status = 200, rp_headers = [(''Content-Type'', ''text/html; charset=utf-8'')],
         rp_body = dashboardHTML\<rparr>, s) \<and>
    map (any_find mux) page_paths = map Some [dl_Index L, dl_Index L, dl_expvar L, dl_expvar L] \<and>
    set script_ids \<subseteq> set page_ids \<and> distinct page_ids"
proof (intro conjI)
  have mux: "mux = debug_routes L" using assms(1) by (simp add: newDebugMux_eq)
  have f: "any_find mux ''/debug/dashboard'' = Some handleDebugDashboard"
    by (simp add: mux any_find_debug)
  have "cleanPath ''/debug/dashboard'' = ''/debug/dashboard''" by (simp add: cleanPath_def Let_def)
  with assms(2,3) f have "any_ServeHTTP mux env r fresh_writer s = handleDebugDashboard env r fresh_writer s"
    by (simp add: any_ServeHTTP_def wants_slash_def Let_def)
  then show "serve (any_ServeHTTP mux) env r s =
      (Some \<lparr>rp_status = 200, rp_headers = [(''Content-Type'', ''text/html; charset=utf-8'')],
         rp_body = dashboardHTML\<rparr>, s)"
    using assms(2) by (simp add: serve_def handleDebugDashboard_def finish_def writer_defs Let_def fresh_writer_def)
  show "map (any_find mux) page_paths = map Some [dl_Index L, dl_Index L, dl_expvar L, dl_expvar L]"
    by (simp add: page_paths_eq mux any_find_debug)
qed (simp_all add: script_ids_eq page_ids_eq)

section \<open>What the dashboard shows\<close>

text \<open>The samples that are numbers.\<close>

fun number_of :: "'f metric_value \<Rightarrow> 'f number option" where
  "number_of (KindUint64 n) = Some (Uint64 n)"
| "number_of (KindFloat64 x) = Some (Float64 x)"
| "number_of _ = None"

definition numbers :: "(string \<times> 'f metric_value) list \<Rightarrow> (string \<times> 'f number) list" where
  "numbers samples = List.map_filter (\<lambda>(k, v). map_option (Pair k) (number_of v)) samples"

lemma runtime_metrics_get: "gm_get (runtime_metrics samples) k = map_of (rev (numbers samples)) k"
proof -
  have "gm_wf m \<Longrightarrow> gm_get (fold add_metric samples m) k =
      (case map_of (rev (numbers samples)) k of Some v \<Rightarrow> Some v | None \<Rightarrow> gm_get m k)" for m
  proof (induction samples arbitrary: m)
    case (Cons x samples)
    obtain n v where x: "x = (n, v)" by (cases x)
    have "gm_wf (add_metric x m)" using Cons.prems by (cases v) (simp_all add: x gm_wf_set)
    from Cons.IH [OF this] Cons.prems show ?case
      by (cases v) (auto simp: x gm_get_set numbers_def List.map_filter_simps map_add_def split: option.splits)
  qed (simp add: numbers_def List.map_filter_simps)
  from this [of "[]"] show ?thesis
    by (simp add: runtime_metrics_def gm_get_Nil split: option.splits)
qed

lemma round_half_even_error:
  fixes q r u :: nat
  assumes "r < u"
  shows "2 * \<bar>int (if 2 * r < u \<or> 2 * r = u \<and> even q then q * u else (q + 1) * u) - int (q * u + r)\<bar> \<le> int u"
  using assms by (cases "2 * r \<le> u") (auto simp: algebra_simps)

lemma to_double_error: "2 ^ 53 * \<bar>int (to_double n) - int n\<bar> \<le> int n"
proof (cases "n < 2 ^ 53")
  case False
  let ?L = "floorlog 2 n" let ?u = "2 ^ (?L - 53) :: nat"
  let ?q = "n div ?u" and ?r = "n mod ?u"
  have L: "54 \<le> ?L" using False by (intro floorlog_geI) simp_all
  have "2 ^ (?L - 1) \<le> n" using floorlog_bounds [of n 2] False by simp
  moreover have "?L - 1 = 52 + (?L - 53)" using L by simp
  then have "(2 :: nat) ^ (?L - 1) = 2 ^ 52 * ?u" by (simp only: power_add)
  ultimately have u: "2 ^ 52 * ?u \<le> n" by simp
  have "2 * \<bar>int (to_double n) - int n\<bar> \<le> int ?u"
    using round_half_even_error [of ?r ?u ?q] False unfolding div_mult_mod_eq to_double_def Let_def by simp
  then have "2 ^ 52 * (2 * \<bar>int (to_double n) - int n\<bar>) \<le> 2 ^ 52 * int ?u" by (intro mult_left_mono) simp_all
  also have "\<dots> = int (2 ^ 52 * ?u)" by simp
  also have "\<dots> \<le> int n" using u by (simp only: of_nat_le_iff)
  finally show ?thesis by simp
qed (simp add: to_double_def)

lemma tenths_error:
  fixes n d :: nat
  assumes "0 < d"
  defines "m \<equiv> (20 * n + d) div (2 * d)"
  shows "20 * \<bar>(real (m div 10) + real (m mod 10) / 10) * real d - real n\<bar> \<le> real d"
proof -
  have "(20 * n + d) mod (2 * d) < 2 * d" using assms by simp
  then have "m * (2 * d) \<le> 20 * n + d" "20 * n + d < m * (2 * d) + 2 * d"
    using div_mult_mod_eq [of "20 * n + d" "2 * d"] unfolding m_def by linarith+
  then have "real (m * (2 * d)) \<le> real (20 * n + d)" "real (20 * n + d) < real (m * (2 * d) + 2 * d)"
    by (simp_all only: of_nat_le_iff of_nat_less_iff)
  then have b: "2 * (real m * real d) \<le> 20 * real n + real d" "20 * real n \<le> 2 * (real m * real d) + real d" by simp_all
  have "real m = 10 * real (m div 10) + real (m mod 10)"
    by (metis div_mult_mod_eq mult.commute of_nat_add of_nat_mult of_nat_numeral)
  then have e: "(real (m div 10) + real (m mod 10) / 10) * real d = real m * real d / 10" by simp
  have "\<bar>real m * real d / 10 - real n\<bar> \<le> real d / 20" unfolding abs_le_iff using b by linarith
  then show ?thesis unfolding e by simp
qed

text \<open>The unit a number is shown in, if it is above 1024: KiB up to one MiB, MiB up to one GiB, GiB
  from there on.\<close>

definition binary_unit :: "nat \<Rightarrow> string \<times> nat" where
  "binary_unit n =
     (if n \<le> 2 ^ 20 then ('' KiB'', 2 ^ 10) else if n \<le> 2 ^ 30 then ('' MiB'', 2 ^ 20) else ('' GiB'', 2 ^ 30))"

text \<open>A text that shows a number: exactly up to 1024, and with one decimal of its unit above, to the
  nearest tenth but for the rounding of the double.\<close>

definition shows_number :: "string \<Rightarrow> nat \<Rightarrow> bool" where
  "shows_number t n \<longleftrightarrow>
     (if n \<le> 1024 then t = show_nat n
      else \<exists>a b. t = show_nat a @ ''.'' @ show_nat b @ fst (binary_unit n) \<and> b < 10 \<and>
        \<bar>(real a + real b / 10) * real (snd (binary_unit n)) - real n\<bar>
          \<le> real (snd (binary_unit n)) / 20 + real n / 2 ^ 53)"

lemma close_trans: "20 * \<bar>x - y\<bar> \<le> d \<Longrightarrow> \<bar>y - z\<bar> \<le> e \<Longrightarrow> \<bar>x - z\<bar> \<le> d / 20 + e" for x y z d e :: real
  using abs_triangle_ineq [of "x - y" "y - z"] by simp

text \<open>Rounding to a double moves no number across a threshold, so \<open>fmt\<close> picks the unit of the number
  itself.\<close>

lemma to_double_threshold:
  assumes "k \<le> 30"
  shows "2 ^ k < to_double n \<longleftrightarrow> 2 ^ k < n"
proof (cases "n < 2 ^ 53")
  case False
  have k: "(2 :: nat) ^ k \<le> 2 ^ 30" using assms by (intro power_increasing) simp_all
  have "9007199254740991 * int n \<le> 9007199254740992 * int (to_double n)"
    using to_double_error [of n] by (simp add: abs_if split: if_splits)
  moreover have "9007199254740992 \<le> int n" using False by simp
  ultimately have "2 ^ 30 < int (to_double n)" by simp
  then have "(2 :: nat) ^ 30 < to_double n" by simp
  moreover have "(2 :: nat) ^ 30 < n" using False by simp
  ultimately show ?thesis using k by linarith
qed (simp add: to_double_def)

lemma fmt_integer_unit:
  assumes "1024 < n"
  shows "fmt_integer (to_double n) = toFixed1 (to_double n) (snd (binary_unit n)) @ fst (binary_unit n)"
  using assms to_double_threshold [of 10 n] to_double_threshold [of 20 n] to_double_threshold [of 30 n]
  by (simp add: fmt_integer_def binary_unit_def not_le)

lemma fmt_shows_number: "shows_number (fmt_integer (to_double n)) n"
proof (cases "n \<le> 1024")
  case True
  then have "to_double n = n" by (simp add: to_double_def)
  with True show ?thesis by (simp add: shows_number_def fmt_integer_def)
next
  case False
  let ?n = "to_double n" let ?d = "snd (binary_unit n)"
  let ?m = "(20 * ?n + ?d) div (2 * ?d)"
  have e: "\<bar>real ?n - real n\<bar> \<le> real n / 2 ^ 53"
  proof -
    have "real_of_int (2 ^ 53 * \<bar>int ?n - int n\<bar>) \<le> real_of_int (int n)"
      using to_double_error by (simp only: of_int_le_iff)
    then show ?thesis by (simp add: field_simps)
  qed
  have "0 < ?d" by (simp add: binary_unit_def)
  from close_trans [OF tenths_error [OF this, of ?n] e]
  have "\<bar>(real (?m div 10) + real (?m mod 10) / 10) * real ?d - real n\<bar> \<le> real ?d / 20 + real n / 2 ^ 53" .
  moreover have "fmt_integer ?n = show_nat (?m div 10) @ ''.'' @ show_nat (?m mod 10) @ fst (binary_unit n)"
    using False by (simp add: fmt_integer_unit toFixed1_def Let_def)
  moreover have "?m mod 10 < 10" by simp
  ultimately show ?thesis
    unfolding shows_number_def if_not_P [OF False] by blast
qed

text \<open>The elements of the page stay a map, and those of the tables are set one after the other.\<close>

lemma page_step_wf: "gm_wf (pg_elements p) \<Longrightarrow> gm_wf (pg_elements (page_step ff e p))"
  by (cases e) (auto simp: tick_def refresh_def show_metrics_def Let_def gm_wf_set gm_wf_fold)

lemma page_steps_wf: "gm_wf (pg_elements p) \<Longrightarrow> gm_wf (pg_elements (fold (page_step ff) es p))"
  by (induction es arbitrary: p) (simp_all add: page_step_wf)

lemma open_page_wf: "gm_wf (pg_elements (open_page i))"
  by (simp add: open_page_def refresh_def gm_wf_set gm_wf_of_list)

lemma table_ids: "distinct (map fst dashboard_tables)" "map_of dashboard_tables ''error'' = None"
  by (simp_all add: dashboard_tables_def)

text \<open>C36: what the dashboard shows. Whatever happened on the page before, after an answer of
  \<open>/debug/vars\<close> each of its tables has one row for each of its names, with the text of the last
  sample under that name that is a number: a name without one is shown as \<open>undefined\<close>, and an
  integer exactly up to 1024, to the nearest tenth of a KiB up to one MiB, of a MiB up to one
  GiB, and of a GiB above; histograms and unsupported metrics are never shown. The error line is
  empty again.\<close>

theorem dashboard_shows:
  fixes samples :: "(string \<times> 'f metric_value) list" and es :: "'f page_event list" and ff and i
  assumes "(elt, names) \<in> set dashboard_tables"
  defines "published k \<equiv> map_of (rev (numbers samples)) k"
    and "p \<equiv> page_step ff (Answered (Some (runtime_metrics samples))) (fold (page_step ff) es (open_page i))"
  shows "\<exists>rows. gm_get (pg_elements p) elt = Some (renderTable rows) \<and> map fst rows = names \<and>
    gm_get (pg_elements p) ''error'' = Some [] \<and>
    (\<forall>(k, t)\<in>set rows. case published k of
       None \<Rightarrow> t = ''undefined''
     | Some (Uint64 n) \<Rightarrow> shows_number t (unat n)
     | Some (Float64 x) \<Rightarrow> t = ff x)"
proof (intro exI conjI)
  let ?rows = "map (\<lambda>k. (k, fmt ff (published k))) names"
  have wf: "gm_wf (pg_elements (fold (page_step ff) es (open_page i)))"
    by (rule page_steps_wf [OF open_page_wf])
  let ?text = "\<lambda>ns. renderTable (map (\<lambda>k. (k, fmt ff (published k))) ns)"
  have p: "gm_get (pg_elements p) k = (case map_of dashboard_tables k of Some ns \<Rightarrow> Some (?text ns)
      | None \<Rightarrow> gm_get (gm_set ''error'' [] (pg_elements (fold (page_step ff) es (open_page i)))) k)" for k
    by (cases "map_of dashboard_tables k")
      (simp_all add: p_def show_metrics_def published_def runtime_metrics_get gm_get_fold [OF gm_wf_set [OF wf]] table_ids)
  from assms(1) have "map_of dashboard_tables elt = Some names" by (rule map_of_is_SomeI [OF table_ids(1)])
  then show "gm_get (pg_elements p) elt = Some (renderTable ?rows)" by (simp add: p)
  show "gm_get (pg_elements p) ''error'' = Some []" by (simp add: p table_ids gm_get_set wf)
  show "map fst ?rows = names" by (simp add: comp_def)
  show "\<forall>(k, t)\<in>set ?rows. case published k of
       None \<Rightarrow> t = ''undefined''
     | Some (Uint64 n) \<Rightarrow> shows_number t (unat n)
     | Some (Float64 x) \<Rightarrow> t = ff x"
    by (auto simp: fmt_def fmt_shows_number split: option.splits number.splits)
qed

text \<open>The countdown: with a proper interval it stays between zero and the interval.\<close>

lemma countdown_range:
  assumes "0 \<le> i"
  shows "\<exists>r. pg_remaining (fold (page_step ff) es (open_page (Some i))) = Some r \<and> 0 \<le> r \<and> r \<le> i"
proof -
  have "pg_intervalSec p = Some i \<Longrightarrow> \<exists>r. pg_remaining p = Some r \<and> 0 \<le> r \<and> r \<le> i \<Longrightarrow>
      \<exists>r. pg_remaining (fold (page_step ff) es p) = Some r \<and> 0 \<le> r \<and> r \<le> i" for p
  proof (induction es arbitrary: p)
    case (Cons e es)
    have "pg_intervalSec (page_step ff e p) = Some i \<and>
        (\<exists>r. pg_remaining (page_step ff e p) = Some r \<and> 0 \<le> r \<and> r \<le> i)"
      using Cons.prems assms by (cases e) (auto simp: tick_def refresh_def show_metrics_def Let_def)
    with Cons.IH show ?case by simp
  qed simp
  with assms show ?thesis by (simp add: open_page_def refresh_def)
qed

section \<open>Witnesses\<close>

definition sample_debug_lib :: "'w debug_lib" where
  "sample_debug_lib =
     (let h = (\<lambda>env r w s. (Returns (), write_body ''profile'' w, s))
      in \<lparr>dl_Index = h, dl_Cmdline = h, dl_Profile = h, dl_Symbol = h, dl_Trace = h, dl_expvar = h\<rparr>)"

lemma debug_isolated_witness:
  "\<exists>mux rp. newDebugMux sample_debug_lib = Returns mux \<and>
    serve (any_ServeHTTP mux) org_http_env onboard_request sample_server = (Some rp, sample_server) \<and> rp_status rp = 404"
proof -
  obtain h :: "http_request list handler" where h: "NewServer (Load dev_build (\<lambda>_. [])) = Returns h" by (rule that [OF NewServer_eq])
  have r: "rq_escaped onboard_request = onboard_route" "cleanPath onboard_route = onboard_route" "\<not> under_debug onboard_route"
    by (simp_all add: onboard_request_def sample_request_def onboard_route_def cleanPath_def under_debug_def segment_def Let_def)
  from debug_isolated [OF h newDebugMux_eq, of onboard_request org_http_env sample_server sample_debug_lib] r
  have "\<exists>rp. serve (any_ServeHTTP (debug_routes sample_debug_lib)) org_http_env onboard_request sample_server =
      (Some rp, sample_server) \<and> rp_status rp = 404" by simp
  with newDebugMux_eq show ?thesis by blast
qed

definition dashboard_request :: request where
  "dashboard_request = onboard_request\<lparr>rq_method := ''GET'', rq_escaped := ''/debug/dashboard''\<rparr>"

lemma dashboard_page_witness:
  "\<exists>mux rp. newDebugMux sample_debug_lib = Returns mux \<and>
    serve (any_ServeHTTP mux) org_http_env dashboard_request sample_server = (Some rp, sample_server) \<and>
    rp_body rp = dashboardHTML"
proof -
  have "rq_method dashboard_request = ''GET''" "rq_escaped dashboard_request = ''/debug/dashboard''"
    by (simp_all add: dashboard_request_def)
  from dashboard_page [OF newDebugMux_eq this, of sample_debug_lib org_http_env sample_server] newDebugMux_eq
  show ?thesis by (intro exI [of _ "debug_routes sample_debug_lib"]) auto
qed

text \<open>A number that was sampled, and a name that was not.\<close>

lemma dashboard_shows_witness:
  "\<exists>rows. map fst rows = [''/sched/gomaxprocs:threads'', ''/sched/threads:threads''] \<and>
    (\<forall>t. (''/sched/threads:threads'', t) \<in> set rows \<longrightarrow> t = ''undefined'') \<and>
    (\<forall>t. (''/sched/gomaxprocs:threads'', t) \<in> set rows \<longrightarrow> t = show_nat 8)"
proof -
  let ?samples = "[(''/sched/gomaxprocs:threads'', KindUint64 8), (''/sched/latencies:seconds'', KindOther)] ::
    (string \<times> string metric_value) list"
  have "(''scheduler'', [''/sched/gomaxprocs:threads'', ''/sched/threads:threads'']) \<in> set dashboard_tables"
    by (simp add: dashboard_tables_def)
  note shown = dashboard_shows [OF this, of id ?samples "[Second]" "Some 10"]
  obtain rows where
    "map fst rows = [''/sched/gomaxprocs:threads'', ''/sched/threads:threads'']"
    "\<forall>(k, t)\<in>set rows. case map_of (rev (numbers ?samples)) k of None \<Rightarrow> t = ''undefined''
       | Some (Uint64 n) \<Rightarrow> shows_number t (unat n) | Some (Float64 x) \<Rightarrow> t = id x"
    using shown by (elim exE conjE) (rule that)
  then show ?thesis
    by (intro exI [of _ rows]) (auto simp: numbers_def List.map_filter_simps shows_number_def)
qed

end
