(* ===== verification/Database.thy ===== *)
theory Database
  imports GoErrors "HOL-Library.Multiset"
begin

text \<open>
  \<open>internal/db\<close>: the connection pool (\<open>db.go\<close>), the application's migrations (\<open>migrate.go\<close>),
  River's migrations and the River client (\<open>river.go\<close>). What pgx, River and the embedded file
  system answer is a parameter; what the code asks of them is kept as a trace of actions.
\<close>

section \<open>The pool\<close>

text \<open>Durations are nanoseconds.\<close>

record pool_config =
  pc_url :: string
  pc_MaxConns :: int
  pc_MinConns :: int
  pc_MaxConnIdleTime :: int
  pc_MaxConnLifetime :: int
  pc_HealthCheckPeriod :: int

text \<open>\<open>ContextDone\<close> is the end of the context of the process, the one the signals end, which everything
  that is started gets.\<close>

datatype action =
    PoolOpen pool_config
  | PoolPing
  | PoolClose
  | RiverMigrate
  | Exec string
  | RiverClient int
  | RiverStart
  | Listen string
  | ListenDebug string
  | HttpShutdown
  | DebugShutdown
  | RiverStop
  | ContextDone

definition minutes :: "int \<Rightarrow> int" where
  "minutes n = n * 60 * 1000000000"

record pool_env =
  pe_ParseConfig :: "string \<Rightarrow> go_error + pool_config"
  pe_New :: "pool_config \<Rightarrow> go_error option"
  pe_Ping :: "go_error option"

definition tuned :: "pool_config \<Rightarrow> pool_config" where
  "tuned config =
     config\<lparr>pc_MaxConns := 10, pc_MinConns := 2, pc_MaxConnIdleTime := minutes 5,
            pc_MaxConnLifetime := minutes 30, pc_HealthCheckPeriod := 30 * 1000000000\<rparr>"

definition NewPool :: "go_lib \<Rightarrow> pool_env \<Rightarrow> string \<Rightarrow> go_error option \<times> action list" where
  "NewPool U env databaseURL =
     (case pe_ParseConfig env databaseURL of
        Inl e \<Rightarrow> (Some (errorf_w U ''parse database url: '' e), [])
      | Inr config0 \<Rightarrow>
          (let config = tuned config0
           in case pe_New env config of
             Some e \<Rightarrow> (Some (errorf_w U ''create pool: '' e), [])
           | None \<Rightarrow>
               (case pe_Ping env of
                  Some e \<Rightarrow> (Some (errorf_w U ''ping database: '' e), [PoolOpen config, PoolPing, PoolClose])
                | None \<Rightarrow> (None, [PoolOpen config, PoolPing]))))"

section \<open>Migrations\<close>

text \<open>The embedded files and what the database makes of a script.\<close>

record migrate_env =
  mg_Glob :: "go_error + string list"
  mg_ReadFile :: "string \<Rightarrow> go_error + string"
  mg_Exec :: "string \<Rightarrow> go_error option"

fun run_migrations :: "go_lib \<Rightarrow> migrate_env \<Rightarrow> string list \<Rightarrow> go_error option \<times> action list" where
  "run_migrations U env [] = (None, [])"
| "run_migrations U env (name # names) =
     (case mg_ReadFile env name of
        Inl e \<Rightarrow> (Some (errorf_w U (''read '' @ name @ '': '') e), [])
      | Inr sql \<Rightarrow>
          (case mg_Exec env sql of
             Some e \<Rightarrow> (Some (errorf_w U (''exec '' @ name @ '': '') e), [Exec sql])
           | None \<Rightarrow>
               (case run_migrations U env names of (e, tr) \<Rightarrow> (e, Exec sql # tr))))"

definition MigrateUp :: "go_lib \<Rightarrow> migrate_env \<Rightarrow> go_error option \<times> action list" where
  "MigrateUp U env =
     (case mg_Glob env of
        Inl e \<Rightarrow> (Some (errorf_w U ''glob migrations: '' e), [])
      | Inr files \<Rightarrow> run_migrations U env (sort files))"

record river_env =
  re_New :: "go_error option"
  re_Migrate :: "go_error option"
  re_NewClient :: "int \<Rightarrow> go_error option"

definition MigrateRiver :: "go_lib \<Rightarrow> river_env \<Rightarrow> go_error option \<times> action list" where
  "MigrateRiver U env =
     (case re_New env of
        Some e \<Rightarrow> (Some (errorf_w U ''create river migrator: '' e), [])
      | None \<Rightarrow>
          (case re_Migrate env of
             Some e \<Rightarrow> (Some (errorf_w U ''river migrate: '' e), [RiverMigrate])
           | None \<Rightarrow> (None, [RiverMigrate])))"

text \<open>The client is configured with ten workers on the default queue.\<close>

definition NewRiverClient :: "go_lib \<Rightarrow> river_env \<Rightarrow> go_error option \<times> action list" where
  "NewRiverClient U env =
     (case re_NewClient env 10 of
        Some e \<Rightarrow> (Some (errorf_w U ''create river client: '' e), [])
      | None \<Rightarrow> (None, [RiverClient 10]))"

section \<open>The order of the migrations\<close>

definition applied :: "migrate_env \<Rightarrow> string \<Rightarrow> bool" where
  "applied env name \<longleftrightarrow> (\<exists>sql. mg_ReadFile env name = Inr sql \<and> mg_Exec env sql = None)"

fun script :: "migrate_env \<Rightarrow> string \<Rightarrow> action" where
  "script env name = (case mg_ReadFile env name of Inr sql \<Rightarrow> Exec sql | Inl _ \<Rightarrow> Exec [])"

text \<open>The scripts run up to the first file that cannot be read or is refused.\<close>

lemma run_migrations_prefix:
  "\<exists>k \<le> length names.
    list_all (applied env) (take k names) \<and>
    (case run_migrations U env names of
       (None, tr) \<Rightarrow> k = length names \<and> tr = map (script env) names
     | (Some e, tr) \<Rightarrow> k < length names \<and> \<not> applied env (names ! k) \<and>
         tr = map (script env) (take k names) @
              (case mg_ReadFile env (names ! k) of Inr sql \<Rightarrow> [Exec sql] | Inl _ \<Rightarrow> []))"
proof (induction names)
  case (Cons n names)
  show ?case
  proof (cases "applied env n")
    case True
    then obtain sql where s: "mg_ReadFile env n = Inr sql" "mg_Exec env sql = None" by (auto simp: applied_def)
    obtain e tr where r: "run_migrations U env names = (e, tr)" by fastforce
    from Cons.IH obtain k where "k \<le> length names" "list_all (applied env) (take k names)"
      "case (e, tr) of (None, tr) \<Rightarrow> k = length names \<and> tr = map (script env) names
       | (Some e, tr) \<Rightarrow> k < length names \<and> \<not> applied env (names ! k) \<and>
           tr = map (script env) (take k names) @
                (case mg_ReadFile env (names ! k) of Inr sql \<Rightarrow> [Exec sql] | Inl _ \<Rightarrow> [])"
      unfolding r by blast
    with True s r show ?thesis
      by (intro exI [of _ "Suc k"]) (auto split: option.splits)
  next
    case False
    then show ?thesis
      by (intro exI [of _ 0]) (auto simp: applied_def split: sum.splits option.splits)
  qed
qed simp

text \<open>C35: the application's migrations run in the order of their names, each after the ones before it
  succeeded. \<open>MigrateUp\<close> returns nil exactly when the files can be listed and every one was
  read and executed; otherwise the scripts executed are those of the files before the first
  that fails, and that file's own when it could be read.\<close>

theorem MigrateUp_sorted_prefix:
  "case mg_Glob env of
     Inl e \<Rightarrow> MigrateUp U env = (Some (errorf_w U ''glob migrations: '' e), [])
   | Inr files \<Rightarrow>
       (\<exists>names k. mset names = mset files \<and> sorted names \<and> k \<le> length names \<and>
         list_all (applied env) (take k names) \<and>
         (case MigrateUp U env of
            (None, tr) \<Rightarrow> k = length names \<and> tr = map (script env) names
          | (Some e, tr) \<Rightarrow> k < length names \<and> \<not> applied env (names ! k) \<and>
              tr = map (script env) (take k names) @
                   (case mg_ReadFile env (names ! k) of Inr sql \<Rightarrow> [Exec sql] | Inl _ \<Rightarrow> [])))"
proof (cases "mg_Glob env")
  case (Inr files)
  from run_migrations_prefix [of "sort files" env U] show ?thesis
    unfolding Inr MigrateUp_def sum.case by (intro exI [of _ "sort files"]) simp
qed (simp add: MigrateUp_def)

end
