(* ===== verification/Startup.thy ===== *)
theory Startup
  imports Database Debug
begin

text \<open>
  \<open>cmd/hbsqueue\<close>: \<open>run\<close> (\<open>main.go\<close>) as the trace of what it starts and stops, for every
  outcome of the parts it starts, and the logger it sets up. What is logged is left out; the time limits of the servers are in
  \<open>Timeouts\<close>.
\<close>

section \<open>The life of the process\<close>

text \<open>
  What the \<open>select\<close> at the end of \<open>run\<close> receives first: the error of \<open>ListenAndServe\<close>
  (\<open>ListenClosed\<close> is \<open>http.ErrServerClosed\<close>) or the end of the context by a signal.
\<close>

datatype wakeup = ListenFailed go_error | ListenClosed | Signalled

record run_env =
  rn_pool :: pool_env
  rn_migrate :: migrate_env
  rn_river :: river_env
  rn_start :: "go_error option"
  rn_debug :: "unit debug_lib"
  rn_wakeup :: wakeup

text \<open>The VCD client is built when a URL is configured.\<close>

definition run_vcd_client :: "AppConfig \<Rightarrow> vcd_client option" where
  "run_vcd_client cfg =
     (if cf_VCDBaseURL cfg \<noteq> []
      then Some (vcd_New (cf_VCDBaseURL cfg) (cf_VCDVersion cfg) (cf_VCDUser cfg) (cf_VCDPassword cfg) (cf_VCDOrg cfg))
      else None)"

text \<open>
  The logger. The levels of \<open>slog\<close> are ordered by their numbers; a handler drops what is below
  its level. Outside prod the JSON handler is replaced by a text handler on the same options.
\<close>

datatype log_level = LevelDebug | LevelInfo | LevelWarn | LevelError

fun level_number :: "log_level \<Rightarrow> int" where
  "level_number LevelDebug = - 4"
| "level_number LevelInfo = 0"
| "level_number LevelWarn = 4"
| "level_number LevelError = 8"

instantiation log_level :: linorder
begin

definition less_eq_log_level :: "log_level \<Rightarrow> log_level \<Rightarrow> bool" where
  "less_eq_log_level l k \<longleftrightarrow> level_number l \<le> level_number k"

definition less_log_level :: "log_level \<Rightarrow> log_level \<Rightarrow> bool" where
  "less_log_level l k \<longleftrightarrow> level_number l < level_number k"

instance
proof
  fix l k :: log_level
  show "l \<le> k \<Longrightarrow> k \<le> l \<Longrightarrow> l = k" by (cases l; cases k) (simp_all add: less_eq_log_level_def)
qed (auto simp: less_eq_log_level_def less_log_level_def)

end

datatype log_format = JSONHandler | TextHandler

record slog_logger =
  sl_format :: log_format
  sl_level :: log_level

definition run_logger :: "AppConfig \<Rightarrow> slog_logger" where
  "run_logger cfg =
     (if cf_Env cfg \<noteq> ''prod'' then \<lparr>sl_format = TextHandler, sl_level = LevelDebug\<rparr>
      else \<lparr>sl_format = JSONHandler, sl_level = LevelInfo\<rparr>)"

definition log_enabled :: "slog_logger \<Rightarrow> log_level \<Rightarrow> bool" where
  "log_enabled lg l \<longleftrightarrow> sl_level lg \<le> l"

lemma run_logger_enabled: "log_enabled (run_logger cfg) l \<longleftrightarrow> cf_Env cfg \<noteq> ''prod'' \<or> l \<noteq> LevelDebug"
  by (cases l) (simp_all add: log_enabled_def run_logger_def less_eq_log_level_def)

text \<open>
  From the start of the listeners to the return; the errors of the three shutdowns are only
  logged. The result is the error and the trace. What a signal does is end the context that
  \<open>signal.NotifyContext\<close> returned, and it does so before \<open>run\<close> comes to the first shutdown.
\<close>

definition run_listeners :: "go_lib \<Rightarrow> run_env \<Rightarrow> AppConfig \<Rightarrow> go_error option \<times> action list" where
  "run_listeners U env cfg =
     (let started = [Listen ('':'' @ cf_Port cfg), ListenDebug ('':'' @ cf_DebugPort cfg)];
          stopped = [HttpShutdown, DebugShutdown, RiverStop]
      in case rn_wakeup env of
           ListenFailed e \<Rightarrow> (Some (errorf_w U ''http server: '' e), started)
         | ListenClosed \<Rightarrow> (None, started @ stopped)
         | Signalled \<Rightarrow> (None, started @ ContextDone # stopped))"

text \<open>From the open pool on. River is started with the context that a signal ends. \<open>Register\<close>, \<open>NewServer\<close> and \<open>newDebugMux\<close> panic when a kind or a route
  is registered twice; the panic leaves through the deferred \<open>Close\<close> as well.\<close>

definition run_with_pool :: "go_lib \<Rightarrow> run_env \<Rightarrow> AppConfig \<Rightarrow> go_error option go_result \<times> action list" where
  "run_with_pool U env cfg =
     (case MigrateRiver U (rn_river env) of
        (Some e, tr1) \<Rightarrow> (Returns (Some (errorf_w U ''river migrations: '' e)), tr1)
      | (None, tr1) \<Rightarrow>
     (case MigrateUp U (rn_migrate env) of
        (Some e, tr2) \<Rightarrow> (Returns (Some (errorf_w U ''app migrations: '' e)), tr1 @ tr2)
      | (None, tr2) \<Rightarrow>
     (case Register of
        Panics m \<Rightarrow> (Panics m, tr1 @ tr2)
      | Returns workers \<Rightarrow>
     (case NewRiverClient U (rn_river env) of
        (Some e, tr3) \<Rightarrow> (Returns (Some (errorf_w U ''river client: '' e)), tr1 @ tr2 @ tr3)
      | (None, tr3) \<Rightarrow>
     (case rn_start env of
        Some e \<Rightarrow> (Returns (Some (errorf_w U ''river start: '' e)), tr1 @ tr2 @ tr3)
      | None \<Rightarrow>
     (case (NewServer cfg :: unit handler go_result) of
        Panics m \<Rightarrow> (Panics m, tr1 @ tr2 @ tr3 @ [RiverStart])
      | Returns srv \<Rightarrow>
     (case newDebugMux (rn_debug env) of
        Panics m \<Rightarrow> (Panics m, tr1 @ tr2 @ tr3 @ [RiverStart])
      | Returns debug \<Rightarrow>
     (case run_listeners U env cfg of
        (e, tr4) \<Rightarrow> (Returns e, tr1 @ tr2 @ tr3 @ RiverStart # tr4)))))))))"

text \<open>The deferred \<open>cancel\<close> ends the context if no signal did. It was deferred before \<open>pool.Close\<close>, so it
  runs after it.\<close>

definition deferred_cancel :: "action list \<Rightarrow> action list" where
  "deferred_cancel tr = (if ContextDone \<in> set tr then tr else tr @ [ContextDone])"

definition run :: "go_lib \<Rightarrow> run_env \<Rightarrow> build_info \<Rightarrow> (string \<Rightarrow> string) \<Rightarrow>
    go_error option go_result \<times> action list" where
  "run U env build getenv =
     (let cfg = Load build getenv
      in case NewPool U (rn_pool env) (cf_DatabaseURL cfg) of
           (Some e, tr0) \<Rightarrow> (Returns (Some (errorf_w U ''db pool: '' e)), deferred_cancel tr0)
         | (None, tr0) \<Rightarrow>
             (case run_with_pool U env cfg of (res, tr) \<Rightarrow> (res, deferred_cancel (tr0 @ tr @ [PoolClose]))))"

text \<open>\<open>main\<close>: the exit status.\<close>

definition exit_status :: "go_error option go_result \<Rightarrow> int" where
  "exit_status res = (case res of Returns None \<Rightarrow> 0 | Returns (Some e) \<Rightarrow> 1 | Panics m \<Rightarrow> 2)"

section \<open>Shape of the traces\<close>

lemma Register_returns: "\<exists>ws. Register = Returns ws"
  by (simp add: Register_def add_worker_def)

definition pool_opens :: "pool_env \<Rightarrow> string \<Rightarrow> pool_config \<Rightarrow> bool" where
  "pool_opens env url c \<longleftrightarrow> pe_ParseConfig env url = Inr c \<and> pe_New env (tuned c) = None \<and> pe_Ping env = None"

lemma NewPool_traces:
  "NewPool U env url = (None, tr) \<Longrightarrow> \<exists>c. pool_opens env url c \<and> tr = [PoolOpen (tuned c), PoolPing]"
  "NewPool U env url = (Some e, tr) \<Longrightarrow> tr = [] \<or> (\<exists>c. tr = [PoolOpen (tuned c), PoolPing, PoolClose])"
  by (auto simp: NewPool_def Let_def pool_opens_def split: sum.splits option.splits)

fun is_exec :: "action \<Rightarrow> bool" where
  "is_exec (Exec _) = True"
| "is_exec _ = False"

lemma run_migrations_exec: "run_migrations U env names = (e, tr) \<Longrightarrow> list_all is_exec tr"
  by (induction U env names arbitrary: e tr rule: run_migrations.induct)
    (auto split: sum.splits option.splits prod.splits)

lemma MigrateUp_exec: "MigrateUp U env = (e, tr) \<Longrightarrow> list_all is_exec tr"
  by (auto simp: MigrateUp_def split: sum.splits dest: run_migrations_exec)

text \<open>All scripts were executed, in the order of their names.\<close>

lemma MigrateUp_ok:
  assumes "MigrateUp U env = (None, tr)"
  obtains files where "mg_Glob env = Inr files" "list_all (applied env) files" "tr = map (script env) (sort files)"
proof -
  from assms obtain files where f: "mg_Glob env = Inr files" "run_migrations U env (sort files) = (None, tr)"
    by (auto simp: MigrateUp_def split: sum.splits)
  with run_migrations_prefix [of "sort files" env U] have "list_all (applied env) (sort files)"
    "tr = map (script env) (sort files)" by auto
  with f(1) that [of files] show thesis by (auto simp: list_all_iff)
qed

lemma MigrateRiver_trace:
  "MigrateRiver U env = (e, tr) \<Longrightarrow> tr = [] \<or> tr = [RiverMigrate]"
  "MigrateRiver U env = (None, tr) \<Longrightarrow> tr = [RiverMigrate] \<and> re_New env = None \<and> re_Migrate env = None"
  by (auto simp: MigrateRiver_def split: option.splits)

lemma NewRiverClient_trace:
  "NewRiverClient U env = (e, tr) \<Longrightarrow> tr = [] \<or> tr = [RiverClient 10]"
  "NewRiverClient U env = (None, tr) \<Longrightarrow> tr = [RiverClient 10] \<and> re_NewClient env 10 = None"
  by (auto simp: NewRiverClient_def split: option.splits)

text \<open>Everything that is started before the listeners succeeds.\<close>

definition parts_start :: "run_env \<Rightarrow> string list \<Rightarrow> bool" where
  "parts_start env files \<longleftrightarrow>
     re_New (rn_river env) = None \<and> re_Migrate (rn_river env) = None \<and>
     mg_Glob (rn_migrate env) = Inr files \<and> list_all (applied (rn_migrate env)) files \<and>
     re_NewClient (rn_river env) 10 = None \<and> rn_start env = None"

text \<open>How the trace goes on from there.\<close>

definition shutdown :: "wakeup \<Rightarrow> action list" where
  "shutdown wake =
     (case wake of
        ListenFailed e \<Rightarrow> []
      | ListenClosed \<Rightarrow> [HttpShutdown, DebugShutdown, RiverStop]
      | Signalled \<Rightarrow> [ContextDone, HttpShutdown, DebugShutdown, RiverStop])"

text \<open>How far a start-up came: the migrations failed or the client could not be made or started;
  or River and the listeners ran.\<close>

definition listeners :: "AppConfig \<Rightarrow> action list" where
  "listeners cfg = [Listen ('':'' @ cf_Port cfg), ListenDebug ('':'' @ cf_DebugPort cfg)]"

lemma run_with_pool_cases:
  assumes "run_with_pool U env cfg = (res, tr)"
  obtains (aborted) e where "res = Returns (Some e)"
      "list_all (\<lambda>a. is_exec a \<or> a = RiverMigrate \<or> a = RiverClient 10) tr"
    | (started) files where "parts_start env files"
      "tr = RiverMigrate # map (script (rn_migrate env)) (sort files) @ [RiverClient 10, RiverStart] @ listeners cfg @
        shutdown (rn_wakeup env)"
      "res = Returns (case rn_wakeup env of ListenFailed e \<Rightarrow> Some (errorf_w U ''http server: '' e) | _ \<Rightarrow> None)"
proof -
  obtain e1 tr1 where r: "MigrateRiver U (rn_river env) = (e1, tr1)" by fastforce
  obtain e2 tr2 where u: "MigrateUp U (rn_migrate env) = (e2, tr2)" by fastforce
  obtain e3 tr3 where c: "NewRiverClient U (rn_river env) = (e3, tr3)" by fastforce
  obtain ws where ws: "Register = Returns ws" using Register_returns by blast
  have ok: "list_all is_exec tr2 \<Longrightarrow> list_all (\<lambda>a. is_exec a \<or> a = RiverMigrate \<or> a = RiverClient 10) tr2"
    by (auto simp: list_all_iff)
  note t = MigrateRiver_trace(1) [OF r] MigrateUp_exec [OF u] NewRiverClient_trace(1) [OF c]
  show thesis
  proof (cases "e1 = None \<and> e2 = None \<and> e3 = None \<and> rn_start env = None")
    case True
    then have n: "e1 = None" "e2 = None" "e3 = None" "rn_start env = None" by simp_all
    from MigrateRiver_trace(2) [OF r[unfolded n]] NewRiverClient_trace(2) [OF c[unfolded n]]
    have tr: "tr1 = [RiverMigrate]" "tr3 = [RiverClient 10]"
      and re: "re_New (rn_river env) = None" "re_Migrate (rn_river env) = None" "re_NewClient (rn_river env) 10 = None" by auto
    obtain files where f: "mg_Glob (rn_migrate env) = Inr files" "list_all (applied (rn_migrate env)) files"
      "tr2 = map (script (rn_migrate env)) (sort files)" by (rule MigrateUp_ok [OF u[unfolded n]])
    have "run_with_pool U env cfg = (case run_listeners U env cfg of
        (e, tr4) \<Rightarrow> (Returns e, [RiverMigrate] @ tr2 @ [RiverClient 10] @ RiverStart # tr4))"
      by (simp add: run_with_pool_def r u c ws n tr NewServer_eq newDebugMux_eq)
    with assms show thesis
      by (intro started [of files])
        (auto simp: parts_start_def re f n run_listeners_def listeners_def shutdown_def Let_def split: wakeup.splits)
  next
    case False
    then have "(\<exists>e. res = Returns (Some e)) \<and> list_all (\<lambda>a. is_exec a \<or> a = RiverMigrate \<or> a = RiverClient 10) tr"
      using assms t ok by (auto simp: run_with_pool_def r u c ws split: option.splits)
    with that(1) show thesis by blast
  qed
qed

lemma run_cases:
  assumes "run U env build getenv = (res, tr)"
  obtains (no_pool) e where "res = Returns (Some e)"
      "tr = [ContextDone] \<or> (\<exists>c. tr = [PoolOpen (tuned c), PoolPing, PoolClose, ContextDone])"
    | (pool) c mid where "run_with_pool U env (Load build getenv) = (res, mid)"
      "pool_opens (rn_pool env) (cf_DatabaseURL (Load build getenv)) c"
      "tr = deferred_cancel (PoolOpen (tuned c) # PoolPing # mid @ [PoolClose])"
proof -
  obtain e tr0 where p: "NewPool U (rn_pool env) (cf_DatabaseURL (Load build getenv)) = (e, tr0)" by fastforce
  show thesis
  proof (cases e)
    case (Some x)
    with assms p have r: "res = Returns (Some (errorf_w U ''db pool: '' x))" "tr = deferred_cancel tr0"
      by (simp_all add: run_def Let_def)
    from NewPool_traces(2) [OF p[unfolded Some]] have
      "tr = [ContextDone] \<or> (\<exists>c. tr = [PoolOpen (tuned c), PoolPing, PoolClose, ContextDone])"
      by (auto simp: r(2) deferred_cancel_def)
    with r(1) that(1) show thesis by blast
  next
    case None
    obtain res' mid where m: "run_with_pool U env (Load build getenv) = (res', mid)" by fastforce
    from NewPool_traces(1) [OF p[unfolded None]] obtain c where
      c: "pool_opens (rn_pool env) (cf_DatabaseURL (Load build getenv)) c" "tr0 = [PoolOpen (tuned c), PoolPing]" by blast
    with assms have "res' = res" "tr = deferred_cancel (PoolOpen (tuned c) # PoolPing # mid @ [PoolClose])"
      by (simp_all add: run_def Let_def p m None)
    with m c(1) that(2) show thesis by blast
  qed
qed

lemma is_exec_mem: "list_all is_exec xs \<Longrightarrow> \<not> is_exec a \<Longrightarrow> a \<notin> set xs"
  by (auto simp: list_all_iff)

lemma aborted_mem:
  "list_all (\<lambda>a. is_exec a \<or> a = RiverMigrate \<or> a = RiverClient 10) xs \<Longrightarrow>
    \<not> is_exec a \<Longrightarrow> a \<noteq> RiverMigrate \<Longrightarrow> a \<noteq> RiverClient 10 \<Longrightarrow> a \<notin> set xs"
  by (auto simp: list_all_iff)

lemma script_mem: "\<not> is_exec a \<Longrightarrow> a \<notin> script env ` set names"
  by (auto split: sum.splits)

text \<open>The whole trace of a process that started its parts.\<close>

lemma deferred_cancel_started:
  assumes "set pre \<inter> {ContextDone} = {}"
  shows "deferred_cancel (pre @ shutdown wake @ [PoolClose]) =
    pre @ shutdown wake @ PoolClose # (if wake = Signalled then [] else [ContextDone])"
  using assms by (cases wake) (simp_all add: deferred_cancel_def shutdown_def)

section \<open>Properties\<close>

definition serves :: "action \<Rightarrow> bool" where
  "serves a \<longleftrightarrow> (case a of RiverStart \<Rightarrow> True | Listen _ \<Rightarrow> True | ListenDebug _ \<Rightarrow> True | _ \<Rightarrow> False)"

text \<open>How \<open>run\<close> ends: early with an error, and then nothing serves, or after the listeners.\<close>

lemma run_ends:
  assumes "run U env build getenv = (res, tr)"
  obtains (early) e where "res = Returns (Some e)" "\<not> list_ex serves tr"
      "tr = [ContextDone] \<or> (\<exists>c mid. tr = PoolOpen (tuned c) # mid @ [PoolClose, ContextDone] \<and> PoolClose \<notin> set mid)"
    | (served) c files where "pool_opens (rn_pool env) (cf_DatabaseURL (Load build getenv)) c" "parts_start env files"
      "tr = [PoolOpen (tuned c), PoolPing, RiverMigrate] @ map (script (rn_migrate env)) (sort files) @
        [RiverClient 10, RiverStart] @ listeners (Load build getenv) @ shutdown (rn_wakeup env) @
        PoolClose # (if rn_wakeup env = Signalled then [] else [ContextDone])"
      "res = Returns (case rn_wakeup env of ListenFailed e \<Rightarrow> Some (errorf_w U ''http server: '' e) | _ \<Rightarrow> None)"
  using assms
proof (cases rule: run_cases)
  case (no_pool e)
  have "PoolOpen (tuned c) # [PoolPing] @ [PoolClose, ContextDone] = [PoolOpen (tuned c), PoolPing, PoolClose, ContextDone]"
    "PoolClose \<notin> set [PoolPing]" for c by simp_all
  with no_pool(2) have "tr = [ContextDone] \<or> (\<exists>c mid. tr = PoolOpen (tuned c) # mid @ [PoolClose, ContextDone] \<and> PoolClose \<notin> set mid)"
    by metis
  moreover have "\<not> list_ex serves tr" using no_pool(2) by (auto simp: serves_def)
  ultimately show thesis using no_pool(1) that(1) by blast
next
  case (pool c mid)
  from pool(1) show thesis
  proof (cases rule: run_with_pool_cases)
    case (aborted e)
    from aborted_mem [OF aborted(2)] have "PoolClose \<notin> set mid" "ContextDone \<notin> set mid" by simp_all
    moreover from aborted(2) have "\<not> list_ex serves mid"
      by (induction mid) (auto simp: serves_def split: action.splits)
    ultimately have "tr = PoolOpen (tuned c) # (PoolPing # mid) @ [PoolClose, ContextDone]"
      "PoolClose \<notin> set (PoolPing # mid)" "\<not> list_ex serves tr"
      using pool(3) by (simp_all add: deferred_cancel_def serves_def)
    with aborted(1) that(1) show thesis by blast
  next
    case (started files)
    let ?pre = "[PoolOpen (tuned c), PoolPing, RiverMigrate] @ map (script (rn_migrate env)) (sort files) @
           [RiverClient 10, RiverStart] @ listeners (Load build getenv)"
    have "tr = ?pre @ shutdown (rn_wakeup env) @ PoolClose # (if rn_wakeup env = Signalled then [] else [ContextDone])"
      using deferred_cancel_started [of ?pre "rn_wakeup env"] script_mem [of ContextDone]
      by (simp add: pool(3) started(2) listeners_def)
    with that(2) pool(2) started(1,3) show thesis by simp
  qed
qed

text \<open>C21: the order of start-up. Whatever fails, \<open>run\<close> returns and does not panic; a pool that was
  opened is closed exactly once, and only the end of the context may follow. If River or one of
  the listeners is started, then everything before succeeded: the pool was opened and pinged,
  River's migrations ran without an error, every script of the application was read and
  executed, in the order of the names, the client was made, with ten workers, and started; and
  they are started in that order. Otherwise \<open>run\<close> returns an error.\<close>

theorem run_order:
  assumes "run U env build getenv = (res, tr)"
  shows "(\<exists>e. res = Returns e) \<and>
    (tr = [ContextDone] \<or>
     (\<exists>c mid post. tr = PoolOpen (tuned c) # mid @ PoolClose # post \<and> PoolClose \<notin> set mid \<and> post \<in> {[], [ContextDone]})) \<and>
    (if list_ex serves tr then
       \<exists>c files rest. pool_opens (rn_pool env) (cf_DatabaseURL (Load build getenv)) c \<and> parts_start env files \<and>
         tr = [PoolOpen (tuned c), PoolPing, RiverMigrate] @ map (script (rn_migrate env)) (sort files) @
           [RiverClient 10, RiverStart] @ listeners (Load build getenv) @ rest
     else \<exists>e. res = Returns (Some e))"
  using assms
proof (cases rule: run_ends)
  case (early e)
  then show ?thesis by auto
next
  case (served c files)
  let ?mid = "[PoolPing, RiverMigrate] @ map (script (rn_migrate env)) (sort files) @ [RiverClient 10, RiverStart] @
    listeners (Load build getenv) @ shutdown (rn_wakeup env)"
  have "PoolClose \<notin> set ?mid"
    using script_mem [of PoolClose] by (simp add: shutdown_def listeners_def split: wakeup.splits)
  then have "\<exists>c mid post. tr = PoolOpen (tuned c) # mid @ PoolClose # post \<and> PoolClose \<notin> set mid \<and> post \<in> {[], [ContextDone]}"
    by (intro exI [of _ c] exI [of _ ?mid] exI [of _ "if rn_wakeup env = Signalled then [] else [ContextDone]"])
      (simp add: served(3))
  moreover have "list_ex serves tr" by (simp add: served(3) serves_def)
  moreover have "\<exists>c files rest. pool_opens (rn_pool env) (cf_DatabaseURL (Load build getenv)) c \<and> parts_start env files \<and>
      tr = [PoolOpen (tuned c), PoolPing, RiverMigrate] @ map (script (rn_migrate env)) (sort files) @
        [RiverClient 10, RiverStart] @ listeners (Load build getenv) @ rest"
    using served(1-3) by (intro exI [of _ c] exI [of _ files]) auto
  ultimately show ?thesis using served(4) by simp
qed

text \<open>
  What ends River: its documentation says that \<open>Stop\<close> stops fetching and lets the running jobs
  finish, while ending the context that \<open>Start\<close> was given stops it too and cancels the contexts
  of the running jobs. Whichever comes first after the start counts.
\<close>

definition river_ended_by :: "action list \<Rightarrow> action option" where
  "river_ended_by tr = find (\<lambda>a. a = RiverStop \<or> a = ContextDone) (dropWhile (\<lambda>a. a \<noteq> RiverStart) tr)"

text \<open>C20: how the process stops. Once River was started, \<open>run\<close> shuts down the HTTP server, then the
  debug server, then River, then the pool, and returns nil, when the listener was closed or a
  signal came. But River was started with the context that a signal ends: so on a signal River
  ends first, before the HTTP server stops to accept requests, by the end of its context, which
  cancels the running jobs, and not by \<open>Stop\<close>, which would let them finish. And when the HTTP
  server fails, \<open>run\<close> returns its error at once: the debug server and River are not stopped, and
  the pool is closed while River still works on it.\<close>

theorem run_shutdown:
  assumes "run U env build getenv = (res, tr)" and "RiverStart \<in> set tr"
  shows "\<exists>pre. tr = pre @ RiverStart # listeners (Load build getenv) @
      (case rn_wakeup env of
         ListenFailed e \<Rightarrow> [PoolClose, ContextDone]
       | ListenClosed \<Rightarrow> [HttpShutdown, DebugShutdown, RiverStop, PoolClose, ContextDone]
       | Signalled \<Rightarrow> [ContextDone, HttpShutdown, DebugShutdown, RiverStop, PoolClose]) \<and>
    set pre \<inter> {RiverStart, RiverStop, DebugShutdown, HttpShutdown, PoolClose, ContextDone} = {} \<and>
    river_ended_by tr = Some (if rn_wakeup env = ListenClosed then RiverStop else ContextDone) \<and>
    res = Returns (case rn_wakeup env of ListenFailed e \<Rightarrow> Some (errorf_w U ''http server: '' e) | _ \<Rightarrow> None)"
  using assms(1)
proof (cases rule: run_ends)
  case (early e)
  with assms(2) show ?thesis by (auto simp: list_ex_iff serves_def)
next
  case (served c files)
  let ?pre = "[PoolOpen (tuned c), PoolPing, RiverMigrate] @ map (script (rn_migrate env)) (sort files) @ [RiverClient 10]"
  let ?rest = "RiverStart # listeners (Load build getenv) @ shutdown (rn_wakeup env) @ PoolClose #
    (if rn_wakeup env = Signalled then [] else [ContextDone])"
  have tr: "tr = ?pre @ ?rest" by (simp add: served(3))
  have no: "a \<notin> set ?pre" if "a \<in> {RiverStart, RiverStop, DebugShutdown, HttpShutdown, PoolClose, ContextDone}" for a
    using that script_mem [of a "rn_migrate env" "sort files"] by auto
  have "dropWhile (\<lambda>a. a \<noteq> RiverStart) tr = ?rest"
    unfolding tr using no [of RiverStart] by (subst dropWhile_append2) auto
  then have "river_ended_by tr = Some (if rn_wakeup env = ListenClosed then RiverStop else ContextDone)"
    by (cases "rn_wakeup env") (simp_all add: river_ended_by_def listeners_def shutdown_def)
  moreover have "set ?pre \<inter> {RiverStart, RiverStop, DebugShutdown, HttpShutdown, PoolClose, ContextDone} = {}"
    using no by blast
  ultimately show ?thesis
    using tr served(4) by (intro exI [of _ ?pre]) (cases "rn_wakeup env"; simp add: shutdown_def)
qed

text \<open>A start-up in which everything works and the port is taken.\<close>

definition sample_run_env :: run_env where
  "sample_run_env =
     \<lparr>rn_pool = \<lparr>pe_ParseConfig = (\<lambda>url. Inr \<lparr>pc_url = url, pc_MaxConns = 4, pc_MinConns = 0,
         pc_MaxConnIdleTime = 0, pc_MaxConnLifetime = 0, pc_HealthCheckPeriod = 0\<rparr>),
         pe_New = (\<lambda>_. None), pe_Ping = None\<rparr>,
      rn_migrate = \<lparr>mg_Glob = Inr [''migrations/001_workflow_state.up.sql''], mg_ReadFile = (\<lambda>_. Inr ''CREATE''),
         mg_Exec = (\<lambda>_. None)\<rparr>,
      rn_river = \<lparr>re_New = None, re_Migrate = None, re_NewClient = (\<lambda>_. None)\<rparr>,
      rn_start = None, rn_debug = sample_debug_lib, rn_wakeup = ListenFailed (ErrNew ''address already in use'')\<rparr>"

lemma sample_run_trace:
  "\<exists>c res. run ascii_tables sample_run_env dev_build (\<lambda>_. []) =
    (res, PoolOpen c # [PoolPing, RiverMigrate, Exec ''CREATE'', RiverClient 10, RiverStart] @
       listeners (Load dev_build (\<lambda>_. [])) @ [PoolClose, ContextDone])"
proof -
  obtain ws where ws: "Register = Returns ws" using Register_returns by blast
  show ?thesis
    by (simp add: ws run_def sample_run_env_def NewPool_def Let_def run_with_pool_def MigrateRiver_def MigrateUp_def
        NewRiverClient_def NewServer_eq newDebugMux_eq run_listeners_def listeners_def deferred_cancel_def)
qed

lemma run_order_witness:
  "\<exists>e tr c rest. run ascii_tables sample_run_env dev_build (\<lambda>_. []) = (Returns e, tr) \<and>
    tr = [PoolOpen c, PoolPing, RiverMigrate, Exec ''CREATE'', RiverClient 10, RiverStart] @ rest \<and> last tr = ContextDone"
proof -
  obtain c res where r: "run ascii_tables sample_run_env dev_build (\<lambda>_. []) =
    (res, PoolOpen c # [PoolPing, RiverMigrate, Exec ''CREATE'', RiverClient 10, RiverStart] @
       listeners (Load dev_build (\<lambda>_. [])) @ [PoolClose, ContextDone])" using sample_run_trace by blast
  from run_order [OF r] obtain e where "res = Returns e" by blast
  with r show ?thesis by (auto simp: listeners_def)
qed

text \<open>With everything working until a signal comes, River is ended by its context.\<close>

lemma run_shutdown_witness:
  "\<exists>tr. run ascii_tables (sample_run_env\<lparr>rn_wakeup := Signalled\<rparr>) dev_build (\<lambda>_. []) = (Returns None, tr) \<and>
    river_ended_by tr = Some ContextDone"
proof -
  let ?env = "sample_run_env\<lparr>rn_wakeup := Signalled\<rparr>"
  obtain ws where ws: "Register = Returns ws" using Register_returns by blast
  obtain res tr where r: "run ascii_tables ?env dev_build (\<lambda>_. []) = (res, tr)" by fastforce
  have "RiverStart \<in> set (snd (run ascii_tables ?env dev_build (\<lambda>_. [])))"
    by (simp add: ws run_def sample_run_env_def NewPool_def Let_def run_with_pool_def MigrateRiver_def MigrateUp_def
        NewRiverClient_def NewServer_eq newDebugMux_eq run_listeners_def deferred_cancel_def)
  with r have "RiverStart \<in> set tr" by simp
  from run_shutdown [OF r this] r show ?thesis by auto
qed

end
