(* ===== verification/Timeouts.thy ===== *)
theory Timeouts
  imports Startup VcdSharing
begin

text \<open>
  The time limits of the process: those of the VCD client's HTTP client
  (\<open>clients/vcd/client.go\<close>) and of the two HTTP servers (\<open>cmd/hbsqueue/main.go\<close>), and what
  they amount to when they meet in the onboarding handler. Time is counted in nanoseconds in
  the world outside: each exchange of the VCD client takes as long as it takes, at most the
  client's timeout. A call of \<open>do\<close> that shares the client with others also waits for the mutex,
  which is held during an authentication: that time is counted over the schedules of \<open>VcdSharing\<close>.
\<close>

section \<open>The limits in the code\<close>

record http_client =
  hc_Timeout :: int64
  ht_TLSMinVersion :: nat
  ht_DialTimeout :: int64
  ht_DialKeepAlive :: int64
  ht_ForceAttemptHTTP2 :: bool
  ht_MaxIdleConns :: int
  ht_MaxIdleConnsPerHost :: int
  ht_IdleConnTimeout :: int64
  ht_TLSHandshakeTimeout :: int64
  ht_ExpectContinueTimeout :: int64

text \<open>\<open>tls.VersionTLS12\<close> is 0x0303.\<close>

definition newHTTPClient :: http_client where
  "newHTTPClient =
     \<lparr>hc_Timeout = 30 * second, ht_TLSMinVersion = 0x0303, ht_DialTimeout = 30 * second,
      ht_DialKeepAlive = 30 * second, ht_ForceAttemptHTTP2 = True, ht_MaxIdleConns = 100,
      ht_MaxIdleConnsPerHost = 100, ht_IdleConnTimeout = 90 * second,
      ht_TLSHandshakeTimeout = 10 * second, ht_ExpectContinueTimeout = second\<rparr>"

text \<open>The client together with the HTTP client it calls.\<close>

record vcd_http_client = vcd_client +
  vc_httpClient :: http_client

definition vcd_New_http :: "string \<Rightarrow> string \<Rightarrow> string \<Rightarrow> string \<Rightarrow> string \<Rightarrow> vcd_http_client" where
  "vcd_New_http baseURL version username password org =
     vcd_client.extend (vcd_New baseURL version username password org) \<lparr>vc_httpClient = newHTTPClient\<rparr>"

definition SetHTTPClient :: "http_client \<Rightarrow> vcd_http_client \<Rightarrow> vcd_http_client" where
  "SetHTTPClient hc c = c\<lparr>vc_httpClient := hc\<rparr>"

text \<open>An \<open>http.Server\<close> without its handler; a limit of zero is none.\<close>

record http_server =
  sv_Addr :: string
  sv_ReadHeaderTimeout :: int64
  sv_ReadTimeout :: int64
  sv_WriteTimeout :: int64
  sv_IdleTimeout :: int64

definition httpServer :: "AppConfig \<Rightarrow> http_server" where
  "httpServer cfg =
     \<lparr>sv_Addr = '':'' @ cf_Port cfg, sv_ReadHeaderTimeout = 10 * second, sv_ReadTimeout = 30 * second,
      sv_WriteTimeout = 30 * second, sv_IdleTimeout = 60 * second\<rparr>"

definition debugServer :: "AppConfig \<Rightarrow> http_server" where
  "debugServer cfg =
     \<lparr>sv_Addr = '':'' @ cf_DebugPort cfg, sv_ReadHeaderTimeout = 0, sv_ReadTimeout = 0,
      sv_WriteTimeout = 0, sv_IdleTimeout = 0\<rparr>"

text \<open>
  \<open>net/http\<close> sets the write deadline when the header of the request has been read: an answer
  that a handler gives later than the limit is not sent.
\<close>

definition answer_in_time :: "http_server \<Rightarrow> int \<Rightarrow> bool" where
  "answer_in_time srv elapsed \<longleftrightarrow> sint (sv_WriteTimeout srv) \<le> 0 \<or> elapsed \<le> sint (sv_WriteTimeout srv)"

section \<open>A network that takes time\<close>

definition timed :: "(http_request \<Rightarrow> 'w \<Rightarrow> int) \<Rightarrow> 'w vcd_env \<Rightarrow> ('w \<times> int) vcd_env" where
  "timed dur V =
     \<lparr>ve_lib = ve_lib V,
      ve_net = (\<lambda>req (w, t). case ve_net V req w of (r, b, w') \<Rightarrow> (r, b, (w', t + dur req w))),
      ve_retry = ve_retry V, ve_request_err = ve_request_err V\<rparr>"

definition clock :: "('r, 'w \<times> int) do_state \<Rightarrow> int" where
  "clock s = snd (ds_world s)"

text \<open>An exchange takes no longer than the timeout of the client, which covers connecting,
  redirects and reading the body.\<close>

definition within_timeout :: "http_client \<Rightarrow> (http_request \<Rightarrow> 'w \<Rightarrow> int) \<Rightarrow> bool" where
  "within_timeout hc dur \<longleftrightarrow> (\<forall>req w. 0 \<le> dur req w \<and> dur req w \<le> sint (hc_Timeout hc))"

lemma timed_sel [simp]:
  "ve_lib (timed dur V) = ve_lib V" "ve_retry (timed dur V) = ve_retry V"
  "ve_request_err (timed dur V) = ve_request_err V"
  by (simp_all add: timed_def)

lemma timed_net:
  "ve_net (timed dur V) req x = (r, b, x') \<Longrightarrow> snd x' = snd x + dur req (fst x)"
  by (auto simp: timed_def split: prod.splits)

lemma sint_30_seconds: "sint (30 * second) = 30000000000"
  by (simp add: second_def)

definition slow :: "int \<Rightarrow> (http_request \<Rightarrow> 'w \<Rightarrow> int) \<Rightarrow> bool" where
  "slow d dur \<longleftrightarrow> 0 \<le> d \<and> (\<forall>req w. d < dur req w)"

lemma authenticate_clock:
  assumes "authenticate (timed dur V) c x = (e, c', x')"
  shows "(e \<noteq> None \<and> c' = c \<and> x' = x) \<or> (\<exists>req w. snd x' = snd x + dur req w)"
proof (cases "ve_request_err V ''POST'' (vc_baseURL c @ auth_path)")
  case (Some e')
  with assms show ?thesis by (auto simp: authenticate_def)
next
  case None
  obtain r b x1 where n: "ve_net (timed dur V) (auth_request c) x = (r, b, x1)" by (metis prod_cases3)
  with assms None have "x' = x1"
    by (auto simp: authenticate_def Let_def split: sum.splits if_splits)
  with timed_net [OF n] show ?thesis by blast
qed

text \<open>\<open>getToken\<close> makes no exchange, or one; it makes one when it leaves a token that was not there.\<close>

lemma getToken_clock:
  assumes "getToken (timed dur V) c x = (res, c', x')"
  shows "(c' = c \<and> x' = x \<and> (vc_token c = [] \<longrightarrow> (\<exists>e. res = Inl e))) \<or> (\<exists>req w. snd x' = snd x + dur req w)"
proof (cases "vc_token c = []")
  case True
  obtain e c1 x1 where a: "authenticate (timed dur V) c x = (e, c1, x1)" by (metis prod_cases3)
  with assms True have "c' = c1" "x' = x1" "e \<noteq> None \<longrightarrow> (\<exists>e. res = Inl e)"
    by (auto simp: getToken_def split: option.splits)
  with authenticate_clock [OF a] True show ?thesis by auto
qed (use assms in \<open>simp add: getToken_def\<close>)

text \<open>An attempt makes at most two exchanges; a successful one makes its request last.\<close>

lemma attempt_clock:
  assumes "do_attempt (timed dur V) m p result s = (r, s')"
  obtains (no_request) c x e where "getToken (timed dur V) (ds_client s) (ds_world s) = (e, c, x)"
      "ds_client s' = c" "clock s' = snd x" "r \<noteq> None"
    | (request) c x t req w where "getToken (timed dur V) (ds_client s) (ds_world s) = (Inr t, c, x)"
      "clock s' = snd x + dur req w"
proof -
  obtain res c x where g: "getToken (timed dur V) (ds_client s) (ds_world s) = (res, c, x)" by (metis prod_cases3)
  show thesis
  proof (cases res)
    case (Inl e)
    with assms g show thesis by (intro no_request [OF g]) (auto simp: do_attempt_def Let_def clock_def)
  next
    case (Inr t)
    show thesis
    proof (cases "ve_request_err V m (vc_baseURL c @ p)")
      case (Some e)
      with assms g Inr show thesis by (intro no_request [OF g]) (auto simp: do_attempt_def Let_def clock_def)
    next
      case None
      obtain nr b x1 where n: "ve_net (timed dur V) (api_request c m p (ds_body s) t) x = (nr, b, x1)" by (metis prod_cases3)
      from assms g Inr None n have "clock s' = snd x1"
        by (auto simp: do_attempt_def Let_def clock_def split: sum.splits if_splits option.splits prod.splits)
      with timed_net [OF n] g Inr show thesis by (intro request) auto
    qed
  qed
qed

text \<open>Within the timeout, \<open>k\<close> attempts take at most \<open>2 * k\<close> timeouts.\<close>

lemma attempt_time:
  assumes "within_timeout hc dur" and "do_attempt (timed dur V) m p result s = (r, s')"
  shows "clock s' \<le> clock s + 2 * sint (hc_Timeout hc)"
proof -
  have d: "0 \<le> dur req w" "dur req w \<le> sint (hc_Timeout hc)" for req w
    using assms(1) by (simp_all add: within_timeout_def)
  have tok: "snd x \<le> clock s + sint (hc_Timeout hc)"
    if "getToken (timed dur V) (ds_client s) (ds_world s) = (e, c, x)" for e c x
    using getToken_clock [OF that] d(2) order_trans [OF d] by (auto simp: clock_def)
  from assms(2) show ?thesis
  proof (cases rule: attempt_clock)
    case (no_request c x e)
    from tok [OF no_request(1)] no_request(3) order_trans [OF d] show ?thesis by fastforce
  next
    case (request c x t req w)
    from tok [OF request(1)] request(2) d(2) [of req w] show ?thesis by linarith
  qed
qed

lemma attempts_time:
  assumes "within_timeout hc dur"
  shows "clock (attempt_state (do_attempt (timed dur V) m p result) s k) \<le> clock s + 2 * int k * sint (hc_Timeout hc)"
proof (induction k)
  case (Suc k)
  let ?fn = "do_attempt (timed dur V) m p result"
  have "clock (attempt_state ?fn s (Suc k)) \<le> clock (attempt_state ?fn s k) + 2 * sint (hc_Timeout hc)"
    by (rule attempt_time [OF assms]) (rule fn_attempt)
  with Suc show ?case by (simp add: algebra_simps)
qed simp

section \<open>How long a lookup takes\<close>

text \<open>A call of \<open>do\<close> that has the client for itself: with every exchange within the timeout of the HTTP
  client, its exchanges and waits together take less than 184.5 seconds (three attempts of two
  exchanges of 30 s, a wait below 1.5 s and one below 3 s).\<close>

lemma do_time_bound:
  assumes "vcd_do (timed dur V) m p body result v c (w, t) = (res, s, slept)"
    and "within_timeout newHTTPClient dur" and "rand_ok (ve_retry V)"
  shows "clock s - t + sum_list (map sint slept) < 184500000000"
proof -
  let ?fn = "do_attempt (timed dur V) m p result"
  let ?init = "\<lparr>ds_client = c, ds_body = body, ds_result = v, ds_world = (w, t)\<rparr>"
  have T: "sint (hc_Timeout newHTTPClient) = 30000000000" by (simp add: newHTTPClient_def sint_30_seconds)
  have "retry_Do (ve_lib V) (ve_retry V) 3 ?fn ?init = (res, s, slept)" using assms(1) by (simp add: vcd_do_def)
  moreover obtain k r where "stops_at (ve_lib V) (ve_retry V) (nat (sint (3 :: int64))) ?fn ?init k r"
    "retry_Do (ve_lib V) (ve_retry V) 3 ?fn ?init = (r, attempt_state ?fn ?init (Suc k), map (backoff (ve_retry V)) [0..<k])"
    by (rule retry_Do_stops [OF sint_numeral_3(1)])
  ultimately have k: "s = attempt_state ?fn ?init (Suc k)" "slept = map (backoff (ve_retry V)) [0..<k]" "k < 3"
    by (simp_all add: stops_at_def)
  have c: "clock s \<le> t + 2 * int (Suc k) * 30000000000"
    using attempts_time [OF assms(2), of V m p result ?init "Suc k"] unfolding k(1) T by (simp add: clock_def)
  have b: "sint (backoff (ve_retry V) 0) < 1500000000" "sint (backoff (ve_retry V) 1) < 3000000000"
    using sint_backoff(2) [OF assms(3), of 0] sint_backoff(2) [OF assms(3), of 1] by (simp_all add: delay_ns_def)
  consider "k = 0" | "k = 1" | "k = 2" using k(3) by linarith
  then show ?thesis
    by cases (use b c in \<open>simp_all add: k(2) numeral_2_eq_2\<close>)
qed

section \<open>Calls that share the client\<close>

text \<open>
  What the next step of a goroutine takes: the exchange it makes, if it makes one, or the wait
  of \<open>retry.Do\<close>, which a cancelled context may cut short. Another goroutine waits for it when it
  wants the mutex that an authentication holds.
\<close>

definition step_cost :: "(http_request \<Rightarrow> 'w \<Rightarrow> int) \<Rightarrow> 'w vcd_env \<Rightarrow> 'w shared \<Rightarrow> 'r goroutine \<Rightarrow> int" where
  "step_cost dur V sh g =
     (case gr_pc g of
        AtAuth \<Rightarrow>
          (if ve_request_err V ''POST'' (vc_baseURL (sh_client sh) @ auth_path) = None
           then dur (auth_request (sh_client sh)) (sh_world sh) else 0)
      | AtSend token \<Rightarrow>
          (if ve_request_err V (gr_method g) (vc_baseURL (sh_client sh) @ gr_path g) = None
           then dur (api_request (sh_client sh) (gr_method g) (gr_path g) (gr_body g) token) (sh_world sh) else 0)
      | AtFailed e \<Rightarrow> (if gr_attempt g < 2 then sint (backoff (gr_retry g) (gr_attempt g)) else 0)
      | _ \<Rightarrow> 0)"

definition waits_for :: "'r goroutine \<Rightarrow> 'r goroutine \<Rightarrow> bool" where
  "waits_for g h \<longleftrightarrow> (gr_pc g = AtLock \<or> gr_pc g = AtClear) \<and> gr_pc h = AtAuth"

text \<open>The time of the call of goroutine \<open>i\<close> over a schedule: that of its own steps, and that of each
  authentication of another goroutine while it waits for the mutex.\<close>

fun call_time :: "(http_request \<Rightarrow> 'w \<Rightarrow> int) \<Rightarrow> 'w vcd_env \<Rightarrow> nat \<Rightarrow> nat list \<Rightarrow> ('r, 'w) sharing \<Rightarrow> int" where
  "call_time dur V i [] S = 0"
| "call_time dur V i (j # js) S =
     (if j = i \<or> waits_for (sg_go S i) (sg_go S j) then step_cost dur V (sg_shared S) (sg_go S j) else 0) +
     (case sstep V j S of None \<Rightarrow> 0 | Some S' \<Rightarrow> call_time dur V i js S')"

text \<open>The potential: what is left at most of a goroutine's own time, and of its authentications.\<close>

definition own_left :: "'r goroutine \<Rightarrow> int" where
  "own_left g =
     (if returned g then 0
      else 60000000000 * int (2 - gr_attempt g) +
        (if gr_attempt g = 0 then 4499999998 else if gr_attempt g = 1 then 2999999999 else 0) +
        (case gr_pc g of AtLock \<Rightarrow> 60000000000 | AtAuth \<Rightarrow> 60000000000 | AtSend t \<Rightarrow> 30000000000 | _ \<Rightarrow> 0))"

definition auths_left :: "'r goroutine \<Rightarrow> nat" where
  "auths_left g =
     (if returned g then 0
      else 2 - gr_attempt g + (if gr_pc g = AtLock \<or> gr_pc g = AtAuth then 1 else 0))"

lemma own_left_nonneg: "0 \<le> own_left g"
  by (simp add: own_left_def split: pc.splits)

lemma handle_answer_left:
  "own_left (handle_answer U g r) \<le> own_left (g\<lparr>gr_pc := AtClear\<rparr>)"
  "auths_left (handle_answer U g r) \<le> 2 - gr_attempt g"
  "gr_retry (handle_answer U g r) = gr_retry g"
  by (auto simp: handle_answer_def own_left_def auths_left_def returned_def Let_def
      split: sum.splits option.splits prod.splits)

lemma retry_step_left:
  assumes "rand_ok (gr_retry g)" and "gr_pc g = AtFailed e"
  shows "step_cost dur V sh g + own_left (retry_step U g e) \<le> own_left g"
proof -
  have "sint (backoff (gr_retry g) 0) \<le> 1499999999" "sint (backoff (gr_retry g) 1) \<le> 2999999999"
    using sint_backoff(2) [OF assms(1), of 0] sint_backoff(2) [OF assms(1), of 1] by (simp_all add: delay_ns_def)
  moreover consider "gr_attempt g = 0" | "gr_attempt g = 1" | "2 \<le> gr_attempt g" by linarith
  ultimately show ?thesis
    by cases (auto simp: step_cost_def retry_step_def own_left_def returned_def Let_def assms(2) numeral_2_eq_2
        split: option.splits)
qed

text \<open>Every step pays from the potential.\<close>

lemma step_pays:
  assumes step: "gstep V i (sh, g) = Some (sh', g')" and time: "within_timeout newHTTPClient dur"
    and rnd: "rand_ok (gr_retry g)"
  shows "step_cost dur V sh g + own_left g' \<le> own_left g" "gr_retry g' = gr_retry g"
proof -
  have d: "dur req w \<le> 30000000000" "0 \<le> dur req w" for req w
    using time by (simp_all add: within_timeout_def newHTTPClient_def sint_30_seconds)
  have "step_cost dur V sh g + own_left g' \<le> own_left g \<and> gr_retry g' = gr_retry g"
  proof (cases "gr_pc g")
    case AtLock
    with step show ?thesis by (auto simp: gstep_def step_cost_def own_left_def returned_def split: if_splits)
  next
    case AtAuth
    obtain e c w where "authenticate V (sh_client sh) (sh_world sh) = (e, c, w)" by (metis prod_cases3)
    with AtAuth step d(1) [of "auth_request (sh_client sh)" "sh_world sh"] show ?thesis
      by (cases e) (auto simp: gstep_def step_cost_def own_left_def returned_def)
  next
    case (AtSend t)
    show ?thesis
    proof (cases "ve_request_err V (gr_method g) (vc_baseURL (sh_client sh) @ gr_path g)")
      case (Some e)
      with AtSend step show ?thesis by (auto simp: gstep_def step_cost_def own_left_def returned_def)
    next
      case None
      obtain r body w where n: "ve_net V (api_request (sh_client sh) (gr_method g) (gr_path g) (gr_body g) t) (sh_world sh) = (r, body, w)"
        by (metis prod_cases3)
      with AtSend step None have g': "g' = handle_answer (ve_lib V) (g\<lparr>gr_body := body\<rparr>) r" by (simp add: gstep_def)
      have "own_left ((g\<lparr>gr_body := body\<rparr>)\<lparr>gr_pc := AtClear\<rparr>) + 30000000000 = own_left g"
        by (simp add: own_left_def returned_def AtSend)
      with handle_answer_left(1) [of "ve_lib V" "g\<lparr>gr_body := body\<rparr>" r] None AtSend
        d(1) [of "api_request (sh_client sh) (gr_method g) (gr_path g) (gr_body g) t" "sh_world sh"]
      show ?thesis by (simp add: g' handle_answer_left(3) step_cost_def)
    qed
  next
    case AtClear
    with step show ?thesis by (auto simp: gstep_def step_cost_def own_left_def returned_def split: if_splits)
  next
    case (AtFailed e)
    with step have g': "g' = retry_step (ve_lib V) g e" by (simp add: gstep_def)
    have "gr_retry g' = gr_retry g" by (simp add: g' retry_step_def Let_def split: option.splits)
    with retry_step_left [OF rnd AtFailed] show ?thesis by (simp add: g')
  next
    case (Returned r)
    with step show ?thesis by (simp add: gstep_def)
  qed
  then show "step_cost dur V sh g + own_left g' \<le> own_left g" "gr_retry g' = gr_retry g" by simp_all
qed

lemma auth_pays:
  assumes "gstep V i (sh, g) = Some (sh', g')"
  shows "auths_left g' + (if gr_pc g = AtAuth then 1 else 0) \<le> auths_left g"
proof (cases "gr_pc g")
  case (AtFailed e)
  with assms show ?thesis
    by (auto simp: gstep_def retry_step_def auths_left_def returned_def Let_def split: option.splits if_splits)
next
  case (AtSend t)
  have "auths_left (handle_answer (ve_lib V) (g\<lparr>gr_body := b\<rparr>) r) \<le> 2 - gr_attempt g" for b r
    using handle_answer_left(2) [of "ve_lib V" "g\<lparr>gr_body := b\<rparr>" r] by simp
  with AtSend assms show ?thesis
    by (auto simp: gstep_def auths_left_def [of g] returned_def split: option.splits prod.splits)
      (simp add: auths_left_def returned_def)
qed (use assms in \<open>auto simp: gstep_def auths_left_def returned_def split: if_splits prod.splits option.splits\<close>)

lemma auth_cost:
  "gr_pc g = AtAuth \<Longrightarrow> within_timeout newHTTPClient dur \<Longrightarrow> step_cost dur V sh g \<le> 30000000000"
  by (simp add: step_cost_def within_timeout_def newHTTPClient_def sint_30_seconds)

definition call_budget :: "nat \<Rightarrow> nat \<Rightarrow> ('r, 'w) sharing \<Rightarrow> int" where
  "call_budget n i S = own_left (sg_go S i) + 30000000000 * int (\<Sum>j\<in>{..<n} - {i}. auths_left (sg_go S j))"

lemma step_budget:
  assumes step: "sstep V j S = Some S'" and j: "j < n" and time: "within_timeout newHTTPClient dur"
    and rnd: "rand_ok (gr_retry (sg_go S i))"
  shows "(if j = i \<or> waits_for (sg_go S i) (sg_go S j) then step_cost dur V (sg_shared S) (sg_go S j) else 0) +
      call_budget n i S' \<le> call_budget n i S"
    and "gr_retry (sg_go S' i) = gr_retry (sg_go S i)"
proof -
  from step obtain sh g where g: "gstep V j (sg_shared S, sg_go S j) = Some (sh, g)" and S': "sg_go S' = (sg_go S)(j := g)"
    by (elim sstep_cases) simp
  let ?sum = "\<lambda>S. \<Sum>k\<in>{..<n} - {i}. auths_left (sg_go S k)"
  show "gr_retry (sg_go S' i) = gr_retry (sg_go S i)"
    using step_pays(2) [OF g time] rnd by (cases "j = i") (simp_all add: S')
  show "(if j = i \<or> waits_for (sg_go S i) (sg_go S j) then step_cost dur V (sg_shared S) (sg_go S j) else 0) +
      call_budget n i S' \<le> call_budget n i S"
  proof (cases "j = i")
    case True
    then have "?sum S' = ?sum S" by (intro sum.cong) (simp_all add: S')
    with True step_pays(1) [OF g time] rnd show ?thesis by (simp add: call_budget_def S')
  next
    case False
    then have mem: "j \<in> {..<n} - {i}" using j by simp
    have "?sum S = auths_left (sg_go S j) + (\<Sum>k\<in>{..<n} - {i} - {j}. auths_left (sg_go S k))"
      "?sum S' = auths_left g + (\<Sum>k\<in>{..<n} - {i} - {j}. auths_left (sg_go S k))"
      using mem by (subst sum.remove [OF _ mem]; simp add: S')+
    with auth_pays [OF g] have "?sum S' + (if gr_pc (sg_go S j) = AtAuth then 1 else 0) \<le> ?sum S" by simp
    then have s: "int (?sum S') + (if gr_pc (sg_go S j) = AtAuth then 1 else 0) \<le> int (?sum S)"
      by (simp split: if_splits del: of_nat_sum)
    have le: "?sum S' \<le> ?sum S" using s by (simp split: if_splits del: of_nat_sum)
    have c: "step_cost dur V (sg_shared S) (sg_go S j) \<le> 30000000000" if "waits_for (sg_go S i) (sg_go S j)"
      using that by (intro auth_cost [OF _ time]) (simp add: waits_for_def)
    have "sg_go S' i = sg_go S i" using False by (simp add: S')
    with s le c False show ?thesis
      by (auto simp: call_budget_def waits_for_def simp del: of_nat_sum)
  qed
qed

lemma call_time_budget:
  assumes "run_schedule V is S = Some S'" "set is \<subseteq> {..<n}" "within_timeout newHTTPClient dur"
    and "rand_ok (gr_retry (sg_go S i))"
  shows "call_time dur V i is S \<le> call_budget n i S"
  using assms
proof (induction "is" arbitrary: S)
  case Nil
  have "0 \<le> int (\<Sum>j\<in>{..<n} - {i}. auths_left (sg_go S j))" by (rule of_nat_0_le_iff)
  with own_left_nonneg [of "sg_go S i"] show ?case by (simp add: call_budget_def del: of_nat_sum)
next
  case (Cons j js)
  then obtain S1 where s: "sstep V j S = Some S1" "run_schedule V js S1 = Some S'"
    by (auto split: option.splits)
  have "j < n" using Cons.prems(2) by simp
  note b = step_budget [OF s(1) this Cons.prems(3,4)]
  have "call_time dur V i js S1 \<le> call_budget n i S1"
    using Cons.prems b(2) s(2) by (intro Cons.IH) simp_all
  with b(1) s(1) show ?case by simp
qed

text \<open>C26: how long a call of \<open>do\<close> takes among \<open>n\<close> that share the client, under every schedule and
  whatever the server answers, with every exchange within the timeout of the HTTP client. Its
  own exchanges and waits take less than 184.5 seconds (three attempts of two exchanges of
  30 s, a wait below 1.5 s and one below 3 s); while it waits for the mutex, which is held during
  an authentication, each of the other calls may hold it up three times for at most 30 s. So the
  bound grows with the number of the calls, by 90 seconds each.\<close>

theorem call_time_bound:
  assumes "fresh S" and "run_schedule V is S = Some S'" and "set is \<subseteq> {..<n}" and "i < n"
    and "within_timeout newHTTPClient dur" and "rand_ok (gr_retry (sg_go S i))"
  shows "call_time dur V i is S < 184500000000 + 90000000000 * (int n - 1)"
proof -
  have start: "gr_pc (sg_go S k) = AtLock" "gr_attempt (sg_go S k) = 0" for k
    using assms(1) by (simp_all add: fresh_def)
  have "(\<Sum>j\<in>{..<n} - {i}. auths_left (sg_go S j)) = 3 * (n - 1)"
    using assms(4) by (simp add: auths_left_def returned_def start)
  moreover have "own_left (sg_go S i) = 184499999998" by (simp add: own_left_def returned_def start)
  ultimately have "call_budget n i S = 184499999998 + 90000000000 * int (n - 1)" by (simp add: call_budget_def)
  moreover have "int (n - 1) = int n - 1" using assms(4) by simp
  ultimately show ?thesis using call_time_budget [OF assms(2,3,5,6)] by simp
qed

section \<open>Slow exchanges\<close>

text \<open>Slow exchanges: what has put a token into an empty cache has taken one.\<close>

definition late_token :: "int \<Rightarrow> int \<Rightarrow> ('r, 'w \<times> int) do_state \<Rightarrow> bool" where
  "late_token d t s \<longleftrightarrow> t \<le> clock s \<and> (vc_token (ds_client s) \<noteq> [] \<longrightarrow> t + d < clock s)"

lemma getToken_late:
  assumes "slow d dur" and "getToken (timed dur V) (ds_client s) (ds_world s) = (res, c, x)"
    and "late_token d t s"
  shows "t \<le> snd x" "vc_token c \<noteq> [] \<Longrightarrow> t + d < snd x"
proof -
  have d: "0 \<le> d" "d < dur req w" for req w using assms(1) by (simp_all add: slow_def)
  have start: "t \<le> snd (ds_world s)" "vc_token (ds_client s) \<noteq> [] \<Longrightarrow> t + d < snd (ds_world s)"
    using assms(3) by (simp_all add: late_token_def clock_def)
  have "t \<le> snd x \<and> (vc_token c \<noteq> [] \<longrightarrow> t + d < snd x)"
    using getToken_clock [OF assms(2)]
  proof (elim disjE exE)
    fix req w assume "snd x = snd (ds_world s) + dur req w"
    with start(1) d(1) d(2) [of req w] show ?thesis by simp
  qed (use start in simp)
  then show "t \<le> snd x" "vc_token c \<noteq> [] \<Longrightarrow> t + d < snd x" by simp_all
qed

lemma attempt_late:
  assumes "slow d dur" and "do_attempt (timed dur V) m p result s = (r, s')" and "late_token d t s"
  shows "late_token d t s'" "r = None \<Longrightarrow> t + 2 * d < clock s'"
proof -
  have d: "0 \<le> d" "d < dur req w" for req w using assms(1) by (simp_all add: slow_def)
  from assms(2) have "late_token d t s' \<and> (r = None \<longrightarrow> t + 2 * d < clock s')"
  proof (cases rule: attempt_clock)
    case (no_request c x e)
    from getToken_late [OF assms(1) no_request(1) assms(3)] no_request show ?thesis by (auto simp: late_token_def)
  next
    case (request c x u req w)
    have "vc_token c \<noteq> []" using getToken_config [OF request(1)] by auto
    with getToken_late [OF assms(1) request(1) assms(3)] request(2) d(2) [of req w] d(1)
    show ?thesis by (simp add: late_token_def)
  qed
  then show "late_token d t s'" "r = None \<Longrightarrow> t + 2 * d < clock s'" by simp_all
qed

interpretation timed_attempts: retried "do_attempt (timed dur V) m p result" "\<lambda>s. slow d dur \<longrightarrow> late_token d t s"
  for dur V m p result d t
  by unfold_locales (metis attempt_late(1) prod.collapse)

lemma successful_do_time:
  assumes "vcd_do (timed dur V) m p body result v c (w, t) = (None, s, slept)" and "slow d dur" and "vc_token c = []"
  shows "t + 2 * d < clock s"
proof -
  let ?init = "\<lparr>ds_client = c, ds_body = body, ds_result = v, ds_world = (w, t)\<rparr>"
  have "retry_Do (ve_lib V) (ve_retry V) 3 (do_attempt (timed dur V) m p result) ?init = (None, s, slept)"
    using assms(1) by (simp add: vcd_do_def)
  from timed_attempts.Do_last [OF this sint_numeral_3(1), of d t] assms(2,3)
  obtain s0 r where "late_token d t s0" "do_attempt (timed dur V) m p result s0 = (r, s)" "r = None"
    by (fastforce simp: late_token_def clock_def split: option.splits)
  with attempt_late(2) [OF assms(2)] show ?thesis by blast
qed

section \<open>An accepted request without an answer\<close>

lemma GetOrganization_time:
  assumes "GetOrganization (timed dur V) n c x = (Inr org, c', x')" and "slow d dur" and "vc_token c = []"
  shows "snd x + 2 * d < snd x'"
proof -
  obtain w t where x: "x = (w, t)" by (cases x)
  obtain res s slept where r: "vcd_do (timed dur V) ''GET'' (org_path n) None
      (Some (''*vcd.organizationResult'', dec_organizationResult (ve_lib V))) zero_organizationResult c (w, t) = (res, s, slept)"
    by (metis prod_cases3)
  with assms(1) have "res = None" "x' = ds_world s"
    by (auto simp: GetOrganization_def Let_def x split: option.splits list.splits)
  with successful_do_time [OF _ assms(2,3)] r show ?thesis by (simp add: x clock_def)
qed

text \<open>C27: a slow VCD makes the service accept a job and not say so. When the client has no token and each
  exchange with VCD takes more than 15 seconds (its timeout allows 30), then every onboarding
  request that the handler answers with 202 has enqueued its job, but the answer comes after
  the write timeout of the server and is not sent; a caller that tries again gets a second
  job for the same client.\<close>

theorem accepted_but_not_answered:
  assumes "handleOnboardOrg env r w s = (res, w', s')" and "unwritten w" and "rw_status w' = Some 202"
    and "he_vcd env = timed dur V" and "slow 15000000000 dur" and "ss_vcd s = Some c" and "vc_token c = []"
  shows "\<not> answer_in_time (httpServer cfg) (snd (ss_world s') - snd (ss_world s)) \<and>
    (\<exists>jid req. decode_onboard (he_lib env) (rq_body r) = (req, None, None) \<and>
       ss_jobs s' = ss_jobs s @ [(jid, OnboardOrg (onboard_args_of req))])"
  using assms(1,2)
proof (cases rule: onboard_cases)
  case rejected
  with assms(3) show ?thesis by simp
next
  case (found req c0 org c' code v)
  from assms(3) have "code = 202" by (simp add: found(5) encode_status(1) [OF assms(2)])
  with enqueue_result [OF found(4)] obtain jid where
    "ss_jobs s' = ss_jobs s @ [(jid, OnboardOrg (onboard_args_of req))]" by blast
  moreover have "snd (ss_world s) + 2 * 15000000000 < snd (ss_world s')"
    using found(3) unfolding assms(4) by (rule GetOrganization_time [OF _ assms(5)]) (use found(2) assms(6,7) in simp)
  then have "\<not> answer_in_time (httpServer cfg) (snd (ss_world s') - snd (ss_world s))"
    by (simp add: answer_in_time_def httpServer_def sint_30_seconds)
  ultimately show ?thesis using found(1) by blast
qed

text \<open>A VCD that issues a token, lists one organization and takes 20 seconds for every answer.\<close>

definition answer_org_auth :: "http_request \<Rightarrow> http_response" where
  "answer_org_auth req = (if hr_method req = ''POST'' then answer_401 req else answer_org req)"

definition slow_vcd :: "(http_request list \<times> int) vcd_env" where
  "slow_vcd = timed (\<lambda>_ _. 20000000000) ((sample_vcd_env answer_org_auth)\<lparr>ve_retry := least_env\<rparr>)"

definition slow_http_env :: "(http_request list \<times> int) http_env" where
  "slow_http_env =
     \<lparr>he_vcd = slow_vcd, he_random = [], he_now = 0, he_ping = None, he_begin = None,
      he_insert = (\<lambda>_. Inr 42), he_commit = None, he_redirect = (\<lambda>_. (301, [], []))\<rparr>"

definition slow_server :: "(http_request list \<times> int) server_state" where
  "slow_server = \<lparr>ss_vcd = Some (clearToken sample_client), ss_world = ([], 0), ss_jobs = [], ss_log = []\<rparr>"

text \<open>The other call authenticates, for 20 seconds, while this one waits for the mutex.\<close>

definition slow_sharing :: "(unit, http_request list) sharing" where
  "slow_sharing =
     \<lparr>sg_shared = \<lparr>sh_client = clearToken sample_client, sh_owner = None, sh_world = []\<rparr>,
      sg_go = (\<lambda>_. call_do ''GET'' ''/x'' None None () least_env), sg_history = []\<rparr>"

lemma call_time_bound_witness:
  "call_time (\<lambda>_ _. 20000000000) (sample_vcd_env answer_org_auth) 1 [0, 0] slow_sharing = 20000000000 \<and>
   call_time (\<lambda>_ _. 20000000000) (sample_vcd_env answer_org_auth) 1 [0, 0] slow_sharing < 274500000000"
proof -
  let ?V = "sample_vcd_env answer_org_auth"
  have ok: "within_timeout newHTTPClient (\<lambda>(_ :: http_request) (_ :: http_request list). 20000000000)"
    by (simp add: within_timeout_def newHTTPClient_def sint_30_seconds)
  have rnd: "rand_ok least_env" by (auto simp: rand_ok_def least_env_def split: if_splits)
  have fresh: "fresh slow_sharing" by (simp add: fresh_def slow_sharing_def call_do_def)
  have retry: "gr_retry (sg_go slow_sharing 1) = least_env" by (simp add: slow_sharing_def call_do_def)
  obtain S1 where step: "sstep ?V 0 slow_sharing = Some S1"
    and S1: "sg_go S1 = (sg_go slow_sharing)(0 := (sg_go slow_sharing 0)\<lparr>gr_pc := AtAuth\<rparr>)"
    by (simp add: sstep_def gstep_def slow_sharing_def call_do_def clearToken_def)
  have "gr_pc (sg_go S1 0) = AtAuth" by (simp add: S1)
  with gstep_enabled [of "sg_go S1 0" "sg_shared S1" ?V 0] obtain S2 where "sstep ?V 0 S1 = Some S2"
    by (auto simp: sstep_def returned_def)
  with step have run: "sstep ?V 0 slow_sharing = Some S1" "sstep ?V 0 S1 = Some S2" by simp_all
  have "run_schedule ?V [0, 0] slow_sharing = Some S2" by (simp add: run)
  from call_time_bound [OF fresh this, of 2 1, OF _ _ ok] rnd retry have
    "call_time (\<lambda>_ _. 20000000000) ?V 1 [0, 0] slow_sharing < 274500000000" by simp
  moreover have "step_cost (\<lambda>_ _. 20000000000) ?V (sg_shared slow_sharing) (sg_go slow_sharing 0) = 0"
    by (simp add: step_cost_def slow_sharing_def call_do_def)
  moreover have "step_cost (\<lambda>_ _. 20000000000) ?V (sg_shared S1) (sg_go S1 0) = 20000000000"
    by (simp add: step_cost_def S1 sample_vcd_env_def)
  moreover have "waits_for (sg_go S1 1) (sg_go S1 0)"
    by (simp add: waits_for_def S1 slow_sharing_def call_do_def)
  ultimately show ?thesis by (simp add: run)
qed

lemma slow_org_found:
  "\<exists>org c' x'. GetOrganization slow_vcd ''acme'' (clearToken sample_client) ([], 0) = (Inr org, c', x')"
proof -
  let ?zero = "\<lparr>ds_client = clearToken sample_client, ds_body = None, ds_result = zero_organizationResult, ds_world = ([], 0)\<rparr>"
  have h: "header_get [(''X-Vmware-Vcloud-Access-Token'', ''t1'')] ''X-VMWARE-VCLOUD-ACCESS-TOKEN'' = ''t1''"
    by (simp add: header_get_def lower_char_def) (simp add: chr_eval)
  have env: "ve_net slow_vcd req (w, t) = (Inr (answer_org_auth req), hr_body req, (w @ [req], t + 20000000000))"
    "ve_request_err slow_vcd m u = None" "ve_lib slow_vcd = ascii_tables" for req w t m u
    by (simp_all add: slow_vcd_def timed_def sample_vcd_env_def recording_def)
  obtain x where a: "authenticate slow_vcd (clearToken sample_client) ([], 0) = (None, sample_client\<lparr>vc_token := ''t1''\<rparr>, x)"
    by (simp add: authenticate_def env auth_request_def answer_org_auth_def answer_401_def h clearToken_def Let_def)
  obtain s where att: "do_attempt slow_vcd ''GET'' (org_path ''acme'') (Some (''*vcd.organizationResult'', dec_organizationResult ascii_tables))
      ?zero = (None, s)" and v: "slice_elems (or_Values (ds_result s)) \<noteq> []"
  proof (cases x)
    case (Pair w t)
    have "getToken slow_vcd (clearToken sample_client) ([], 0) = (Inr ''t1'', sample_client\<lparr>vc_token := ''t1''\<rparr>, (w, t))"
      using a Pair by (simp add: getToken_def clearToken_def)
    then show thesis
      using that by (simp add: do_attempt_def Let_def env answer_org_auth_def api_request_def answer_org_def
          decodeJSON_def json_unmarshal_def sample_org_json dec_organizationResult_def dec_Organization_def
          find_field_def on_field_def zero_organizationResult_def slice_elems_def)
  qed
  have "vcd_do slow_vcd ''GET'' (org_path ''acme'') None
      (Some (''*vcd.organizationResult'', dec_organizationResult (ve_lib slow_vcd))) zero_organizationResult
      (clearToken sample_client) ([], 0) = (None, s, [])"
    using att by (simp add: vcd_do_def retry_Do_3 env)
  with v show ?thesis
    by (cases "slice_elems (or_Values (ds_result s))") (simp_all add: GetOrganization_def Let_def)
qed

lemma accepted_but_not_answered_witness:
  "\<exists>w' s'. handleOnboardOrg slow_http_env onboard_request fresh_writer slow_server = (Returns (), w', s') \<and>
    rw_status w' = Some 202 \<and> length (ss_jobs s') = 1 \<and>
    \<not> answer_in_time (httpServer (Load dev_build sample_getenv)) (snd (ss_world s'))"
proof -
  have cid: "oq_ClientID sample_onboard = ''acme''" by (simp add: sample_onboard_def)
  have lib: "he_lib slow_http_env = he_lib org_http_env"
    by (simp add: slow_http_env_def slow_vcd_def org_http_env_def sample_vcd_env_def)
  have srv: "ss_vcd slow_server = Some (clearToken sample_client)" "ss_world slow_server = ([], 0)" "ss_jobs slow_server = []"
    by (simp_all add: slow_server_def)
  obtain org c' x' where g: "GetOrganization (he_vcd slow_http_env) (oq_ClientID sample_onboard) (clearToken sample_client) (ss_world slow_server) = (Inr org, c', x')"
    using slow_org_found by (auto simp: slow_http_env_def cid srv)
  obtain code v jobs where q: "enqueue slow_http_env (OnboardOrg (onboard_args_of sample_onboard)) (ss_jobs slow_server) =
      ((code, v), jobs)" by (metis prod.exhaust)
  have u: "unwritten fresh_writer" by (simp add: unwritten_def fresh_writer_def)
  from handleOnboardOrg_found [OF sample_onboard_decodes[folded lib] srv(1) g q]
  have h: "handleOnboardOrg slow_http_env onboard_request fresh_writer slow_server = (Returns (), encode code v fresh_writer,
      slow_server\<lparr>ss_vcd := Some c', ss_world := x', ss_jobs := jobs\<rparr>)" .
  have "code = 202" using enqueue_result [OF q] by (simp add: slow_http_env_def)
  then have a: "rw_status (encode code v fresh_writer) = Some 202" by (simp add: encode_status(1) [OF u])
  have sl: "slow 15000000000 (\<lambda>(_ :: http_request) (_ :: http_request list). 20000000000)" by (simp add: slow_def)
  have V: "he_vcd slow_http_env = timed (\<lambda>_ _. 20000000000) ((sample_vcd_env answer_org_auth)\<lparr>ve_retry := least_env\<rparr>)"
    by (simp add: slow_http_env_def slow_vcd_def)
  have t: "vc_token (clearToken sample_client) = []" by (simp add: clearToken_def)
  from accepted_but_not_answered [OF h u a V sl srv(1) t, of "Load dev_build sample_getenv"] h a
  show ?thesis by (auto simp: srv)
qed

end
