(* ===== verification/Spec2Isabelle.thy ===== *)
theory Spec2Isabelle
  imports Prelude GoStrings GoCrypto GoErrors GoJson GoJsonCodec JsonTexts Retry VcdErrors VcdClient
    VcdSharing Postgres WorkflowState Runner Jobs AppConfig HttpTypes Http Middleware Handlers Server
    Queue System Ledger Debug Database Startup Timeouts
begin

text \<open>
  hbs-queue, the HostBill queue service: an HTTP server takes provisioning requests and
  webhooks, enqueues jobs in River (a job queue in Postgres), and workers run the jobs as
  workflows whose progress is kept in the table \<open>workflow_state\<close>. The development models the
  Go code under \<open>cmd/\<close> and \<open>internal/\<close>, one theory per component, and proves what makes each
  correct and what the whole promises.

  \<^bold>\<open>How the parts interact.\<close> \<open>run\<close> (\<open>cmd/hbsqueue/main.go\<close>) loads the configuration, opens the
  pool, migrates the schema, registers the workers, starts River and serves HTTP. A request
  passes \<open>requestID\<close>, \<open>devCORS\<close> (outside prod), \<open>requestLogger\<close> and \<open>panicRecovery\<close> to the
  route table; the API routes check a key, the webhook routes a signature. The onboarding
  handler validates the request, looks the organization up with the VCD client (which
  authenticates and retries through \<open>retry.Do\<close>) and enqueues a job in a transaction. River
  hands the job to \<open>OnboardOrgWorker.Work\<close>, which runs the seven steps with the workflow
  runner in one transaction on \<open>workflow_state\<close>.

  \<^bold>\<open>Theories.\<close>
  \<^item> \<open>Prelude\<close>: names of Go's types, results that may panic, maps with string keys (locale
    \<open>string_map\<close>), the collections of simplification rules.
  \<^item> \<open>GoStrings\<close>, \<open>GoCrypto\<close>, \<open>GoJson\<close>, \<open>GoJsonCodec\<close>, \<open>JsonTexts\<close>: what the code uses of
    \<open>strings\<close>, \<open>strconv\<close>, \<open>unicode/utf8\<close>, \<open>net/url\<close>, \<open>encoding/hex\<close>, \<open>crypto/hmac\<close>,
    \<open>crypto/sha256\<close>, \<open>crypto/subtle\<close> and \<open>encoding/json\<close>, with the round trips of encoding and
    decoding. Go's Unicode tables are the parameter \<open>go_lib\<close>.
  \<^item> \<open>GoErrors\<close>: error values as trees, \<open>errors.Is\<close> and \<open>errors.As\<close>, \<open>PermanentError\<close> of
    \<open>workflow/step.go\<close>, \<open>IsRetryable\<close> and \<open>IsNotFound\<close> of \<open>clients/vcd/errors.go\<close> (locale
    \<open>transparent_wrapper\<close>), all three against the preorder of the tree; \<open>VcdErrors\<close>: the API error and the summary of its body.
  \<^item> \<open>Retry\<close>: \<open>retry/retry.go\<close> on 64-bit durations (locale \<open>retried\<close>: what every attempt keeps,
    \<open>Do\<close> keeps).
  \<^item> \<open>VcdClient\<close>: \<open>clients/vcd\<close>, the client with its cached token and the lookups; the network is a
    function from request and outside world to response and outside world. \<open>VcdSharing\<close>: the same
    client shared by goroutines, interleaved between the critical sections of its mutex (locale
    \<open>step_invariant\<close>, interpreted for the mutex, the tokens and their number); a goroutine that is
    not interrupted does what \<open>VcdClient\<close> says.
  \<^item> \<open>Postgres\<close>, \<open>WorkflowState\<close>: the table with the constraints of
    \<open>db/migrations/001_workflow_state.up.sql\<close>, the statements of \<open>workflow/state.go\<close> in a
    transaction, the accumulator, and the repository (locale \<open>repository_laws\<close>, interpreted on
    \<open>PgxRepository\<close>).
  \<^item> \<open>Runner\<close>: \<open>workflow/runner.go\<close> for any repository within the laws, with the inductive
    relations \<open>setup_failed\<close> and \<open>run_spec\<close> of what a run may do; the latter knows of the
    repository only which states it \<open>refuses\<close> to store, and with which error.
  \<^item> \<open>Jobs\<close>: \<open>jobs/\<close>, the arguments, their JSON, the worker with its transaction, and the
    inductive predicates \<open>durable\<close> of the tables attempts can commit and \<open>failing_attempts\<close> of those
    between which a job never succeeds.
  \<^item> \<open>AppConfig\<close>: \<open>config/config.go\<close>. \<open>HttpTypes\<close>: \<open>httpapi/types.go\<close> and \<open>decodeValid\<close> (locale
    \<open>validated\<close>, interpreted on all seven request types).
  \<^item> \<open>Http\<close>: what is used of \<open>net/http\<close> (request, once-only response writer with the wrapping
    \<open>statusWriter\<close>, \<open>http.Error\<close>, \<open>ServeMux\<close>, the final answer); \<open>Middleware\<close>: \<open>middleware.go\<close>
    (locales \<open>answering\<close> and \<open>job_neutral\<close>); \<open>Handlers\<close>: the handlers and \<open>encode\<close>; \<open>Server\<close>:
    \<open>routes.go\<close> and \<open>server.go\<close>.
  \<^item> \<open>Queue\<close>: the way of a job's arguments through River's JSON and the \<open>JSONB\<close> column that stores
    it (locale \<open>keeping_decoder\<close>). The column is a parameter: it may refuse a text, and what it
    gives back holds the same members in any order (\<open>jsonb_objects\<close>).
  \<^item> \<open>System\<close>: server, queue and workers together as the state machine \<open>system_step\<close> with its
    \<open>reachable\<close> states; River may remove any job at any time (after its last attempt, or when its
    cleaner comes), and \<open>sy_history\<close> remembers the jobs that were ever enqueued; \<open>Ledger\<close>: the abstract machine they refine (locale \<open>simulation\<close>).
  \<^item> \<open>Debug\<close>: \<open>debug.go\<close>, the debug multiplexer with its subtree pattern, the published metrics, the
    page of the dashboard and what its script does.
  \<^item> \<open>Database\<close>: \<open>db/\<close>; \<open>Startup\<close>: \<open>main.go\<close> as the trace of what is started and stopped, and
    the set-up of the logger; \<open>Timeouts\<close>: the time limits of the VCD client and of the servers, and
    a network that takes time, also while a call waits for the mutex of the client.

  \<^bold>\<open>Conventions.\<close> A struct is a record, a nil-able pointer or error an option, an error return a
  sum or an option, a panic the constructor \<open>Panics\<close>, which every caller passes on or recovers.
  State that a function changes is an argument and a result. An \<open>int\<close>, \<open>int64\<close> or
  \<open>time.Duration\<close> is a 64-bit word read through \<open>sint\<close> where its width matters. What the
  environment decides during a call (faults of the database, ids, the clock, random bytes,
  answers of the network, of River and of pgx) is a field of an environment record, so every
  theorem without an assumption on it holds for all of its behaviours. Logging is left out,
  except for the access log.

  \<^bold>\<open>What is shown.\<close> For the workflow: a run refines \<open>run_spec\<close>; success means every remaining step
  ran and the row is completed; nothing but completed rows is ever committed, so a failed
  attempt restarts from step 0; rows of other jobs are untouched; what \<open>UpdateStep\<close> stored
  \<open>Get\<close> reads back. For the HTTP layer: the server answers every request without a panic, tags
  it and logs it once with the status sent; jobs are only enqueued by authenticated, valid
  requests, exactly when 202 is answered, an ambiguous commit apart; a webhook passes exactly
  when its secret, freshness and signature are in order; responses are the JSON objects of
  their types. For both together: the service refines a ledger of accepted and finished jobs;
  every row in the table comes from such a request, stays, and has the request's client id,
  because the arguments survive the queue; the first attempt on an accepted job completes, on a
  database that carries out its statements (\<open>good_env\<close>) and takes the texts (\<open>accepts\<close>), exactly
  when its client id fits its column. That every accepted job is attempted until it succeeds is
  not shown: River may give it up.
  For the client and \<open>retry.Do\<close>: attempts, waits and their bounds, the time a call can take among
  others that share the client, tokens, classification of errors; under every interleaving of calls on one client, mutual
  exclusion, tokens that were issued, a bound on authentications, and no deadlock. For the
  process: the order of start-up and shutdown, the isolation of the two listeners, and what the
  dashboard shows. Where the code departs from its
  documentation or its purpose the theorems state what it does: a permanent error is retried,
  non-retryable statuses are repeated, a signal stops River before the HTTP server and without
  letting its jobs finish, a failing HTTP server leaves River running on a closed pool, a webhook may come from the future, a late 401 discards a fresh token, an accepted
  request may go unanswered, and others.

  \<^bold>\<open>Fuel and bounds.\<close> The JSON parser takes fuel; \<open>p_value_fuel\<close> shows that twice the length of
  the text plus one is always enough, and \<open>json_value\<close> starts with it. Every other recursion is
  structural or has a termination proof. The nesting depth is limited to 10000 as in
  \<open>encoding/json\<close>. A goroutine in \<open>do\<close> takes at most fifteen steps (three attempts of five), so the
  fifteen steps of \<open>alone\<close> are enough.

  \<^bold>\<open>Simplifications.\<close> In \<open>System\<close> a request and an attempt are atomic steps; the finer steps of
  calls on one client are in \<open>VcdSharing\<close>, where a critical section that does not wait for the
  network is one step. A request body that cannot be read fails
  before its first JSON value is complete, or after it (\<open>rq_read_err\<close>). Header names are kept as
  the source spells them. The status and location of a redirect to a cleaned path are a
  parameter, because they depend on the version of \<open>net/http\<close>. The request log has no
  duration. In \<open>run\<close> the two listeners are goroutines; the trace has them in the order of the
  \<open>go\<close> statements. \<open>ContextDone\<close> is the end of the context that River was started with: a signal
  while the listeners run, or the deferred \<open>cancel\<close>. A signal during the start-up shows only in
  what the parts answer. In \<open>Timeouts\<close> only exchanges and waits take time.

  \<^bold>\<open>Not modelled.\<close> The handlers of \<open>net/http/pprof\<close> and \<open>expvar\<close>, River and pgx themselves, which
  are not part of the repository and enter as parameters; the texts that are logged; how the
  browser parses the parameter of the dashboard and draws its page; of the time limits,
  what the servers do with theirs except for the write timeout, and the limits of the transport
  below the client's own; the down migration, the Makefile, the compose file and the API
  documentation, which have no program logic.
\<close>

end
